(* ===== verification/Prelude.thy ===== *)
theory Prelude
  imports Main "HOL-Library.Multiset" "HOL-Library.Sublist"
begin

text \<open>
  Shared vocabulary of the development: the width of the C++ \<open>uint64_t\<close>, the characters the
  protocol and the file formats use, decimal rendering and reading of numbers (\<open>std::to_string\<close>,
  Python's \<open>str\<close>, the digits \<open>strtoull\<close> and \<open>int\<close> accept), splitting a text into its lines, and
  the list facts that several components use.

  Bytes are modelled as \<^typ>\<open>char\<close> (256 values) and byte strings as \<^typ>\<open>string\<close>.
\<close>

named_theorems io_simps \<open>how the primitive input/output operations change each state field\<close>
named_theorems parse_simps \<open>facts that evaluate the parsers on rendered text\<close>

section \<open>Machine integers\<close>

text \<open>
  C++ unsigned 64-bit values are natural numbers below \<open>2 ^ 64\<close>; where the code can wrap or
  saturate, the model writes it out.
\<close>

definition u64_max :: nat where
  "u64_max = 18446744073709551615"

definition u64_add :: "nat \<Rightarrow> nat \<Rightarrow> nat" where
  "u64_add a b = (a + b) mod (u64_max + 1)"

lemma u64_add_exact [simp]: "a + b \<le> u64_max \<Longrightarrow> u64_add a b = a + b"
  by (simp add: u64_add_def)

lemma u64_add_le [simp]: "u64_add a b \<le> u64_max"
proof -
  have "(a + b) mod (u64_max + 1) < u64_max + 1"
    by (rule mod_less_divisor) simp
  then show ?thesis
    by (simp add: u64_add_def)
qed

section \<open>Characters\<close>

abbreviation NL :: char where "NL \<equiv> CHR 0x0A"
abbreviation CR :: char where "CR \<equiv> CHR 0x0D"
abbreviation TAB :: char where "TAB \<equiv> CHR 0x09"
abbreviation SP :: char where "SP \<equiv> CHR 0x20"
abbreviation QUOTE :: char where "QUOTE \<equiv> CHR 0x22"
abbreviation COMMA :: char where "COMMA \<equiv> CHR 0x2C"
abbreviation SLASH :: char where "SLASH \<equiv> CHR 0x2F"
abbreviation NUL :: char where "NUL \<equiv> CHR 0x00"

definition ord :: "char \<Rightarrow> nat" where
  "ord c = of_char c"

text \<open>C's \<open>isspace\<close> in the C locale: space, tab, newline, vertical tab, form feed, return.\<close>

definition is_space :: "char \<Rightarrow> bool" where
  "is_space c \<longleftrightarrow> ord c = 32 \<or> (9 \<le> ord c \<and> ord c \<le> 13)"

definition is_digit :: "char \<Rightarrow> bool" where
  "is_digit c \<longleftrightarrow> 48 \<le> ord c \<and> ord c \<le> 57"

definition digit_val :: "char \<Rightarrow> nat" where
  "digit_val c = ord c - 48"

definition digit_char :: "nat \<Rightarrow> char" where
  "digit_char d = char_of (48 + d)"

lemma digit_char_eval:
  "digit_char 0 = CHR ''0''" "digit_char 1 = CHR ''1''" "digit_char 2 = CHR ''2''" "digit_char 3 = CHR ''3''"
  "digit_char 4 = CHR ''4''" "digit_char 5 = CHR ''5''" "digit_char 6 = CHR ''6''" "digit_char 7 = CHR ''7''"
  "digit_char 8 = CHR ''8''" "digit_char 9 = CHR ''9''" "digit_char (Suc 0) = CHR ''1''"
  by (simp_all add: digit_char_def char_of_def bit_iff_odd)

lemma ord_digit_char: "d < 10 \<Longrightarrow> ord (digit_char d) = 48 + d"
  by (simp add: ord_def digit_char_def)

lemma is_digit_digit_char [simp]: "d < 10 \<Longrightarrow> is_digit (digit_char d)"
  by (simp add: is_digit_def ord_digit_char)

lemma digit_val_digit_char [simp]: "d < 10 \<Longrightarrow> digit_val (digit_char d) = d"
  by (simp add: digit_val_def ord_digit_char)

lemma is_digit_not_space: "is_digit c \<Longrightarrow> \<not> is_space c"
  by (auto simp: is_digit_def is_space_def)

lemma is_digit_neq:
  assumes "is_digit c"
  shows "c \<noteq> SP" "c \<noteq> NL" "c \<noteq> CR" "c \<noteq> TAB" "c \<noteq> COMMA" "c \<noteq> QUOTE" "c \<noteq> SLASH"
    "c \<noteq> CHR ''-''" "c \<noteq> CHR ''+''" "c \<noteq> CHR ''_''" "c \<noteq> CHR ''.''" "c \<noteq> NUL"
  using assms by (auto simp: is_digit_def ord_def)

section \<open>Decimal numbers\<close>

fun nat_str :: "nat \<Rightarrow> string" where
  "nat_str n = (if n < 10 then [digit_char n] else nat_str (n div 10) @ [digit_char (n mod 10)])"

declare nat_str.simps [simp del]

definition dec_val :: "string \<Rightarrow> nat" where
  "dec_val s = foldl (\<lambda>a c. 10 * a + digit_val c) 0 s"

lemma dec_val_Nil [simp]: "dec_val [] = 0"
  by (simp add: dec_val_def)

lemma dec_val_snoc [simp]: "dec_val (s @ [c]) = 10 * dec_val s + digit_val c"
  by (simp add: dec_val_def)

lemma nat_str_nonempty [simp]: "nat_str n \<noteq> []"
  by (subst nat_str.simps) simp

lemma nat_str_digits: "c \<in> set (nat_str n) \<Longrightarrow> is_digit c"
proof (induction n rule: nat_str.induct)
  case (1 n)
  then show ?case
    by (cases "n < 10") (auto simp: nat_str.simps [of n])
qed

lemma nat_str_list_all [simp]: "list_all is_digit (nat_str n)"
  by (auto simp: list_all_iff dest: nat_str_digits)

lemma dec_val_nat_str [simp, parse_simps]: "dec_val (nat_str n) = n"
proof (induction n rule: nat_str.induct)
  case (1 n)
  show ?case
  proof (cases "n < 10")
    case True
    then have "dec_val ([] @ [digit_char n]) = n"
      by (simp only: dec_val_snoc) simp
    with True show ?thesis
      by (simp add: nat_str.simps [of n])
  next
    case False
    with "1.IH" show ?thesis
      by (simp add: nat_str.simps [of n])
  qed
qed

lemma nat_str_inject [simp]: "nat_str m = nat_str n \<longleftrightarrow> m = n"
  by (metis dec_val_nat_str)

lemma hd_nat_str_digit [simp]: "is_digit (hd (nat_str n))"
  by (rule nat_str_digits [of _ n]) simp

text \<open>Python's \<open>str\<close> of an integer.\<close>

definition int_str :: "int \<Rightarrow> string" where
  "int_str i = (if i < 0 then CHR ''-'' # nat_str (nat (- i)) else nat_str (nat i))"

section \<open>Lines\<close>

text \<open>
  A text is cut after every newline; a last line without one counts. This is the reference for
  the server's \<open>line_length_at\<close> and for Python's iteration over a file.
\<close>

definition first_line :: "string \<Rightarrow> string" where
  "first_line s = takeWhile (\<lambda>c. c \<noteq> NL) s @ (if NL \<in> set s then [NL] else [])"

lemma first_line_Nil [simp]: "first_line [] = []"
  by (simp add: first_line_def)

lemma first_line_Cons: "first_line (c # s) = (if c = NL then [NL] else c # first_line s)"
  by (auto simp: first_line_def)

lemma first_line_nonempty [simp]: "first_line s = [] \<longleftrightarrow> s = []"
  by (cases s) (auto simp: first_line_Cons)

lemma first_line_prefix: "first_line s = take (length (first_line s)) s"
  by (induction s) (auto simp: first_line_Cons)

lemma length_first_line_le: "length (first_line s) \<le> length s"
  by (induction s) (auto simp: first_line_Cons)

function split_lines :: "string \<Rightarrow> string list" where
  "split_lines s =
     (if s = [] then [] else first_line s # split_lines (drop (length (first_line s)) s))"
  by pat_completeness auto
termination
  by (relation "measure length") (auto simp: length_greater_0_conv)

declare split_lines.simps [simp del]

lemma split_lines_Nil [simp]: "split_lines [] = []"
  by (simp add: split_lines.simps)

lemma split_lines_nonempty:
  "s \<noteq> [] \<Longrightarrow> split_lines s = first_line s # split_lines (drop (length (first_line s)) s)"
  by (simp add: split_lines.simps [of s])

lemma concat_split_lines [simp]: "concat (split_lines s) = s"
proof (induction s rule: split_lines.induct)
  case (1 s)
  show ?case
  proof (cases "s = []")
    case False
    with "1.IH" show ?thesis
      using first_line_prefix [of s] append_take_drop_id [of "length (first_line s)" s]
      by (simp add: split_lines_nonempty)
  qed simp
qed

lemma split_lines_Nil_iff [simp]: "split_lines s = [] \<longleftrightarrow> s = []"
  by (metis concat.simps(1) concat_split_lines split_lines_Nil)

lemma split_lines_elem: "l \<in> set (split_lines s) \<Longrightarrow> l \<noteq> []"
proof (induction s rule: split_lines.induct)
  case (1 s)
  show ?case
  proof (cases "s = []")
    case True
    with "1.prems" show ?thesis by simp
  next
    case False
    from "1.prems" have "l = first_line s \<or> l \<in> set (split_lines (drop (length (first_line s)) s))"
      by (simp only: split_lines_nonempty [OF False] list.set) blast
    with False "1.IH" show ?thesis by (metis first_line_nonempty)
  qed
qed

lemma split_lines_line: "NL \<notin> set l \<Longrightarrow> split_lines (l @ NL # s) = (l @ [NL]) # split_lines s"
proof -
  assume "NL \<notin> set l"
  then have "first_line (l @ NL # s) = l @ [NL]"
    by (induction l) (auto simp: first_line_Cons)
  then show ?thesis
    by (simp add: split_lines_nonempty)
qed

section \<open>Lists\<close>

lemma length_le_concat: "xs \<in> set xss \<Longrightarrow> length xs \<le> length (concat xss)"
  by (induction xss) auto

lemma sum_list_length_concat: "sum_list (map length xss) = length (concat xss)"
  by (simp add: length_concat)

lemma takeWhile_append_stop: "list_all P xs \<Longrightarrow> \<not> P y \<Longrightarrow> takeWhile P (xs @ y # ys) = xs"
  by (induction xs) auto

lemma dropWhile_append_stop: "list_all P xs \<Longrightarrow> \<not> P y \<Longrightarrow> dropWhile P (xs @ y # ys) = y # ys"
  by (induction xs) auto

lemma takeWhile_all: "list_all P xs \<Longrightarrow> takeWhile P xs = xs"
  by (induction xs) auto

lemma dropWhile_all: "list_all P xs \<Longrightarrow> dropWhile P xs = []"
  by (induction xs) auto

end
