(* ===== verification/Protocol.thy ===== *)
theory Protocol
  imports Prelude
begin

text \<open>
  The text protocol of \<open>src/common/protocol.cpp\<close>: splitting a request line, reading unsigned
  numbers, parsing request and response lines, formatting responses, and the file-name check.
  The socket functions of the same file are in theory \<open>Channel\<close>.
\<close>

section \<open>Tokens and numbers\<close>

lemma split_ws_decreases:
  assumes "s \<noteq> []"
  shows "length (dropWhile (\<lambda>c. c \<noteq> SP) (dropWhile (\<lambda>c. c = SP) s)) < length s"
proof (cases s)
  case (Cons c t)
  have le: "length (dropWhile P xs) \<le> length xs" for P :: "char \<Rightarrow> bool" and xs
    by (induction xs) auto
  show ?thesis
    using Cons le [of "\<lambda>c. c \<noteq> SP" "dropWhile (\<lambda>c. c = SP) t"] le [of "\<lambda>c. c = SP" t]
      le [of "\<lambda>c. c \<noteq> SP" t]
    by (cases "c = SP") auto
qed (use assms in simp)

text \<open>\<open>split_ws\<close> cuts at the space character only; tabs and carriage returns stay in tokens.\<close>

function split_ws :: "string \<Rightarrow> string list" where
  "split_ws s =
     (if s = [] then []
      else let i = dropWhile (\<lambda>c. c = SP) s;
               tok = takeWhile (\<lambda>c. c \<noteq> SP) i;
               j = dropWhile (\<lambda>c. c \<noteq> SP) i
           in if tok \<noteq> [] then tok # split_ws j else split_ws j)"
  by pat_completeness auto
termination
  by (relation "measure length") (auto simp: split_ws_decreases)

declare split_ws.simps [simp del]

text \<open>
  \<open>strtoull (tok, \&end, 10)\<close> on a token of digits: the value, or \<open>ERANGE\<close> when it does not fit
  in 64 bits. \<open>None\<close> is the \<open>false\<close> return.
\<close>

definition parse_u64 :: "string \<Rightarrow> nat option" where
  "parse_u64 tok =
     (if tok = [] then None
      else if \<not> list_all is_digit tok then None
      else if dec_val tok > u64_max then None
      else Some (dec_val tok))"

lemma parse_u64_nat_str [simp, parse_simps]: "n \<le> u64_max \<Longrightarrow> parse_u64 (nat_str n) = Some n"
  by (simp add: parse_u64_def)

lemma parse_u64_bound: "parse_u64 tok = Some n \<Longrightarrow> n \<le> u64_max"
  by (auto simp: parse_u64_def split: if_splits)

text \<open>What a token is: a non-empty string without spaces.\<close>

definition token :: "string \<Rightarrow> bool" where
  "token t \<longleftrightarrow> t \<noteq> [] \<and> SP \<notin> set t"

lemma token_nat_str [simp]: "token (nat_str n)"
  by (auto simp: token_def dest: nat_str_digits is_digit_neq)

lemma split_ws_Nil [simp, parse_simps]: "split_ws [] = []"
  by (simp add: split_ws.simps)

lemma token_takeWhile:
  assumes "token t"
  shows "dropWhile (\<lambda>c. c = SP) (t @ u) = t @ u"
    and "takeWhile (\<lambda>c. c \<noteq> SP) t = t" and "dropWhile (\<lambda>c. c \<noteq> SP) t = []"
    and "takeWhile (\<lambda>c. c \<noteq> SP) (t @ SP # s) = t"
    and "dropWhile (\<lambda>c. c \<noteq> SP) (t @ SP # s) = SP # s"
proof -
  have nsp: "list_all (\<lambda>c. c \<noteq> SP) t" and ne: "t \<noteq> []"
    using assms by (auto simp: token_def list_all_iff)
  show "dropWhile (\<lambda>c. c = SP) (t @ u) = t @ u"
    using ne nsp by (cases t) auto
  show "takeWhile (\<lambda>c. c \<noteq> SP) t = t" "dropWhile (\<lambda>c. c \<noteq> SP) t = []"
    using nsp by (simp_all only: takeWhile_all dropWhile_all)
  show "takeWhile (\<lambda>c. c \<noteq> SP) (t @ SP # s) = t" "dropWhile (\<lambda>c. c \<noteq> SP) (t @ SP # s) = SP # s"
    using nsp takeWhile_append_stop [of "\<lambda>c. c \<noteq> SP" t SP s] dropWhile_append_stop [of "\<lambda>c. c \<noteq> SP" t SP s]
    by simp_all
qed

lemma token_nonempty: "token t \<Longrightarrow> t \<noteq> []"
  by (simp add: token_def)

lemma split_ws_token [parse_simps]: "token t \<Longrightarrow> split_ws t = [t]"
  using token_takeWhile(1) [of t "[]"]
  by (simp add: split_ws.simps [of t] Let_def token_takeWhile(2,3) token_nonempty)

lemma split_ws_token_SP [parse_simps]: "token t \<Longrightarrow> split_ws (t @ SP # s) = t # split_ws (SP # s)"
  by (simp add: split_ws.simps [of "t @ SP # s"] Let_def token_takeWhile token_nonempty)

lemma split_ws_SP [simp, parse_simps]: "split_ws (SP # s) = split_ws s"
  by (cases s) (simp_all add: split_ws.simps [of "SP # _"] split_ws.simps [of "_ # _"])

lemma split_ws_tokens: "t \<in> set (split_ws s) \<Longrightarrow> token t"
proof (induction s rule: split_ws.induct)
  case (1 s)
  define i where "i = dropWhile (\<lambda>c. c = SP) s"
  define tok where "tok = takeWhile (\<lambda>c. c \<noteq> SP) i"
  define j where "j = dropWhile (\<lambda>c. c \<noteq> SP) i"
  have eq: "split_ws s = (if s = [] then [] else if tok \<noteq> [] then tok # split_ws j else split_ws j)"
    by (simp add: split_ws.simps [of s] i_def tok_def j_def Let_def)
  have "SP \<notin> set tok"
    using set_takeWhileD [of SP "\<lambda>c. c \<noteq> SP" i] by (auto simp: tok_def)
  moreover have "s \<noteq> [] \<Longrightarrow> t \<in> set (split_ws j) \<Longrightarrow> token t"
    using "1.IH" [OF _ i_def tok_def j_def] by (cases "tok = []") auto
  ultimately show ?case
    using "1.prems" eq by (auto simp: token_def split: if_splits)
qed

lemma concat_split_ws: "concat (split_ws s) = filter (\<lambda>c. c \<noteq> SP) s"
proof (induction s rule: split_ws.induct)
  case (1 s)
  define i where "i = dropWhile (\<lambda>c. c = SP) s"
  define tok where "tok = takeWhile (\<lambda>c. c \<noteq> SP) i"
  define j where "j = dropWhile (\<lambda>c. c \<noteq> SP) i"
  have eq: "split_ws s = (if s = [] then [] else if tok \<noteq> [] then tok # split_ws j else split_ws j)"
    by (simp add: split_ws.simps [of s] i_def tok_def j_def Let_def)
  have a: "filter (\<lambda>c. c \<noteq> SP) s = filter (\<lambda>c. c \<noteq> SP) i"
    unfolding i_def by (induction s) auto
  have b: "filter (\<lambda>c. c \<noteq> SP) tok = tok"
    unfolding tok_def by (induction i) auto
  have "i = tok @ j"
    by (simp add: tok_def j_def)
  with a b have f: "filter (\<lambda>c. c \<noteq> SP) s = tok @ filter (\<lambda>c. c \<noteq> SP) j"
    by (metis filter_append)
  have "s \<noteq> [] \<Longrightarrow> concat (split_ws j) = filter (\<lambda>c. c \<noteq> SP) j"
    using "1.IH" [OF _ i_def tok_def j_def] by (cases "tok = []") auto
  with eq f show ?case by auto
qed

section \<open>Request lines\<close>

datatype req_type = GET | PUT | HEALTH | MALFORMED

record parsed_request_line =
  req_type :: req_type
  req_filename :: string
  req_byte_count :: nat
  req_error :: string

text \<open>The default member initialisers.\<close>

definition empty_request_line :: parsed_request_line where
  "empty_request_line =
     \<lparr>req_type = MALFORMED, req_filename = [], req_byte_count = 0, req_error = []\<rparr>"

definition parse_request_line :: "string \<Rightarrow> parsed_request_line" where
  "parse_request_line line =
     (let result = empty_request_line; tok = split_ws line in
      if tok = [] then result\<lparr>req_error := ''malformed request line''\<rparr>
      else if tok ! 0 = ''GET'' then
        (if length tok \<noteq> 2 then result\<lparr>req_error := ''GET requires exactly one filename''\<rparr>
         else result\<lparr>req_type := GET, req_filename := tok ! 1\<rparr>)
      else if tok ! 0 = ''PUT'' then
        (if length tok \<noteq> 3
         then result\<lparr>req_error := ''PUT requires a filename and a byte count''\<rparr>
         else case parse_u64 (tok ! 2) of
                None \<Rightarrow> result\<lparr>req_error := ''missing or non-numeric byte count''\<rparr>
              | Some b \<Rightarrow> result\<lparr>req_type := PUT, req_filename := tok ! 1, req_byte_count := b\<rparr>)
      else if tok ! 0 = ''HEALTH'' then
        (if length tok \<noteq> 1 then result\<lparr>req_error := ''malformed request line''\<rparr>
         else result\<lparr>req_type := HEALTH\<rparr>)
      else result\<lparr>req_error := ''unknown request line''\<rparr>)"

section \<open>Response lines\<close>

definition format_ok :: "nat \<Rightarrow> string" where
  "format_ok n = ''OK '' @ nat_str n @ [NL]"

definition format_err :: "string \<Rightarrow> string" where
  "format_err reason = ''ERR '' @ reason @ [NL]"

record parsed_response_line =
  resp_ok :: bool
  resp_malformed :: bool
  resp_n :: nat
  resp_reason :: string

definition empty_response_line :: parsed_response_line where
  "empty_response_line = \<lparr>resp_ok = False, resp_malformed = False, resp_n = 0, resp_reason = []\<rparr>"

text \<open>\<open>line.find(' ')\<close> and \<open>line.substr(pos + 1)\<close>: what follows the first space.\<close>

definition after_first_space :: "string \<Rightarrow> string" where
  "after_first_space line = drop 1 (dropWhile (\<lambda>c. c \<noteq> SP) line)"

definition parse_response_line :: "string \<Rightarrow> parsed_response_line" where
  "parse_response_line line =
     (let result = empty_response_line; tok = split_ws line in
      if tok \<noteq> [] \<and> tok ! 0 = ''OK'' then
        (case (if length tok = 2 then parse_u64 (tok ! 1) else None) of
           Some n \<Rightarrow> result\<lparr>resp_ok := True, resp_n := n\<rparr>
         | None \<Rightarrow> result\<lparr>resp_malformed := True\<rparr>)
      else if tok \<noteq> [] \<and> tok ! 0 = ''ERR'' then
        result\<lparr>resp_ok := False, resp_reason := after_first_space line\<rparr>
      else result\<lparr>resp_malformed := True\<rparr>)"

section \<open>File names\<close>

definition is_filename_safe :: "string \<Rightarrow> bool" where
  "is_filename_safe name \<longleftrightarrow>
     \<not> (name = []) \<and>
     \<not> (name = ''.'' \<or> name = ''..'') \<and>
     \<not> (SLASH \<in> set name) \<and>
     \<not> (NUL \<in> set name)"

section \<open>Lemmas\<close>

text \<open>The request lines the clients of the repository write.\<close>

definition get_header :: "string \<Rightarrow> string" where
  "get_header name = ''GET '' @ name"

definition put_header :: "string \<Rightarrow> nat \<Rightarrow> string" where
  "put_header name n = ''PUT '' @ name @ '' '' @ nat_str n"

lemma split_ws_get_header [parse_simps]: "token name \<Longrightarrow> split_ws (get_header name) = [''GET'', name]"
  using split_ws_token_SP [of "''GET''" name]
  by (simp add: get_header_def token_def [of "''GET''"] split_ws_token)

lemma split_ws_put_header [parse_simps]:
  "token name \<Longrightarrow> split_ws (put_header name n) = [''PUT'', name, nat_str n]"
  using split_ws_token_SP [of "''PUT''" "name @ SP # nat_str n"]
    split_ws_token_SP [of name "nat_str n"]
  by (simp add: put_header_def token_def [of "''PUT''"] split_ws_token)

lemma split_ws_format_ok [parse_simps]: "split_ws (''OK '' @ nat_str n) = [''OK'', nat_str n]"
  using split_ws_token_SP [of "''OK''" "nat_str n"]
  by (simp add: token_def [of "''OK''"] split_ws_token)

lemma split_ws_format_err [parse_simps]: "split_ws (''ERR '' @ reason) = ''ERR'' # split_ws reason"
  using split_ws_token_SP [of "''ERR''" reason] by (simp add: token_def [of "''ERR''"])

lemma parse_response_ok [parse_simps]:
  "n \<le> u64_max \<Longrightarrow>
     parse_response_line (''OK '' @ nat_str n) = empty_response_line\<lparr>resp_ok := True, resp_n := n\<rparr>"
  by (simp only: parse_response_line_def Let_def split_ws_format_ok)
    (simp add: numeral_2_eq_2)

lemma parse_response_err [parse_simps]:
  "parse_response_line (''ERR '' @ reason) = empty_response_line\<lparr>resp_reason := reason\<rparr>"
  by (simp only: parse_response_line_def Let_def split_ws_format_err)
    (simp add: after_first_space_def empty_response_line_def)

lemma parse_request_get [parse_simps]:
  "token name \<Longrightarrow>
     parse_request_line (get_header name) = empty_request_line\<lparr>req_type := GET, req_filename := name\<rparr>"
  by (simp only: parse_request_line_def Let_def split_ws_get_header) simp

lemma parse_request_put [parse_simps]:
  "token name \<Longrightarrow> n \<le> u64_max \<Longrightarrow>
     parse_request_line (put_header name n) =
       empty_request_line\<lparr>req_type := PUT, req_filename := name, req_byte_count := n\<rparr>"
  by (simp only: parse_request_line_def Let_def split_ws_put_header) simp

lemma parse_request_line_cases:
  fixes line :: string
  defines "p \<equiv> parse_request_line line"
  obtains
    (malformed) "req_type p = MALFORMED" "req_error p \<noteq> []"
  | (get) name where "split_ws line = [''GET'', name]" "req_type p = GET" "req_filename p = name"
      "req_error p = []"
  | (put) name num where "split_ws line = [''PUT'', name, num]" "req_type p = PUT"
      "req_filename p = name" "parse_u64 num = Some (req_byte_count p)" "req_error p = []"
  | (health) "split_ws line = [''HEALTH'']" "req_type p = HEALTH" "req_error p = []"
proof -
  let ?tok = "split_ws line"
  note [simp] = p_def parse_request_line_def empty_request_line_def Let_def
  consider "?tok = []" | "?tok \<noteq> []" "?tok ! 0 = ''GET''" | "?tok \<noteq> []" "?tok ! 0 = ''PUT''"
    | "?tok \<noteq> []" "?tok ! 0 = ''HEALTH''"
    | "?tok \<noteq> []" "?tok ! 0 \<notin> {''GET'', ''PUT'', ''HEALTH''}"
    by blast
  then show thesis
  proof cases
    case 1
    then show thesis by (intro malformed) simp_all
  next
    case 2
    show thesis
    proof (cases "length ?tok = 2")
      case True
      with 2 have "?tok = [''GET'', ?tok ! 1]"
        by (auto simp: length_Suc_conv numeral_2_eq_2)
      with 2 True show thesis by (intro get [of "?tok ! 1"]) simp_all
    qed (use 2 in \<open>intro malformed; simp\<close>)
  next
    case 3
    show thesis
    proof (cases "length ?tok = 3")
      case True
      with 3 have tok: "?tok = [''PUT'', ?tok ! 1, ?tok ! 2]"
        by (auto simp: length_Suc_conv numeral_3_eq_3)
      show thesis
      proof (cases "parse_u64 (?tok ! 2)")
        case None
        with 3 True show thesis by (intro malformed) simp_all
      next
        case (Some b)
        with 3 True tok show thesis by (intro put [of "?tok ! 1" "?tok ! 2"]) simp_all
      qed
    qed (use 3 in \<open>intro malformed; simp\<close>)
  next
    case 4
    show thesis
    proof (cases "length ?tok = 1")
      case True
      with 4 have "?tok = [''HEALTH'']" by (auto simp: length_Suc_conv)
      with 4 show thesis by (intro health) simp_all
    qed (use 4 in \<open>intro malformed; simp\<close>)
  next
    case 5
    then show thesis by (intro malformed) simp_all
  qed
qed

end
