(* ===== verification/Byte_Sink.thy ===== *)
theory Byte_Sink
  imports Prelude
begin

text \<open>
  The contract shared by the server's two output loops: \<open>send_all\<close> over \<open>send\<close>
  (\<open>src/common/protocol.cpp\<close>) and \<open>write_all\<close> over \<open>write\<close> (\<open>src/server/slice.cpp\<close>). A system call
  takes a prefix of the buffer, is interrupted, or fails; the loop repeats it until the buffer is
  empty. The locale states what the call promises and the equation of the loop; its lemma says what
  the loop delivers. Theories \<open>Channel\<close> and \<open>Filesystem\<close> interpret it.
\<close>

datatype io_event = Accept nat | Interrupt | Fail

datatype io_result = Took nat | EINTR | IO_error

fun io_event_ok :: "io_event \<Rightarrow> bool" where
  "io_event_ok (Accept k) = (0 < k)"
| "io_event_ok Interrupt = True"
| "io_event_ok Fail = False"

locale byte_sink =
  fixes put :: "string \<Rightarrow> 's \<Rightarrow> io_result \<times> 's"
    and loop :: "string \<Rightarrow> 's \<Rightarrow> bool \<times> 's"
    and contents :: "'s \<Rightarrow> string"
    and healthy :: "'s \<Rightarrow> bool"
    and frame :: "'s \<Rightarrow> 'f"
    and script_length :: "'s \<Rightarrow> nat"
  assumes loop_unfold:
      "loop d s =
         (if d = [] then (True, s)
          else case put d s of
                 (EINTR, s') \<Rightarrow> loop d s'
               | (IO_error, s') \<Rightarrow> (False, s')
               | (Took k, s') \<Rightarrow> if k = 0 then (False, s') else loop (drop k d) s')"
    and put_contents:
      "put d s = (r, s') \<Longrightarrow> d \<noteq> [] \<Longrightarrow>
         contents s' = contents s @ (case r of Took k \<Rightarrow> take k d | _ \<Rightarrow> [])"
    and put_frame: "put d s = (r, s') \<Longrightarrow> frame s' = frame s"
    and put_healthy:
      "put d s = (r, s') \<Longrightarrow> healthy s \<Longrightarrow> d \<noteq> [] \<Longrightarrow> healthy s' \<and> (r = EINTR \<or> (\<exists>k > 0. r = Took k))"
    and put_script:
      "put d s = (EINTR, s') \<Longrightarrow> script_length s' < script_length s"
      "put d s = (Took k, s') \<Longrightarrow> script_length s' \<le> script_length s"
begin

text \<open>
  Whatever the system call does, the sink receives a prefix of the buffer and nothing else; it is
  the whole buffer when the loop reports success, and on a healthy sink the loop succeeds.
\<close>

lemma loop_effect:
  "loop d s = (b, s') \<Longrightarrow>
     frame s' = frame s \<and> (healthy s \<longrightarrow> healthy s' \<and> b) \<and>
     (\<exists>k \<le> length d. contents s' = contents s @ take k d \<and> (b \<longrightarrow> k = length d))"
proof (induction "script_length s + length d" arbitrary: d s b s' rule: less_induct)
  case less
  show ?case
  proof (cases "d = []")
    case True
    with less.prems show ?thesis by (simp add: loop_unfold)
  next
    case False
    obtain r s1 where put: "put d s = (r, s1)" by (cases "put d s")
    note facts = put_contents [OF put False] put_frame [OF put] put_healthy [OF put _ False]
    show ?thesis
    proof (cases "r = IO_error \<or> r = Took 0")
      case True
      with less.prems False put have "b = False" "s' = s1"
        by (auto simp: loop_unfold [of d s])
      with True facts show ?thesis by auto
    next
      case go: False
      then obtain d1 where d1: "loop d1 s1 = (b, s')"
        "d = (case r of Took k \<Rightarrow> take k d | _ \<Rightarrow> []) @ d1"
        "script_length s1 + length d1 < script_length s + length d"
        using less.prems False put put_script [of d s]
        by (cases r) (auto simp: loop_unfold [of d s] add_le_less_mono)
      from less.hyps [OF d1(3,1)] obtain k where k: "k \<le> length d1"
        "contents s' = contents s1 @ take k d1" "b \<longrightarrow> k = length d1"
        and rest: "frame s' = frame s1" "healthy s1 \<longrightarrow> healthy s' \<and> b" by auto
      let ?pre = "case r of Took k \<Rightarrow> take k d | _ \<Rightarrow> []"
      have "contents s' = contents s @ take (length ?pre + k) d"
        using k(2) facts(1) d1(2) take_append [of "length ?pre + k" ?pre d1] by simp
      moreover have "length d = length ?pre + length d1"
        using arg_cong [OF d1(2), of length] by simp
      ultimately have "\<exists>k \<le> length d. contents s' = contents s @ take k d \<and> (b \<longrightarrow> k = length d)"
        using k(1,3) by (intro exI [of _ "length ?pre + k"]) auto
      with rest facts(2,3) show ?thesis by auto
    qed
  qed
qed

lemma loop_ok:
  assumes "healthy s" and "loop d s = (b, s')"
  shows "b" and "contents s' = contents s @ d" and "healthy s'" and "frame s' = frame s"
  using loop_effect [OF assms(2)] assms(1) by auto

lemma loop_prefix:
  assumes "loop d s = (b, s')"
  obtains k where "k \<le> length d" "contents s' = contents s @ take k d" "b \<Longrightarrow> k = length d"
  using loop_effect [OF assms] by blast

lemma loop_frame: "loop d s = (b, s') \<Longrightarrow> frame s' = frame s"
  using loop_effect by blast

end

end
