(* ===== verification/Channel.thy ===== *)
theory Channel
  imports Protocol Byte_Sink
begin

text \<open>
  One TCP connection as the server sees it, and the socket functions of
  \<open>src/common/protocol.cpp\<close>: \<open>send_all\<close>, \<open>read_header_line\<close> and \<open>read_exact\<close>.

  What the kernel and the peer do is a script: \<open>send_script\<close> lists how the next \<open>send\<close> calls
  deviate from accepting the whole buffer (an empty script: every call accepts everything), and
  \<open>inbox\<close> lists what the next \<open>recv\<close> calls meet (an empty inbox: the peer has shut down). A
  \<open>Late\<close> event is the moment the deadline of the current read passes, as \<open>arm_remaining\<close> sees it.
\<close>

section \<open>The connection\<close>

datatype recv_event = Data string | Late | Again | RecvErr

record chan =
  out :: "string list"
  send_script :: "io_event list"
  send_calls :: nat
  inbox :: "recv_event list"

text \<open>All bytes the kernel has accepted for the peer, and all bytes the peer has still to deliver.\<close>

definition wire :: "chan \<Rightarrow> string" where
  "wire c = concat (out c)"

fun event_bytes :: "recv_event \<Rightarrow> string" where
  "event_bytes (Data bs) = bs"
| "event_bytes _ = []"

definition incoming :: "chan \<Rightarrow> string" where
  "incoming c = concat (map event_bytes (inbox c))"

section \<open>System calls\<close>

text \<open>
  \<open>send (fd, data, n, MSG_NOSIGNAL)\<close>: accepts between 0 and \<open>n\<close> bytes, is interrupted, or fails.
\<close>

definition sys_send :: "string \<Rightarrow> chan \<Rightarrow> io_result \<times> chan" where
  "sys_send data c =
     (case send_script c of
        [] \<Rightarrow> (Took (length data), c\<lparr>out := out c @ [data]\<rparr>)
      | Accept k # evs \<Rightarrow>
          (Took (min k (length data)),
           c\<lparr>out := out c @ [take k data], send_script := evs\<rparr>)
      | Interrupt # evs \<Rightarrow> (EINTR, c\<lparr>send_script := evs\<rparr>)
      | Fail # evs \<Rightarrow> (IO_error, c\<lparr>send_script := evs\<rparr>))"

datatype recv_result = Received string | Recv_EAGAIN | Recv_error

text \<open>
  \<open>recv (fd, buf, n, 0)\<close> with \<open>0 < n\<close>: at most \<open>n\<close> bytes of what has arrived, none when the peer
  has shut down. \<open>Late\<close> markers concern the deadline only and are passed over.
\<close>

definition sys_recv :: "nat \<Rightarrow> chan \<Rightarrow> recv_result \<times> chan" where
  "sys_recv n c =
     (case dropWhile (\<lambda>e. e = Late) (inbox c) of
        [] \<Rightarrow> (Received [], c\<lparr>inbox := []\<rparr>)
      | Data bs # evs \<Rightarrow>
          (Received (take n bs),
           c\<lparr>inbox := (if length bs \<le> n then evs else Data (drop n bs) # evs)\<rparr>)
      | RecvErr # evs \<Rightarrow> (Recv_error, c\<lparr>inbox := evs\<rparr>)
      | _ # evs \<Rightarrow> (Recv_EAGAIN, c\<lparr>inbox := evs\<rparr>))"

text \<open>
  \<open>arm_remaining\<close>: false once the deadline has passed, otherwise the receive timeout is armed.
\<close>

definition arm_remaining :: "chan \<Rightarrow> bool \<times> chan" where
  "arm_remaining c =
     (case inbox c of
        Late # evs \<Rightarrow> (False, c\<lparr>inbox := evs\<rparr>)
      | _ \<Rightarrow> (True, c))"

section \<open>send_all\<close>

text \<open>\<open>g_send_calls.fetch_add (1)\<close> and the call itself.\<close>

definition counted_send :: "string \<Rightarrow> chan \<Rightarrow> io_result \<times> chan" where
  "counted_send data c = sys_send data (c\<lparr>send_calls := Suc (send_calls c)\<rparr>)"

function send_all :: "string \<Rightarrow> chan \<Rightarrow> bool \<times> chan" where
  "send_all data c =
     (if data = [] then (True, c)
      else case counted_send data c of
             (EINTR, c') \<Rightarrow> send_all data c'
           | (IO_error, c') \<Rightarrow> (False, c')
           | (Took s, c') \<Rightarrow> if s = 0 then (False, c') else send_all (drop s data) c')"
  by pat_completeness auto
termination
  by (relation "measure (\<lambda>(data, c). length (send_script c) + length data)")
    (auto simp: counted_send_def sys_send_def split: list.splits io_event.splits)

declare send_all.simps [simp del]

text \<open>A connection on which no send fails: interrupts and short sends are allowed.\<close>

definition sends_ok :: "chan \<Rightarrow> bool" where
  "sends_ok c = list_all io_event_ok (send_script c)"

interpretation send: byte_sink counted_send send_all wire sends_ok inbox "length \<circ> send_script"
proof (unfold_locales, goal_cases)
  case (1 d s)
  show ?case by (subst send_all.simps) (simp split: prod.split io_result.split)
qed (auto simp: counted_send_def sys_send_def wire_def sends_ok_def min_def Suc_le_eq
    split: list.splits io_event.splits if_splits)

text \<open>The facts about \<open>send_all\<close> that the rest of the development uses.\<close>

lemma send_all_ok:
  assumes "sends_ok c" and "send_all d c = (b, c')"
  shows "b" "wire c' = wire c @ d" "sends_ok c'" "inbox c' = inbox c" "incoming c' = incoming c"
  using send.loop_ok [OF assms] by (simp_all add: incoming_def)

lemmas send_all_prefix = send.loop_prefix
lemmas send_all_inbox = send.loop_frame

lemma send_all_Nil [simp]: "send_all [] c = (True, c)"
  by (simp add: send_all.simps)

text \<open>On a connection with an empty script one call takes the whole buffer.\<close>

lemma send_all_whole:
  "send_script c = [] \<Longrightarrow> d \<noteq> [] \<Longrightarrow>
     send_all d c = (True, c\<lparr>out := out c @ [d], send_calls := Suc (send_calls c)\<rparr>)"
  by (simp add: send_all.simps [of d c] counted_send_def sys_send_def)

section \<open>read_header_line\<close>

record header_read_result =
  hdr_ok :: bool
  hdr_line :: string
  hdr_leftover :: string
  hdr_error :: string

definition hdr_fail :: "string \<Rightarrow> header_read_result" where
  "hdr_fail e = \<lparr>hdr_ok = False, hdr_line = [], hdr_leftover = [], hdr_error = e\<rparr>"

definition until_nl :: "string \<Rightarrow> string" where
  "until_nl s = takeWhile (\<lambda>c. c \<noteq> NL) s"

lemma sys_recv_incoming [io_simps]:
  "sys_recv n c = (r, c') \<Longrightarrow>
     incoming c = (case r of Received bs \<Rightarrow> bs | _ \<Rightarrow> []) @ incoming c'"
proof -
  have "concat (map event_bytes es) = concat (map event_bytes (dropWhile (\<lambda>e. e = Late) es))"
    for es by (induction es) auto
  from this [of "inbox c"] show "sys_recv n c = (r, c') \<Longrightarrow> ?thesis"
    by (cases "dropWhile (\<lambda>e. e = Late) (inbox c)")
      (auto simp: sys_recv_def incoming_def simp del: concat_eq_Nil_conv Nil_eq_concat_conv
        split: recv_event.splits)
qed

lemma sys_recv_frame [io_simps]:
  "sys_recv n c = (r, c') \<Longrightarrow>
     out c' = out c \<and> send_script c' = send_script c \<and> send_calls c' = send_calls c"
  by (auto simp: sys_recv_def split: list.splits recv_event.splits)

lemma sys_recv_length [io_simps]: "sys_recv n c = (Received bs, c') \<Longrightarrow> length bs \<le> n"
  by (auto simp: sys_recv_def split: list.splits recv_event.splits)

lemma arm_remaining_frame [io_simps]:
  "arm_remaining c = (b, c') \<Longrightarrow>
     incoming c' = incoming c \<and> out c' = out c \<and> send_script c' = send_script c \<and>
     send_calls c' = send_calls c"
  by (auto simp: arm_remaining_def incoming_def split: list.splits recv_event.splits)

definition arm_if :: "bool \<Rightarrow> chan \<Rightarrow> bool \<times> chan" where
  "arm_if bounded c = (if bounded then arm_remaining c else (True, c))"

lemma arm_if_frame [io_simps]:
  "arm_if bd c = (b, c') \<Longrightarrow>
     incoming c' = incoming c \<and> out c' = out c \<and> send_script c' = send_script c \<and>
     send_calls c' = send_calls c"
  by (auto simp: arm_if_def dest: arm_remaining_frame split: if_splits)

function header_loop :: "bool \<Rightarrow> string \<Rightarrow> chan \<Rightarrow> header_read_result \<times> chan" where
  "header_loop bounded line c =
     (case arm_if bounded c of
        (False, c1) \<Rightarrow> (hdr_fail ''header read timeout'', c1)
      | (True, c1) \<Rightarrow>
          (case sys_recv 512 c1 of
             (Recv_EAGAIN, c2) \<Rightarrow> (hdr_fail ''header read timeout'', c2)
           | (Recv_error, c2) \<Rightarrow> (hdr_fail ''recv error'', c2)
           | (Received buf, c2) \<Rightarrow>
               if buf = [] then (hdr_fail ''peer closed before header line completed'', c2)
               else if NL \<in> set buf then
                 (\<lparr>hdr_ok = True, hdr_line = line @ until_nl buf,
                    hdr_leftover = drop (length (until_nl buf) + 1) buf, hdr_error = []\<rparr>, c2)
               else if length (line @ buf) > 8192 then (hdr_fail ''header line too long'', c2)
               else header_loop bounded (line @ buf) c2))"
  by pat_completeness auto
termination
  by (relation "measure (\<lambda>(bounded, line, c). length (incoming c))")
    (auto dest!: arm_if_frame [OF sym] sys_recv_incoming [OF sym])

declare header_loop.simps [simp del]

definition read_header_line :: "int \<Rightarrow> chan \<Rightarrow> header_read_result \<times> chan" where
  "read_header_line timeout_ms c = header_loop (0 \<le> timeout_ms) [] c"

section \<open>read_exact\<close>

text \<open>The loop fills \<open>buf\<close> up to \<open>n\<close> bytes; what it has read stays read when it gives up.\<close>

function fill_loop :: "bool \<Rightarrow> nat \<Rightarrow> string \<Rightarrow> chan \<Rightarrow> bool \<times> string \<times> chan" where
  "fill_loop bounded n buf c =
     (if length buf < n then
        (case arm_if bounded c of
           (False, c1) \<Rightarrow> (False, buf, c1)
         | (True, c1) \<Rightarrow>
             (case sys_recv (n - length buf) c1 of
                (Received bs, c2) \<Rightarrow>
                  if bs = [] then (False, buf, c2) else fill_loop bounded n (buf @ bs) c2
              | (_, c2) \<Rightarrow> (False, buf, c2)))
      else (True, buf, c))"
  by pat_completeness auto
termination
  by (relation "measure (\<lambda>(bounded, n, buf, c). n - length buf)")
    (auto simp flip: length_greater_0_conv)

declare fill_loop.simps [simp del]

definition read_exact :: "string \<Rightarrow> nat \<Rightarrow> int \<Rightarrow> chan \<Rightarrow> bool \<times> string \<times> string \<times> chan" where
  "read_exact leftover n total_timeout_ms c =
     (let k = min (length leftover) n in
      case fill_loop (0 \<le> total_timeout_ms) n (take k leftover) c of
        (ok, buf, c') \<Rightarrow> (ok, buf, drop k leftover, c'))"

section \<open>What the reading functions deliver\<close>

lemma until_nl_split:
  assumes "NL \<in> set buf"
  shows "buf = until_nl buf @ NL # drop (length (until_nl buf) + 1) buf"
proof -
  from split_list_first [OF assms] obtain ys zs where b: "buf = ys @ NL # zs" "NL \<notin> set ys"
    by blast
  then have "until_nl buf = ys"
    by (auto simp: until_nl_def list_all_iff intro!: takeWhile_append_stop)
  with b show ?thesis by simp
qed

lemma until_nl_no_nl [simp]: "NL \<notin> set (until_nl s)"
  using set_takeWhileD [of NL "\<lambda>c. c \<noteq> NL" s] by (auto simp: until_nl_def)

text \<open>One turn of the header loop on each outcome of \<open>recv\<close>, for the two proofs below.\<close>

lemma header_loop_turn:
  assumes "arm_if bd c = (True, c1)" and "sys_recv 512 c1 = (Received buf, c2)" and "buf \<noteq> []"
  shows "header_loop bd line c =
     (if NL \<in> set buf then
        (\<lparr>hdr_ok = True, hdr_line = line @ until_nl buf,
           hdr_leftover = drop (length (until_nl buf) + 1) buf, hdr_error = []\<rparr>, c2)
      else if length (line @ buf) > 8192 then (hdr_fail ''header line too long'', c2)
      else header_loop bd (line @ buf) c2)"
  using assms by (simp add: header_loop.simps [of bd line c])

lemma header_loop_stuck:
  assumes "header_loop bd line c = (h, c')" and "hdr_ok h"
  obtains c1 buf c2 where "arm_if bd c = (True, c1)" "sys_recv 512 c1 = (Received buf, c2)" "buf \<noteq> []"
  using assms
  by (subst (asm) header_loop.simps)
    (auto simp: hdr_fail_def split: prod.splits bool.splits recv_result.splits if_splits)

text \<open>
  A header that is read is a prefix of what the peer sent, cut at the first newline; not one byte
  after the newline is lost, it is in the leftover or still to be received. A line is never longer
  than the limit plus one receive buffer.
\<close>

lemma header_loop_sound:
  "header_loop bd line c = (h, c') \<Longrightarrow> hdr_ok h \<Longrightarrow> NL \<notin> set line \<Longrightarrow> length line \<le> 8192 \<Longrightarrow>
     NL \<notin> set (hdr_line h) \<and> length (hdr_line h) \<le> 8192 + 511 \<and>
     line @ incoming c = hdr_line h @ NL # hdr_leftover h @ incoming c' \<and>
     out c' = out c \<and> send_script c' = send_script c \<and> send_calls c' = send_calls c"
proof (induction bd line c arbitrary: h c' rule: header_loop.induct)
  case (1 bd line c)
  from header_loop_stuck [OF "1.prems"(1,2)] obtain c1 buf c2
    where arm: "arm_if bd c = (True, c1)" and rcv: "sys_recv 512 c1 = (Received buf, c2)"
      and ne: "buf \<noteq> []" by blast
  have inc: "incoming c = buf @ incoming c2"
    using sys_recv_incoming [OF rcv] arm_if_frame [OF arm] by simp
  have frame: "out c2 = out c" "send_script c2 = send_script c" "send_calls c2 = send_calls c"
    using sys_recv_frame [OF rcv] arm_if_frame [OF arm] by simp_all
  have len: "length buf \<le> 512" using sys_recv_length [OF rcv] .
  note turn = header_loop_turn [OF arm rcv ne, of line]
  show ?case
  proof (cases "NL \<in> set buf")
    case True
    have "length (until_nl buf) + 1 \<le> length buf"
      using arg_cong [OF until_nl_split [OF True], of length] by simp
    with True turn "1.prems" inc len frame until_nl_split [OF True] show ?thesis by auto
  next
    case False
    with turn "1.prems" have "\<not> length (line @ buf) > 8192"
      by (auto simp: hdr_fail_def)
    moreover from this turn False "1.prems"(1) have "header_loop bd (line @ buf) c2 = (h, c')"
      by simp
    ultimately show ?thesis
      using "1.IH" [OF arm [symmetric] refl rcv [symmetric] refl ne False] "1.prems" False inc frame
      by auto
  qed
qed

text \<open>A connection whose peer keeps delivering: no timeout, no error, no premature shutdown.\<close>

definition recvs_ok :: "chan \<Rightarrow> bool" where
  "recvs_ok c = list_all (\<lambda>e. case e of Data bs \<Rightarrow> bs \<noteq> [] | _ \<Rightarrow> False) (inbox c)"

lemma recvs_ok_arm: "recvs_ok c \<Longrightarrow> arm_if bd c = (True, c)"
  by (auto simp: recvs_ok_def arm_if_def arm_remaining_def split: list.splits recv_event.splits)

lemma recvs_ok_recv:
  assumes "recvs_ok c" and "incoming c \<noteq> []" and "0 < n"
  obtains bs c' where "sys_recv n c = (Received bs, c')" "bs \<noteq> []" "recvs_ok c'"
proof (cases "inbox c")
  case Nil
  with assms show thesis by (simp add: incoming_def)
next
  case (Cons e es)
  with assms(1) obtain bs where "e = Data bs" "bs \<noteq> []"
    by (auto simp: recvs_ok_def split: recv_event.splits)
  with Cons assms(1,3) that show thesis
    by (auto simp: sys_recv_def recvs_ok_def)
qed

lemma header_loop_complete:
  "recvs_ok c \<Longrightarrow> NL \<in> set (incoming c) \<Longrightarrow> length line + length (until_nl (incoming c)) \<le> 8192 \<Longrightarrow>
     \<exists>h c'. header_loop bd line c = (h, c') \<and> hdr_ok h \<and> recvs_ok c' \<and>
       hdr_line h = line @ until_nl (incoming c)"
proof (induction bd line c rule: header_loop.induct)
  case (1 bd line c)
  note arm = recvs_ok_arm [OF "1.prems"(1), of bd]
  from "1.prems" have "incoming c \<noteq> []" by auto
  from recvs_ok_recv [OF "1.prems"(1) this, of 512] obtain buf c2
    where rcv: "sys_recv 512 c = (Received buf, c2)" and ne: "buf \<noteq> []" and ok: "recvs_ok c2"
    by auto
  have inc: "incoming c = buf @ incoming c2" using sys_recv_incoming [OF rcv] by simp
  note turn = header_loop_turn [OF arm rcv ne, of line]
  show ?case
  proof (cases "NL \<in> set buf")
    case True
    then have "until_nl (incoming c) = until_nl buf" by (simp add: inc until_nl_def takeWhile_append1)
    with True turn ok show ?thesis by simp
  next
    case False
    then have u: "until_nl (incoming c) = buf @ until_nl (incoming c2)"
      by (auto simp: inc until_nl_def takeWhile_append)
    with "1.prems" False inc have
      "\<not> length (line @ buf) > 8192" "NL \<in> set (incoming c2)"
      "length (line @ buf) + length (until_nl (incoming c2)) \<le> 8192" by auto
    then show ?thesis
      using "1.IH" [OF arm [symmetric] refl rcv [symmetric] refl ne False _ ok] turn False u by simp
  qed
qed

lemma fill_loop_turn:
  assumes "arm_if bd c = (True, c1)" and "sys_recv (n - length buf) c1 = (Received bs, c2)"
    and "bs \<noteq> []" and "length buf < n"
  shows "fill_loop bd n buf c = fill_loop bd n (buf @ bs) c2"
  using assms by (simp add: fill_loop.simps [of bd n buf c])

lemma fill_loop_sound:
  "fill_loop bd n buf c = (b, buf', c') \<Longrightarrow> length buf \<le> n \<Longrightarrow>
     buf @ incoming c = buf' @ incoming c' \<and> length buf' \<le> n \<and> (b \<longrightarrow> length buf' = n) \<and>
     out c' = out c \<and> send_script c' = send_script c \<and> send_calls c' = send_calls c"
proof (induction bd n buf c arbitrary: b buf' c' rule: fill_loop.induct)
  case (1 bd n buf c)
  show ?case
  proof (cases "length buf < n")
    case False
    with "1.prems" show ?thesis by (simp add: fill_loop.simps [of bd n buf c])
  next
    case less: True
    obtain ab c1 where arm: "arm_if bd c = (ab, c1)" by (cases "arm_if bd c")
    obtain r c2 where rcv: "sys_recv (n - length buf) c1 = (r, c2)"
      by (cases "sys_recv (n - length buf) c1")
    note facts = arm_if_frame [OF arm] sys_recv_frame [OF rcv] sys_recv_incoming [OF rcv]
    show ?thesis
    proof (cases "ab \<and> (\<exists>bs. r = Received bs \<and> bs \<noteq> [])")
      case True
      then obtain bs where r: "ab = True" "r = Received bs" "bs \<noteq> []" by auto
      have len: "length (buf @ bs) \<le> n"
        using sys_recv_length [of "n - length buf" c1 bs c2] rcv r less by simp
      have "fill_loop bd n (buf @ bs) c2 = (b, buf', c')"
        using fill_loop_turn [of bd c c1 n buf bs c2] arm rcv r less "1.prems"(1) by simp
      from "1.IH" [OF less arm [symmetric] r(1) rcv [symmetric] r(2,3) this len] facts r
      show ?thesis by (metis append.assoc recv_result.simps(8))
    next
      case False
      then have "fill_loop bd n buf c = (False, buf, if ab then c2 else c1)"
        using less arm rcv by (subst fill_loop.simps) (simp split: recv_result.split bool.split)
      moreover have "(case r of Received bs \<Rightarrow> bs | _ \<Rightarrow> []) = [] \<or> \<not> ab"
        using False by (cases r) auto
      ultimately show ?thesis
        using "1.prems" facts by auto
    qed
  qed
qed

lemma fill_loop_complete:
  "recvs_ok c \<Longrightarrow> n \<le> length buf + length (incoming c) \<Longrightarrow>
     \<exists>buf' c'. fill_loop bd n buf c = (True, buf', c') \<and> recvs_ok c'"
proof (induction bd n buf c rule: fill_loop.induct)
  case (1 bd n buf c)
  show ?case
  proof (cases "length buf < n")
    case False
    with "1.prems" show ?thesis by (simp add: fill_loop.simps [of bd n buf c])
  next
    case True
    note arm = recvs_ok_arm [OF "1.prems"(1), of bd]
    from True "1.prems" have "incoming c \<noteq> []" by auto
    from recvs_ok_recv [OF "1.prems"(1) this, of "n - length buf"] True obtain bs c2
      where rcv: "sys_recv (n - length buf) c = (Received bs, c2)" and ne: "bs \<noteq> []" and ok: "recvs_ok c2"
      by auto
    have "incoming c = bs @ incoming c2" using sys_recv_incoming [OF rcv] by simp
    with "1.IH" [OF True arm [symmetric] refl rcv [symmetric] refl ne ok] "1.prems"(2)
    show ?thesis by (simp add: fill_loop_turn [OF arm rcv ne True])
  qed
qed

text \<open>
  \<open>read_exact\<close> delivers the next \<open>n\<close> bytes of the stream, over-read bytes first, and leaves the rest
  of the stream in place; on a connection that delivers enough it succeeds.
\<close>

lemma read_exact_sound:
  assumes "read_exact lo n t c = (b, buf, lo', c')"
  shows "buf @ lo' @ incoming c' = lo @ incoming c" and "b \<longrightarrow> length buf = n"
    and "out c' = out c" "send_script c' = send_script c" "send_calls c' = send_calls c"
proof -
  obtain fb fbuf fc where f: "fill_loop (0 \<le> t) n (take (min (length lo) n) lo) c = (fb, fbuf, fc)"
    by (cases "fill_loop (0 \<le> t) n (take (min (length lo) n) lo) c")
  with assms have eq: "fb = b" "fbuf = buf" "fc = c'" "lo' = drop (min (length lo) n) lo"
    by (simp_all add: read_exact_def Let_def)
  note snd = fill_loop_sound [OF f]
  show "b \<longrightarrow> length buf = n" "out c' = out c" "send_script c' = send_script c" "send_calls c' = send_calls c"
    using snd eq by simp_all
  show "buf @ lo' @ incoming c' = lo @ incoming c"
  proof (cases "length lo < n")
    case True
    with snd eq show ?thesis by simp
  next
    case False
    then have "buf = take n lo" "c' = c"
      using f eq by (simp_all add: fill_loop.simps [of _ n])
    with False eq show ?thesis by (simp flip: append_assoc)
  qed
qed

lemma read_exact_take:
  "read_exact lo n t c = (True, buf, lo', c') \<Longrightarrow> buf = take n (lo @ incoming c)"
  using read_exact_sound [of lo n t c True buf lo' c'] by (metis append_eq_conv_conj)

lemma read_exact_complete:
  assumes "recvs_ok c" and "n \<le> length lo + length (incoming c)"
  obtains buf lo' c' where "read_exact lo n t c = (True, buf, lo', c')" "recvs_ok c'"
proof -
  have "n \<le> length (take (min (length lo) n) lo) + length (incoming c)"
    using assms(2) by simp
  from fill_loop_complete [OF assms(1) this, of "0 \<le> t"] show thesis
    using that by (auto simp: read_exact_def Let_def)
qed

text \<open>The same for \<open>read_header_line\<close>.\<close>

lemma read_header_line_sound:
  assumes "read_header_line t c = (h, c')" and "hdr_ok h"
  shows "incoming c = hdr_line h @ NL # hdr_leftover h @ incoming c'" and "NL \<notin> set (hdr_line h)"
    and "out c' = out c" "send_script c' = send_script c" "wire c' = wire c" "sends_ok c' = sends_ok c"
  using header_loop_sound [of "0 \<le> t" "[]" c h c'] assms by (auto simp: read_header_line_def wire_def sends_ok_def)

lemma read_header_line_complete:
  assumes "recvs_ok c" and "incoming c = l @ NL # rest" and "NL \<notin> set l" and "length l \<le> 8192"
  obtains h c' where "read_header_line t c = (h, c')" "hdr_ok h" "hdr_line h = l" "recvs_ok c'"
    "hdr_leftover h @ incoming c' = rest"
proof -
  have u: "until_nl (incoming c) = l"
    unfolding until_nl_def assms(2) using assms(3) by (intro takeWhile_append_stop) (auto simp: list_all_iff)
  obtain h c' where h: "header_loop (0 \<le> t) [] c = (h, c')" "hdr_ok h" "recvs_ok c'" "hdr_line h = l"
    using header_loop_complete [OF assms(1), of "[]" "0 \<le> t"] assms(2,4) u by auto
  moreover have "hdr_leftover h @ incoming c' = rest"
    using read_header_line_sound(1) [of t c h c'] h assms(2) by (simp add: read_header_line_def)
  ultimately show thesis by (intro that) (simp_all add: read_header_line_def)
qed

text \<open>The first line of a stream is determined by any prefix that reaches beyond it.\<close>

lemma first_line_of_prefix:
  "prefix (l @ NL # rest) (u @ NL # v) \<Longrightarrow> NL \<notin> set l \<Longrightarrow> NL \<notin> set u \<Longrightarrow> l = u \<and> prefix rest v"
proof (induction l arbitrary: u)
  case Nil
  then show ?case by (cases u) auto
next
  case (Cons x l)
  then show ?case by (cases u) auto
qed

end
