(* ===== verification/Filesystem.thy ===== *)
theory Filesystem
  imports Byte_Sink
begin

text \<open>
  The part of the POSIX file system the server uses: \<open>open\<close>, \<open>fstat\<close>, \<open>pread\<close>, \<open>write\<close>, \<open>close\<close>,
  \<open>rename\<close> and \<open>unlink\<close>, and \<open>write_all\<close> of \<open>src/server/slice.cpp\<close>.

  A path names a directory entry, an entry names an inode, and an open descriptor refers to an
  inode, not to the path it was opened by; a descriptor opened for writing appends, as every
  inode has one writer. Which calls fail or come up short is decided by the environment: an
  oracle for \<open>pread\<close> and scripts for the rest (an empty script: no failure). Paths are compared
  as strings.
\<close>

section \<open>State\<close>

datatype dirent = Reg nat | Other

record fsys =
  dir :: "string \<Rightarrow> dirent option"
  inode :: "nat \<Rightarrow> string"
  fds :: "int \<Rightarrow> nat option"
  next_ino :: nat
  next_fd :: int
  read_oracle :: "int \<Rightarrow> nat \<Rightarrow> nat \<Rightarrow> nat option"
  open_script :: "bool list"
  write_script :: "io_event list"
  rename_script :: "bool list"

definition empty_fs :: fsys where
  "empty_fs =
     \<lparr>dir = (\<lambda>_. None), inode = (\<lambda>_. []), fds = (\<lambda>_. None), next_ino = 0, next_fd = 3,
      read_oracle = (\<lambda>_ _ n. Some n), open_script = [], write_script = [], rename_script = []\<rparr>"

section \<open>System calls\<close>

text \<open>
  \<open>pread\<close> returns at least one byte, at most \<open>n\<close>, while the offset is inside the file, and
  nothing at its end; \<open>None\<close> is the error return.
\<close>

definition sys_pread :: "fsys \<Rightarrow> int \<Rightarrow> nat \<Rightarrow> nat \<Rightarrow> string option" where
  "sys_pread fs fd off n =
     (case fds fs fd of
        None \<Rightarrow> None
      | Some i \<Rightarrow>
          (case read_oracle fs fd off n of
             None \<Rightarrow> None
           | Some k \<Rightarrow> Some (take (min n (max 1 k)) (drop off (inode fs i)))))"

text \<open>
  \<open>open (path, O_RDONLY)\<close>; -1 is the error return. A directory can be opened too; its descriptor refers
  to no inode, and \<open>fstat\<close> with \<open>S_ISREG\<close> tells it from a regular file (\<open>None\<close>), whose size it reports.
\<close>

definition sys_open_read :: "string \<Rightarrow> fsys \<Rightarrow> int \<times> fsys" where
  "sys_open_read p fs =
     (let ok = (open_script fs = [] \<or> hd (open_script fs)); fs = fs\<lparr>open_script := tl (open_script fs)\<rparr> in
      if \<not> ok then (-1, fs)
      else case dir fs p of
             None \<Rightarrow> (-1, fs)
           | Some (Reg i) \<Rightarrow> (next_fd fs, fs\<lparr>fds := (fds fs)(next_fd fs := Some i), next_fd := next_fd fs + 1\<rparr>)
           | Some Other \<Rightarrow> (next_fd fs, fs\<lparr>next_fd := next_fd fs + 1\<rparr>))"

definition fstat_reg :: "int \<Rightarrow> fsys \<Rightarrow> nat option" where
  "fstat_reg fd fs = map_option (\<lambda>i. length (inode fs i)) (fds fs fd)"

text \<open>\<open>open (path, O_WRONLY | O_CREAT | O_TRUNC, 0644)\<close>.\<close>

definition sys_open_trunc :: "string \<Rightarrow> fsys \<Rightarrow> int \<times> fsys" where
  "sys_open_trunc p fs =
     (let ok = (open_script fs = [] \<or> hd (open_script fs)); fs = fs\<lparr>open_script := tl (open_script fs)\<rparr> in
      if \<not> ok then (-1, fs)
      else case dir fs p of
             Some Other \<Rightarrow> (-1, fs)
           | Some (Reg i) \<Rightarrow>
               (next_fd fs, fs\<lparr>inode := (inode fs)(i := []), fds := (fds fs)(next_fd fs := Some i),
                  next_fd := next_fd fs + 1\<rparr>)
           | None \<Rightarrow>
               (next_fd fs, fs\<lparr>dir := (dir fs)(p := Some (Reg (next_ino fs))),
                  inode := (inode fs)(next_ino fs := []), next_ino := Suc (next_ino fs),
                  fds := (fds fs)(next_fd fs := Some (next_ino fs)), next_fd := next_fd fs + 1\<rparr>))"

definition append_inode :: "int \<Rightarrow> string \<Rightarrow> fsys \<Rightarrow> fsys" where
  "append_inode fd data fs =
     (case fds fs fd of None \<Rightarrow> fs | Some i \<Rightarrow> fs\<lparr>inode := (inode fs)(i := inode fs i @ data)\<rparr>)"

definition sys_write :: "int \<Rightarrow> string \<Rightarrow> fsys \<Rightarrow> io_result \<times> fsys" where
  "sys_write fd data fs =
     (if fds fs fd = None then (IO_error, fs)
      else case write_script fs of
             [] \<Rightarrow> (Took (length data), append_inode fd data fs)
           | Accept k # evs \<Rightarrow>
               (Took (min k (length data)), (append_inode fd (take k data) fs)\<lparr>write_script := evs\<rparr>)
           | Interrupt # evs \<Rightarrow> (EINTR, fs\<lparr>write_script := evs\<rparr>)
           | Fail # evs \<Rightarrow> (IO_error, fs\<lparr>write_script := evs\<rparr>))"

definition sys_close :: "int \<Rightarrow> fsys \<Rightarrow> fsys" where
  "sys_close fd fs = fs\<lparr>fds := (fds fs)(fd := None)\<rparr>"

text \<open>\<open>rename\<close> replaces the destination entry in one step, or fails and changes nothing.\<close>

definition sys_rename :: "string \<Rightarrow> string \<Rightarrow> fsys \<Rightarrow> bool \<times> fsys" where
  "sys_rename a b fs =
     (let ok = (rename_script fs = [] \<or> hd (rename_script fs));
          fs = fs\<lparr>rename_script := tl (rename_script fs)\<rparr> in
      if \<not> ok then (False, fs)
      else case (dir fs a, dir fs b) of
             (Some (Reg i), Some Other) \<Rightarrow> (False, fs)
           | (Some (Reg i), _) \<Rightarrow> (True, fs\<lparr>dir := (dir fs)(a := None, b := Some (Reg i))\<rparr>)
           | _ \<Rightarrow> (False, fs))"

definition sys_unlink :: "string \<Rightarrow> fsys \<Rightarrow> fsys" where
  "sys_unlink p fs = (if dir fs p = Some Other then fs else fs\<lparr>dir := (dir fs)(p := None)\<rparr>)"

text \<open>What a reader that opens a path now would see.\<close>

definition visible :: "fsys \<Rightarrow> string \<Rightarrow> string option" where
  "visible fs p = (case dir fs p of Some (Reg i) \<Rightarrow> Some (inode fs i) | _ \<Rightarrow> None)"

section \<open>write_all\<close>

function write_all :: "int \<Rightarrow> string \<Rightarrow> fsys \<Rightarrow> bool \<times> fsys" where
  "write_all fd data fs =
     (if data = [] then (True, fs)
      else case sys_write fd data fs of
             (EINTR, fs') \<Rightarrow> write_all fd data fs'
           | (IO_error, fs') \<Rightarrow> (False, fs')
           | (Took w, fs') \<Rightarrow> if w = 0 then (False, fs') else write_all fd (drop w data) fs')"
  by pat_completeness auto
termination
  by (relation "measure (\<lambda>(fd, data, fs). length (write_script fs) + length data)")
    (auto simp: sys_write_def append_inode_def split: list.splits io_event.splits if_splits option.splits)

declare write_all.simps [simp del]

text \<open>The inode a descriptor refers to, and everything a write through it leaves alone.\<close>

definition fd_contents :: "int \<Rightarrow> fsys \<Rightarrow> string" where
  "fd_contents fd fs = (case fds fs fd of None \<Rightarrow> [] | Some i \<Rightarrow> inode fs i)"

definition but_contents :: "int \<Rightarrow> fsys \<Rightarrow> fsys" where
  "but_contents fd fs =
     fs\<lparr>inode := (case fds fs fd of None \<Rightarrow> inode fs | Some i \<Rightarrow> (inode fs)(i := [])), write_script := []\<rparr>"

definition writes_ok :: "int \<Rightarrow> fsys \<Rightarrow> bool" where
  "writes_ok fd fs \<longleftrightarrow> fds fs fd \<noteq> None \<and> list_all io_event_ok (write_script fs)"

interpretation fwrite: byte_sink "sys_write fd" "write_all fd" "fd_contents fd" "writes_ok fd"
  "but_contents fd" "length \<circ> write_script" for fd
proof (unfold_locales, goal_cases)
  case (1 d s)
  show ?case by (subst write_all.simps) (simp split: prod.split io_result.split)
qed (auto simp: sys_write_def append_inode_def fd_contents_def but_contents_def writes_ok_def
    Suc_le_eq min_def split: list.splits io_event.splits if_splits option.splits)

text \<open>The frame of a write, field by field.\<close>

lemma but_contents_eq:
  assumes "but_contents fd fs' = but_contents fd fs"
  shows "dir fs' = dir fs" "fds fs' = fds fs" "next_ino fs' = next_ino fs" "next_fd fs' = next_fd fs"
    "read_oracle fs' = read_oracle fs" "open_script fs' = open_script fs"
    "rename_script fs' = rename_script fs"
    "fds fs fd \<noteq> Some i \<Longrightarrow> inode fs' i = inode fs i"
proof -
  have e: "f (but_contents fd fs') = f (but_contents fd fs)" for f :: "fsys \<Rightarrow> 'z"
    by (simp add: assms)
  show "dir fs' = dir fs" using e [of dir] by (simp add: but_contents_def)
  show fds: "fds fs' = fds fs" using e [of fds] by (simp add: but_contents_def)
  show "next_ino fs' = next_ino fs" using e [of next_ino] by (simp add: but_contents_def)
  show "next_fd fs' = next_fd fs" using e [of next_fd] by (simp add: but_contents_def)
  show "read_oracle fs' = read_oracle fs" using e [of read_oracle] by (simp add: but_contents_def)
  show "open_script fs' = open_script fs" using e [of open_script] by (simp add: but_contents_def)
  show "rename_script fs' = rename_script fs" using e [of rename_script] by (simp add: but_contents_def)
  show "inode fs' i = inode fs i" if "fds fs fd \<noteq> Some i"
    using e [of "\<lambda>fs. inode fs i"] that fds by (auto simp: but_contents_def split: option.splits)
qed

end
