(* ===== verification/Request.thy ===== *)
theory Request
  imports Prelude
begin

text \<open>
  \<open>struct Request\<close> of \<open>src/common/request.h\<close> with its default member initialisers. A request is
  owned by exactly one queue or worker at a time, so the pointer of the code is the value here and
  the identity of a request is its \<open>rid\<close>. \<open>uint64_t\<close> fields are naturals (the places where they
  can wrap are written out), \<open>int rounds\<close> is a natural because it only counts up from 0.
\<close>

datatype req_op = OpGET | OpPUT

record request =
  rid :: nat
  rop :: req_op
  filename :: string
  bytes :: nat
  arrival_ns :: nat
  start_ns :: nat
  finish_ns :: nat
  rounds :: nat
  forfeited_bytes :: nat
  deficit :: nat
  byte_offset :: nat
  leftover :: string
  client_fd :: int
  path :: string
  tmp_path :: string
  file_fd :: int
  started :: bool

definition new_request :: request where
  "new_request =
     \<lparr>rid = 0, rop = OpGET, filename = [], bytes = 0, arrival_ns = 0, start_ns = 0, finish_ns = 0,
      rounds = 0, forfeited_bytes = 0, deficit = 0, byte_offset = 0, leftover = [],
      client_fd = -1, path = [], tmp_path = [], file_fd = -1, started = False\<rparr>"

fun op_to_string :: "req_op \<Rightarrow> string" where
  "op_to_string OpGET = ''GET''"
| "op_to_string OpPUT = ''PUT''"

end
