(* ===== verification/Scheduler.thy ===== *)
theory Scheduler
  imports Request
begin

text \<open>
  The request queue (\<open>src/server/queue.h\<close>) and the four schedulers
  (\<open>src/server/scheduler_*.cpp\<close>, \<open>scheduler_factory.cpp\<close>, the \<open>Policy\<close> of \<open>scheduler.h\<close>).

  Every queue operation runs under the queue's mutex, so it is one step on the queue's state.
  \<open>pop_pick\<close> waits on a condition variable: a call that would wait is the result \<open>Wait\<close>, and the
  caller is still inside \<open>next\<close>.

  The locale \<open>picker\<close> is what the queue asks of the function a scheduler passes it (a valid index);
  its lemmas are what every scheduler shares. \<open>fifo_picker\<close> and \<open>min_picker\<close> extend it with the
  service order, and the pickers of the code interpret them.
\<close>

section \<open>RequestQueue\<close>

record request_queue =
  items :: "request list"
  shutting_down :: bool

definition empty_queue :: request_queue where
  "empty_queue = \<lparr>items = [], shutting_down = False\<rparr>"

definition push :: "request \<Rightarrow> request_queue \<Rightarrow> request_queue" where
  "push req q = q\<lparr>items := items q @ [req]\<rparr>"

datatype popped = Wait | Null | Popped request request_queue

definition pop_pick ::
  "(request list \<Rightarrow> nat) \<Rightarrow> request_queue \<Rightarrow> popped" where
  "pop_pick pick q =
     (if \<not> (items q \<noteq> [] \<or> shutting_down q) then Wait
      else if items q = [] then Null
      else let idx = pick (items q); req = items q ! idx
           in Popped req (q\<lparr>items := take idx (items q) @ drop (Suc idx) (items q)\<rparr>))"

definition queue_size :: "request_queue \<Rightarrow> nat" where
  "queue_size q = length (items q)"

definition queue_shutdown :: "request_queue \<Rightarrow> request_queue" where
  "queue_shutdown q = q\<lparr>shutting_down := True\<rparr>"

section \<open>Policies\<close>

datatype policy = FCFS | SJF | RR | DRR

definition parse_policy :: "string \<Rightarrow> policy" where
  "parse_policy name =
     (if name = ''sjf'' then SJF
      else if name = ''rr'' then RR
      else if name = ''drr'' then DRR
      else FCFS)"

text \<open>The lambda \<open>size_t(0)\<close> of the fcfs, rr and drr schedulers.\<close>

definition pick_head :: "request list \<Rightarrow> nat" where
  "pick_head rs = 0"

text \<open>The loop of the sjf scheduler: \<open>for (i = 1; i < items.size(); ++i)\<close>.\<close>

function sjf_loop :: "request list \<Rightarrow> nat \<Rightarrow> nat \<Rightarrow> nat" where
  "sjf_loop rs i best =
     (if i < length rs then
        sjf_loop rs (Suc i) (if bytes (rs ! i) < bytes (rs ! best) then i else best)
      else best)"
  by pat_completeness auto
termination
  by (relation "measure (\<lambda>(rs, i, best). length rs - i)") auto

declare sjf_loop.simps [simp del]

definition pick_shortest :: "request list \<Rightarrow> nat" where
  "pick_shortest rs = sjf_loop rs 1 0"

text \<open>\<open>make_scheduler\<close> chooses a class; the classes differ in the picker of \<open>next\<close> only.\<close>

definition scheduler_pick :: "policy \<Rightarrow> request list \<Rightarrow> nat" where
  "scheduler_pick p = (case p of SJF \<Rightarrow> pick_shortest | _ \<Rightarrow> pick_head)"

definition make_scheduler :: "string \<Rightarrow> policy" where
  "make_scheduler name =
     (if name = ''sjf'' then SJF
      else if name = ''rr'' then RR
      else if name = ''drr'' then DRR
      else FCFS)"

section \<open>The IScheduler operations\<close>

definition enqueue :: "request \<Rightarrow> request_queue \<Rightarrow> request_queue" where
  "enqueue req q = push req q"

definition requeue :: "request \<Rightarrow> request_queue \<Rightarrow> request_queue" where
  "requeue req q = push req q"

text \<open>\<open>next\<close> stamps \<open>start_ns\<close> on the first pick-up only; \<open>now\<close> is what the clock reads then.\<close>

definition stamp_start :: "nat \<Rightarrow> request \<Rightarrow> request" where
  "stamp_start now req = (if start_ns req = 0 then req\<lparr>start_ns := now\<rparr> else req)"

definition sched_next :: "policy \<Rightarrow> nat \<Rightarrow> request_queue \<Rightarrow> popped" where
  "sched_next p now q =
     (case pop_pick (scheduler_pick p) q of
        Popped req q' \<Rightarrow> Popped (stamp_start now req) q'
      | Null \<Rightarrow> Null
      | Wait \<Rightarrow> Wait)"

definition queue_depth :: "request_queue \<Rightarrow> nat" where
  "queue_depth q = queue_size q"

section \<open>Runs of a scheduler\<close>

text \<open>
  What admission threads and workers do to the queue, in the order the mutex serialises it:
  a request arrives (\<open>enqueue\<close>, or \<open>requeue\<close> of a preempted one) or a worker takes one at a clock
  reading. The run returns the requests taken, in order, and the queue it leaves.
\<close>

datatype sched_event = Arrive request | Take nat

fun sched_run :: "policy \<Rightarrow> sched_event list \<Rightarrow> request_queue \<Rightarrow> request list \<times> request_queue" where
  "sched_run p [] q = ([], q)"
| "sched_run p (Arrive r # es) q = sched_run p es (push r q)"
| "sched_run p (Take now # es) q =
     (case sched_next p now q of
        Popped r q' \<Rightarrow> (case sched_run p es q' of (served, q'') \<Rightarrow> (r # served, q''))
      | _ \<Rightarrow> sched_run p es q)"

fun arrivals :: "sched_event list \<Rightarrow> request list" where
  "arrivals [] = []"
| "arrivals (Arrive r # es) = r # arrivals es"
| "arrivals (Take _ # es) = arrivals es"

section \<open>What the queue asks of a picker\<close>

locale picker =
  fixes pick :: "request list \<Rightarrow> nat"
  assumes pick_in: "rs \<noteq> [] \<Longrightarrow> pick rs < length rs"
begin

lemma pop_pick_split:
  assumes "items q \<noteq> []"
  obtains ys r zs where "items q = ys @ r # zs" "length ys = pick (items q)"
    "pop_pick pick q = Popped r (q\<lparr>items := ys @ zs\<rparr>)"
proof -
  let ?k = "pick (items q)"
  have k: "?k < length (items q)" using assms by (rule pick_in)
  show thesis
  proof (rule that)
    show "items q = take ?k (items q) @ items q ! ?k # drop (Suc ?k) (items q)"
      using k by (rule id_take_nth_drop)
    show "length (take ?k (items q)) = ?k" using k by simp
    show "pop_pick pick q =
        Popped (items q ! ?k) (q\<lparr>items := take ?k (items q) @ drop (Suc ?k) (items q)\<rparr>)"
      using assms by (simp add: pop_pick_def Let_def)
  qed
qed

text \<open>Exactly one element leaves the queue, and nothing else changes.\<close>

lemma pop_pick_conserves:
  "pop_pick pick q = Popped r q' \<Longrightarrow>
     mset (items q) = add_mset r (mset (items q')) \<and> shutting_down q' = shutting_down q"
  by (cases "items q = []") (auto simp: pop_pick_def elim!: pop_pick_split split: if_splits)

lemma pop_pick_Popped_iff: "(\<exists>r q'. pop_pick pick q = Popped r q') \<longleftrightarrow> items q \<noteq> []"
  by (auto simp: pop_pick_def Let_def)

end

text \<open>A picker of the head serves first come, first served.\<close>

locale fifo_picker = picker +
  assumes pick_zero: "pick rs = 0"
begin

lemma pop_pick_head: "items q = r # rs \<Longrightarrow> pop_pick pick q = Popped r (q\<lparr>items := rs\<rparr>)"
  by (simp add: pop_pick_def pick_zero)

end

text \<open>A picker of the least key, the first one in the queue among equals.\<close>

locale min_picker = picker +
  fixes key :: "request \<Rightarrow> nat"
  assumes pick_min: "i < length rs \<Longrightarrow> key (rs ! pick rs) \<le> key (rs ! i)"
    and pick_first: "i < pick rs \<Longrightarrow> i < length rs \<Longrightarrow> key (rs ! pick rs) < key (rs ! i)"
begin

lemma pop_pick_least:
  assumes "items q \<noteq> []"
  obtains ys r zs where "items q = ys @ r # zs" "pop_pick pick q = Popped r (q\<lparr>items := ys @ zs\<rparr>)"
    "\<forall>y \<in> set ys. key r < key y" "\<forall>z \<in> set zs. key r \<le> key z"
proof -
  from pop_pick_split [OF assms] obtain ys r zs
    where q: "items q = ys @ r # zs" and k: "length ys = pick (items q)"
      and pop: "pop_pick pick q = Popped r (q\<lparr>items := ys @ zs\<rparr>)" .
  have "(ys @ r # zs) ! length ys = r" by simp
  then have r: "items q ! pick (items q) = r" by (simp only: q k)
  have "key r < key y" if y: "y \<in> set ys" for y
  proof -
    from y obtain i where "i < length ys" "ys ! i = y" by (auto simp: in_set_conv_nth)
    then show ?thesis
      using pick_first [of i "items q"] r k q by (simp add: nth_append)
  qed
  moreover have "key r \<le> key z" if z: "z \<in> set zs" for z
  proof -
    from z have "z \<in> set (items q)" by (simp add: q)
    then obtain i where "i < length (items q)" "items q ! i = z" by (auto simp: in_set_conv_nth)
    then show ?thesis using pick_min [of i "items q"] r by simp
  qed
  ultimately show thesis using that q pop by blast
qed

end

section \<open>The pickers of the code satisfy the interfaces\<close>

lemma sjf_loop_spec:
  "best < i \<Longrightarrow> i \<le> length rs \<Longrightarrow>
     (\<forall>j < i. bytes (rs ! best) \<le> bytes (rs ! j)) \<Longrightarrow> (\<forall>j < best. bytes (rs ! best) < bytes (rs ! j)) \<Longrightarrow>
     sjf_loop rs i best < length rs \<and>
     (\<forall>j < length rs. bytes (rs ! sjf_loop rs i best) \<le> bytes (rs ! j)) \<and>
     (\<forall>j < sjf_loop rs i best. bytes (rs ! sjf_loop rs i best) < bytes (rs ! j))"
proof (induction rs i best rule: sjf_loop.induct)
  case (1 rs i best)
  show ?case
  proof (cases "i < length rs")
    case True
    let ?b = "if bytes (rs ! i) < bytes (rs ! best) then i else best"
    have "?b < Suc i" "Suc i \<le> length rs" using True "1.prems" by auto
    moreover have "\<forall>j < Suc i. bytes (rs ! ?b) \<le> bytes (rs ! j)"
      using "1.prems" by (auto simp: less_Suc_eq intro: less_imp_le order.strict_trans2)
    moreover have "\<forall>j < ?b. bytes (rs ! ?b) < bytes (rs ! j)"
      using "1.prems" by (auto intro: order.strict_trans2)
    ultimately show ?thesis
      using "1.IH" [OF True] True by (simp add: sjf_loop.simps [of rs i best])
  next
    case False
    then have "sjf_loop rs i best = best" by (simp add: sjf_loop.simps [of rs i best])
    with False "1.prems" show ?thesis by simp
  qed
qed

lemma pick_shortest_spec:
  assumes "rs \<noteq> []"
  shows "pick_shortest rs < length rs"
    and "j < length rs \<Longrightarrow> bytes (rs ! pick_shortest rs) \<le> bytes (rs ! j)"
    and "j < pick_shortest rs \<Longrightarrow> bytes (rs ! pick_shortest rs) < bytes (rs ! j)"
  using assms sjf_loop_spec [of 0 1 rs] by (auto simp: pick_shortest_def Suc_le_eq)

interpretation head: fifo_picker pick_head
  by unfold_locales (simp_all add: pick_head_def)

interpretation shortest: min_picker pick_shortest bytes
  by unfold_locales (auto intro: pick_shortest_spec simp flip: length_greater_0_conv)

interpretation policy: picker "scheduler_pick p" for p
  by unfold_locales
    (auto simp: scheduler_pick_def pick_head_def intro: pick_shortest_spec split: policy.split)

section \<open>Consequences for the schedulers\<close>

lemma stamp_start_simps [simp]:
  "rid (stamp_start now r) = rid r" "bytes (stamp_start now r) = bytes r"
  by (simp_all add: stamp_start_def)

lemma sched_next_conserves:
  "sched_next p now q = Popped r q' \<Longrightarrow>
     \<exists>r0. r = stamp_start now r0 \<and> mset (items q) = add_mset r0 (mset (items q')) \<and>
       shutting_down q' = shutting_down q"
  by (auto simp: sched_next_def dest: policy.pop_pick_conserves split: popped.splits)

lemma sched_next_Popped_iff: "(\<exists>r q'. sched_next p now q = Popped r q') \<longleftrightarrow> items q \<noteq> []"
  using policy.pop_pick_Popped_iff [of p q] by (auto simp: sched_next_def split: popped.split)

lemma sched_next_empty:
  "items q = [] \<Longrightarrow> sched_next p now q = (if shutting_down q then Null else Wait)"
  by (simp add: sched_next_def pop_pick_def)

lemma sched_next_head:
  "p \<noteq> SJF \<Longrightarrow> items q = r # rs \<Longrightarrow> sched_next p now q = Popped (stamp_start now r) (q\<lparr>items := rs\<rparr>)"
  using head.pop_pick_head [of q r rs]
  by (simp add: sched_next_def scheduler_pick_def split: policy.split)

lemma sched_next_shortest:
  assumes "items q \<noteq> []"
  obtains ys r zs where "items q = ys @ r # zs"
    "sched_next SJF now q = Popped (stamp_start now r) (q\<lparr>items := ys @ zs\<rparr>)"
    "\<forall>y \<in> set ys. bytes r < bytes y" "\<forall>z \<in> set zs. bytes r \<le> bytes z"
  by (rule shortest.pop_pick_least [OF assms]) (simp add: that sched_next_def scheduler_pick_def)

section \<open>Properties\<close>

text \<open>
  C15. No request is lost or duplicated: in every run of every policy the requests served together
  with those left in the queue are exactly the requests that were queued or arrived.
\<close>

theorem sched_run_conserves:
  "sched_run p es q = (served, q') \<Longrightarrow>
     mset (map rid served) + mset (map rid (items q')) =
     mset (map rid (items q)) + mset (map rid (arrivals es))"
proof (induction p es q arbitrary: served q' rule: sched_run.induct)
  case (3 p now es q)
  show ?case
  proof (cases "sched_next p now q")
    case (Popped r q1)
    obtain s1 q2 where run: "sched_run p es q1 = (s1, q2)" by (cases "sched_run p es q1")
    with Popped "3.prems" have "served = r # s1" "q' = q2" by simp_all
    moreover from sched_next_conserves [OF Popped]
    have "mset (map rid (items q)) = add_mset (rid r) (mset (map rid (items q1)))" by auto
    ultimately show ?thesis using "3.IH"(3) [OF Popped run] by simp
  qed (use 3 in auto)
qed (auto simp: push_def)

theorem sched_run_conserves_witness:
  "mset (map rid (fst (sched_run SJF [Arrive (new_request\<lparr>rid := 3\<rparr>), Take 5] empty_queue)) @
     map rid (items (snd (sched_run SJF [Arrive (new_request\<lparr>rid := 3\<rparr>), Take 5] empty_queue)))) = {#3#}"
  (is "mset (map rid (fst ?run) @ map rid (items (snd ?run))) = _")
proof -
  obtain s q where run: "?run = (s, q)" by (cases ?run)
  from sched_run_conserves [OF run] show ?thesis
    unfolding run by (simp add: empty_queue_def new_request_def)
qed

text \<open>
  C16. First come, first served: under fcfs, rr and drr the requests served, followed by the
  queue that is left, are the requests in the order they were queued or arrived. A preempted
  request that is requeued counts as a new arrival, so it goes behind everyone already waiting.
\<close>

theorem fifo_run_order:
  "p \<noteq> SJF \<Longrightarrow> sched_run p es q = (served, q') \<Longrightarrow>
     map rid served @ map rid (items q') = map rid (items q) @ map rid (arrivals es)"
proof (induction p es q arbitrary: served q' rule: sched_run.induct)
  case (3 p now es q)
  show ?case
  proof (cases "items q")
    case Nil
    with "3.prems" show ?thesis
      using "3.IH"(1,2) by (auto simp: sched_next_empty split: if_splits)
  next
    case (Cons r rs)
    let ?q1 = "q\<lparr>items := rs\<rparr>"
    note nxt = sched_next_head [OF "3.prems"(1) Cons, of now]
    obtain s1 q2 where run: "sched_run p es ?q1 = (s1, q2)" by (cases "sched_run p es ?q1")
    with nxt "3.prems" have "served = stamp_start now r # s1" "q' = q2" by simp_all
    then show ?thesis using "3.IH"(3) [OF nxt "3.prems"(1) run] Cons by simp
  qed
qed (auto simp: push_def)

theorem fifo_run_order_witness:
  "RR \<noteq> SJF \<and>
   (let a = new_request\<lparr>rid := 1\<rparr>; b = new_request\<lparr>rid := 2\<rparr>;
        es = [Take 5, Arrive a, Take 6, Take 7];
        (served, q') = sched_run RR es (empty_queue\<lparr>items := [a, b]\<rparr>)
    in map rid served = [1, 2, 1] \<and> map rid (items q') = [])"
proof -
  let ?a = "new_request\<lparr>rid := 1\<rparr>" and ?b = "new_request\<lparr>rid := 2\<rparr>"
  let ?q = "empty_queue\<lparr>items := [?a, ?b]\<rparr>" and ?es = "[Take 5, Arrive ?a, Take 6, Take 7]"
  obtain served q' where run: "sched_run RR ?es ?q = (served, q')" by (cases "sched_run RR ?es ?q")
  have "map rid (items q') = []"
    using run by (auto simp: empty_queue_def push_def sched_next_def scheduler_pick_def
        pick_head_def pop_pick_def new_request_def)
  with fifo_run_order [OF _ run] run show ?thesis
    by (simp add: new_request_def empty_queue_def)
qed

text \<open>
  C17. The sjf scheduler takes the request with the fewest declared bytes, and among requests of
  that size the one that has been in the queue longest; the others keep their order.
\<close>

theorem sjf_takes_shortest_first:
  assumes "items q \<noteq> []"
  shows "\<exists>ys r zs. items q = ys @ r # zs \<and>
     sched_next SJF now q = Popped (stamp_start now r) (q\<lparr>items := ys @ zs\<rparr>) \<and>
     (\<forall>y \<in> set ys. bytes r < bytes y) \<and> (\<forall>z \<in> set zs. bytes r \<le> bytes z)"
  by (rule sched_next_shortest [OF assms]) blast

theorem sjf_takes_shortest_first_witness:
  "sched_next SJF 9 (empty_queue\<lparr>items := [new_request\<lparr>rid := 1, bytes := 300\<rparr>,
       new_request\<lparr>rid := 2, bytes := 100\<rparr>, new_request\<lparr>rid := 4, bytes := 100\<rparr>]\<rparr>) =
     Popped (new_request\<lparr>rid := 2, bytes := 100, start_ns := 9\<rparr>)
       (empty_queue\<lparr>items := [new_request\<lparr>rid := 1, bytes := 300\<rparr>,
          new_request\<lparr>rid := 4, bytes := 100\<rparr>]\<rparr>)"
  using sjf_takes_shortest_first [of "empty_queue\<lparr>items := [new_request\<lparr>rid := 1, bytes := 300\<rparr>,
       new_request\<lparr>rid := 2, bytes := 100\<rparr>, new_request\<lparr>rid := 4, bytes := 100\<rparr>]\<rparr>" 9]
  by (auto simp: Cons_eq_append_conv empty_queue_def new_request_def stamp_start_def)

lemma sort_key_least:
  "\<forall>y \<in> set ys. f r < (f y :: nat) \<Longrightarrow> \<forall>z \<in> set zs. f r \<le> f z \<Longrightarrow>
     sort_key f (ys @ r # zs) = r # sort_key f (ys @ zs)"
proof (induction ys)
  case Nil
  then show ?case by (simp add: insort_is_Cons)
qed simp

lemma map_stamp_rid: "map rid (map (stamp_start now) rs) = map rid rs"
  by simp

text \<open>
  C18. Emptying the sjf queue with no arrivals serves it in the order of a stable sort by size.
\<close>

theorem sjf_drain_sorted:
  "length nows = length (items q) \<Longrightarrow> sched_run SJF (map Take nows) q = (served, q') \<Longrightarrow>
     map rid served = map rid (sort_key bytes (items q)) \<and> items q' = []"
proof (induction nows arbitrary: q served q')
  case (Cons now nows)
  then have "items q \<noteq> []" by auto
  from sched_next_shortest [OF this, of now] obtain ys r zs where q: "items q = ys @ r # zs"
    and nxt: "sched_next SJF now q = Popped (stamp_start now r) (q\<lparr>items := ys @ zs\<rparr>)"
    and least: "\<forall>y \<in> set ys. bytes r < bytes y" "\<forall>z \<in> set zs. bytes r \<le> bytes z" .
  obtain s1 q2 where run: "sched_run SJF (map Take nows) (q\<lparr>items := ys @ zs\<rparr>) = (s1, q2)"
    by (cases "sched_run SJF (map Take nows) (q\<lparr>items := ys @ zs\<rparr>)")
  with nxt Cons.prems have "served = stamp_start now r # s1" "q' = q2" by simp_all
  moreover have "map rid s1 = map rid (sort_key bytes (ys @ zs)) \<and> items q2 = []"
    using Cons.IH [OF _ run] Cons.prems(1) q by simp
  ultimately show ?case using sort_key_least [OF least] q by simp
qed simp

theorem sjf_drain_sorted_witness:
  "map rid (fst (sched_run SJF (map Take [1, 2, 3, 4]) (empty_queue\<lparr>items :=
       [new_request\<lparr>rid := 1, bytes := 300\<rparr>, new_request\<lparr>rid := 2, bytes := 100\<rparr>,
        new_request\<lparr>rid := 3, bytes := 200\<rparr>, new_request\<lparr>rid := 4, bytes := 100\<rparr>]\<rparr>))) = [2, 4, 3, 1]"
  (is "map rid (fst (?run ?q)) = _")
proof -
  obtain s q' where run: "?run ?q = (s, q')"
    by (cases "?run ?q")
  from sjf_drain_sorted [OF _ run] have "map rid s = [2, 4, 3, 1]"
    by (simp add: empty_queue_def new_request_def)
  then show ?thesis by (simp only: run fst_conv)
qed

definition small_stream :: "nat \<Rightarrow> request \<Rightarrow> sched_event list" where
  "small_stream n small = concat (replicate n [Arrive small, Take 1])"

text \<open>
  C19. No aging: however long the server runs, a large request can stay in the sjf queue for ever.
  For every number of service turns there is a run of that many turns in which smaller requests
  keep arriving, every turn serves one of them, and the large request is still waiting.
\<close>

theorem sjf_can_starve:
  assumes "bytes small < bytes big"
  shows "\<exists>served. sched_run SJF (small_stream n small) (empty_queue\<lparr>items := [big]\<rparr>) =
           (served, empty_queue\<lparr>items := [big]\<rparr>) \<and> map rid served = replicate n (rid small)"
proof (induction n)
  case (Suc n)
  have "sched_next SJF 1 (push small (empty_queue\<lparr>items := [big]\<rparr>)) =
      Popped (stamp_start 1 small) (empty_queue\<lparr>items := [big]\<rparr>)"
    using assms
    by (simp add: push_def sched_next_def scheduler_pick_def pop_pick_def pick_shortest_def
        sjf_loop.simps empty_queue_def)
  with Suc show ?case by (auto simp: small_stream_def)
qed (simp add: small_stream_def)

theorem sjf_can_starve_witness:
  "\<exists>served. sched_run SJF (small_stream 3 (new_request\<lparr>rid := 7, bytes := 10\<rparr>))
       (empty_queue\<lparr>items := [new_request\<lparr>rid := 1, bytes := 500\<rparr>]\<rparr>) =
         (served, empty_queue\<lparr>items := [new_request\<lparr>rid := 1, bytes := 500\<rparr>]\<rparr>) \<and>
       map rid served = [7, 7, 7]"
  using sjf_can_starve [of "new_request\<lparr>rid := 7, bytes := 10\<rparr>" "new_request\<lparr>rid := 1, bytes := 500\<rparr>" 3]
  by (simp add: new_request_def numeral_3_eq_3)

text \<open>
  Shutdown drains: after \<open>shutdown\<close> a worker never waits; it takes a request as long as one is
  queued, and gets the null pointer exactly when the queue is empty.
\<close>

lemma shutdown_drains:
  "sched_next p now (queue_shutdown q) \<noteq> Wait \<and>
   (sched_next p now (queue_shutdown q) = Null \<longleftrightarrow> items q = [])"
  using sched_next_Popped_iff [of p now "queue_shutdown q"]
  by (cases "items q = []")
    (auto simp: sched_next_empty queue_shutdown_def)

end
