(* ===== verification/Slice.thy ===== *)
theory Slice
  imports Channel Filesystem Scheduler
begin

text \<open>
  One service round of a request: \<open>serve_slice\<close> of \<open>src/server/slice.cpp\<close> with everything it calls,
  \<open>SliceParams\<close> and \<open>SliceResult\<close> of \<open>scheduler.h\<close>, and the A14 log line of
  \<open>src/common/logging.h\<close>. A round is given the file system, the request and its connection; it
  returns the result, the updated request, connection and file system, and what it wrote to stderr.
\<close>

section \<open>Parameters, results, constants\<close>

record slice_params =
  sp_policy :: policy
  quantum :: nat
  p_lines :: int

datatype slice_result = DONE | PREEMPTED | FAILED

definition kUnbounded :: nat where "kUnbounded = u64_max"
definition kChunk :: nat where "kChunk = 64 * 1024"
definition kBodyChunkTimeoutMs :: int where "kBodyChunkTimeoutMs = 10000"
definition kLineBuf :: nat where "kLineBuf = 16 * 1024"

definition bounded :: "policy \<Rightarrow> bool" where
  "bounded p \<longleftrightarrow> p = RR \<or> p = DRR"

lemma bounded_simps [simp]: "\<not> bounded FCFS" "\<not> bounded SJF" "bounded RR" "bounded DRR"
  by (simp_all add: bounded_def)

text \<open>\<open>send_error\<close> ignores whether the message could be sent.\<close>

definition send_error :: "string \<Rightarrow> chan \<Rightarrow> chan" where
  "send_error reason c = snd (send_all (format_err reason) c)"

definition log_a14_fire :: "nat \<Rightarrow> string \<Rightarrow> nat \<Rightarrow> nat \<Rightarrow> string" where
  "log_a14_fire request_id fname line_bytes q =
     ''A14 request_id='' @ nat_str request_id @ '' filename='' @ fname @
     '' line_bytes='' @ nat_str line_bytes @ '' quantum='' @ nat_str q @ [NL]"

section \<open>Reading the file\<close>

text \<open>
  The scan for the end of the line that starts at \<open>offset\<close>; 0 reports a read error.
\<close>

function scan_line :: "fsys \<Rightarrow> int \<Rightarrow> nat \<Rightarrow> nat \<Rightarrow> nat \<Rightarrow> nat" where
  "scan_line fs fd offset file_size pos =
     (if pos < file_size then
        (case sys_pread fs fd pos (min kLineBuf (file_size - pos)) of
           None \<Rightarrow> 0
         | Some buf \<Rightarrow>
             if buf = [] then 0
             else if NL \<in> set buf then (pos - offset) + length (until_nl buf) + 1
             else scan_line fs fd offset file_size (pos + length buf))
      else file_size - offset)"
  by pat_completeness auto
termination
  by (relation "measure (\<lambda>(fs, fd, offset, file_size, pos). file_size - pos)")
    (auto simp flip: length_greater_0_conv)

declare scan_line.simps [simp del]

definition line_length_at :: "fsys \<Rightarrow> int \<Rightarrow> nat \<Rightarrow> nat \<Rightarrow> nat" where
  "line_length_at fs fd offset file_size = scan_line fs fd offset file_size offset"

text \<open>\<open>append_range\<close> resizes \<open>out\<close> back when a read fails: \<open>None\<close>.\<close>

function append_loop :: "fsys \<Rightarrow> int \<Rightarrow> nat \<Rightarrow> nat \<Rightarrow> nat \<Rightarrow> string \<Rightarrow> string option" where
  "append_loop fs fd offset len dn acc =
     (if dn < len then
        (case sys_pread fs fd (offset + dn) (len - dn) of
           None \<Rightarrow> None
         | Some buf \<Rightarrow>
             if buf = [] then None
             else append_loop fs fd offset len (dn + length buf) (acc @ buf))
      else Some acc)"
  by pat_completeness auto
termination
  by (relation "measure (\<lambda>(fs, fd, offset, len, dn, acc). len - dn)")
    (auto simp flip: length_greater_0_conv)

declare append_loop.simps [simp del]

definition append_range :: "fsys \<Rightarrow> int \<Rightarrow> nat \<Rightarrow> nat \<Rightarrow> string \<Rightarrow> string option" where
  "append_range fs fd offset len acc = append_loop fs fd offset len 0 acc"

text \<open>\<open>stream_range\<close> copies a range to the socket through a buffer of at most \<open>kChunk\<close> bytes.\<close>

function stream_loop :: "fsys \<Rightarrow> int \<Rightarrow> nat \<Rightarrow> nat \<Rightarrow> nat \<Rightarrow> chan \<Rightarrow> bool \<times> chan" where
  "stream_loop fs fd offset len dn c =
     (if dn < len then
        (case sys_pread fs fd (offset + dn) (min (min len kChunk) (len - dn)) of
           None \<Rightarrow> (False, c)
         | Some buf \<Rightarrow>
             if buf = [] then (False, c)
             else (case send_all buf c of
                     (False, c1) \<Rightarrow> (False, c1)
                   | (True, c1) \<Rightarrow> stream_loop fs fd offset len (dn + length buf) c1))
      else (True, c))"
  by pat_completeness auto
termination
  by (relation "measure (\<lambda>(fs, fd, offset, len, dn, c). len - dn)")
    (auto simp flip: length_greater_0_conv)

declare stream_loop.simps [simp del]

definition stream_range :: "fsys \<Rightarrow> int \<Rightarrow> nat \<Rightarrow> nat \<Rightarrow> chan \<Rightarrow> bool \<times> chan" where
  "stream_range fs fd offset len c = stream_loop fs fd offset len 0 c"

section \<open>Batches\<close>

record batch =
  bdata :: string
  blines :: nat

definition empty_batch :: batch where
  "empty_batch = \<lparr>bdata = [], blines = 0\<rparr>"

definition flush :: "batch \<Rightarrow> chan \<Rightarrow> bool \<times> batch \<times> chan" where
  "flush b c =
     (case (if bdata b = [] then (True, c) else send_all (bdata b) c) of
        (ok, c1) \<Rightarrow> (ok, empty_batch, c1))"

text \<open>Lines 127 to 133: a line longer than a chunk is streamed, any other joins the batch.\<close>

definition emit_line ::
  "fsys \<Rightarrow> int \<Rightarrow> nat \<Rightarrow> nat \<Rightarrow> nat \<Rightarrow> batch \<Rightarrow> chan \<Rightarrow> bool \<times> batch \<times> chan" where
  "emit_line fs fd offset len p b c =
     (if len > kChunk then
        (case flush b c of
           (False, b1, c1) \<Rightarrow> (False, b1, c1)
         | (True, b1, c1) \<Rightarrow>
             (case stream_range fs fd offset len c1 of (ok, c2) \<Rightarrow> (ok, b1, c2)))
      else
        (case append_range fs fd offset len (bdata b) of
           None \<Rightarrow> (False, b, c)
         | Some d \<Rightarrow>
             let b1 = \<lparr>bdata = d, blines = Suc (blines b)\<rparr> in
             if blines b1 \<ge> p then flush b1 c else (True, b1, c)))"

section \<open>serve_get\<close>

text \<open>
  The line loop. \<open>sent\<close> is \<open>sent_this_round\<close>; \<open>left\<close> is what remains of the allowance.
\<close>

function get_loop ::
  "fsys \<Rightarrow> slice_params \<Rightarrow> nat \<Rightarrow> request \<Rightarrow> chan \<Rightarrow> batch \<Rightarrow> nat \<Rightarrow> nat \<Rightarrow>
     slice_result \<times> request \<times> chan \<times> string list" where
  "get_loop fs sp p r c b sent left =
     (if byte_offset r < bytes r then
        let len = line_length_at fs (file_fd r) (byte_offset r) (bytes r) in
        if len = 0 then (FAILED, r, c, [])
        else if bounded (sp_policy sp) \<and> sp_policy sp = RR \<and> sent = 0 \<and> len > quantum sp then
          (case flush b c of
             (False, _, c1) \<Rightarrow> (FAILED, r, c1, [])
           | (True, _, c1) \<Rightarrow>
               (case stream_range fs (file_fd r) (byte_offset r) len c1 of
                  (False, c2) \<Rightarrow> (FAILED, r, c2, [])
                | (True, c2) \<Rightarrow>
                    let r1 = r\<lparr>byte_offset := byte_offset r + len\<rparr> in
                    (if byte_offset r1 \<ge> bytes r1 then DONE else PREEMPTED, r1, c2,
                     [log_a14_fire (rid r1) (filename r1) len (quantum sp)])))
        else if bounded (sp_policy sp) \<and> len > left then
          (case flush b c of
             (False, _, c1) \<Rightarrow> (FAILED, r, c1, [])
           | (True, _, c1) \<Rightarrow>
               (PREEMPTED,
                if sp_policy sp = RR then r\<lparr>forfeited_bytes := u64_add (forfeited_bytes r) left\<rparr>
                else r\<lparr>deficit := left\<rparr>,
                c1, []))
        else
          (case emit_line fs (file_fd r) (byte_offset r) len p b c of
             (False, _, c1) \<Rightarrow> (FAILED, r, c1, [])
           | (True, b1, c1) \<Rightarrow>
               get_loop fs sp p (r\<lparr>byte_offset := byte_offset r + len\<rparr>) c1 b1 (sent + len)
                 (if bounded (sp_policy sp) then left - len else left))
      else
        (case flush b c of
           (False, _, c1) \<Rightarrow> (FAILED, r, c1, [])
         | (True, _, c1) \<Rightarrow> (DONE, r\<lparr>deficit := 0\<rparr>, c1, [])))"
  by pat_completeness auto
termination
  by (relation "measure (\<lambda>(fs, sp, p, r, c, b, sent, left). bytes r - byte_offset r)") auto

declare get_loop.simps [simp del]

text \<open>Lines 96 to 101: the allowance, saturating at the largest 64-bit value.\<close>

definition get_allowance :: "slice_params \<Rightarrow> request \<Rightarrow> nat" where
  "get_allowance sp r =
     (if bounded (sp_policy sp) then
        let carried = (if sp_policy sp = DRR then deficit r else 0) in
        if carried > kUnbounded - quantum sp then kUnbounded else carried + quantum sp
      else kUnbounded)"

definition serve_get ::
  "fsys \<Rightarrow> request \<Rightarrow> chan \<Rightarrow> slice_params \<Rightarrow> slice_result \<times> request \<times> chan \<times> string list" where
  "serve_get fs r0 c sp =
     (let r = r0\<lparr>rounds := rounds r0 + 1\<rparr> in
      case (if \<not> started r then send_all (format_ok (bytes r)) c else (True, c)) of
        (False, c1) \<Rightarrow> (FAILED, r, c1, [])
      | (True, c1) \<Rightarrow>
          let r1 = r\<lparr>started := True\<rparr> in
          get_loop fs sp (nat (max 1 (p_lines sp))) r1 c1 empty_batch 0 (get_allowance sp r1))"

section \<open>serve_put\<close>

text \<open>
  The body loop: chunks of at most \<open>min take kChunk\<close> bytes are read from the connection and
  written to the temporary file. \<open>PREEMPTED\<close> stands for "go on after the loop".
\<close>

function put_loop ::
  "nat \<Rightarrow> nat \<Rightarrow> request \<Rightarrow> chan \<Rightarrow> fsys \<Rightarrow> bool \<times> request \<times> chan \<times> fsys" where
  "put_loop tk dn r c fs =
     (if dn < tk then
        let n = min (min tk kChunk) (tk - dn) in
        case read_exact (leftover r) n kBodyChunkTimeoutMs c of
          (ok, buf, lo, c1) \<Rightarrow>
            let r1 = r\<lparr>leftover := lo\<rparr> in
            if \<not> ok then (False, r1, send_error ''body shorter than declared'' c1, fs)
            else (case write_all (file_fd r1) buf fs of
                    (False, fs1) \<Rightarrow> (False, r1, send_error ''cannot write file'' c1, fs1)
                  | (True, fs1) \<Rightarrow>
                      put_loop tk (dn + n) (r1\<lparr>byte_offset := byte_offset r1 + n\<rparr>) c1 fs1)
      else (True, r, c, fs))"
  by pat_completeness auto
termination
  by (relation "measure (\<lambda>(tk, dn, r, c, fs). tk - dn)") (auto simp: kChunk_def)

declare put_loop.simps [simp del]

text \<open>Lines 158 to 169: the first round opens the temporary file and answers \<open>OK 0\<close>.\<close>

definition put_start ::
  "request \<Rightarrow> chan \<Rightarrow> fsys \<Rightarrow> bool \<times> request \<times> chan \<times> fsys" where
  "put_start r c fs =
     (if started r then (True, r, c, fs)
      else
        let tmp = path r @ ''.tmp.'' @ nat_str (rid r) in
        case sys_open_trunc tmp fs of
          (fd, fs1) \<Rightarrow>
            if fd < 0 then (False, r\<lparr>file_fd := fd, tmp_path := []\<rparr>, send_error ''cannot write file'' c, fs1)
            else
              let r1 = r\<lparr>tmp_path := tmp, file_fd := fd\<rparr> in
              case send_all (format_ok 0) c of
                (False, c1) \<Rightarrow> (False, r1, c1, fs1)
              | (True, c1) \<Rightarrow> (True, r1\<lparr>started := True\<rparr>, c1, fs1))"

text \<open>Lines 192 to 201: close, install under the destination name, confirm.\<close>

definition put_finish ::
  "request \<Rightarrow> chan \<Rightarrow> fsys \<Rightarrow> slice_result \<times> request \<times> chan \<times> fsys" where
  "put_finish r c fs =
     (let fs1 = sys_close (file_fd r) fs; r1 = r\<lparr>file_fd := -1\<rparr> in
      case sys_rename (tmp_path r1) (path r1) fs1 of
        (False, fs2) \<Rightarrow> (FAILED, r1, send_error ''cannot write file'' c, fs2)
      | (True, fs2) \<Rightarrow>
          (case send_all (format_ok 0) c of
             (ok, c1) \<Rightarrow> (if ok then DONE else FAILED, r1\<lparr>tmp_path := []\<rparr>, c1, fs2)))"

definition serve_put ::
  "request \<Rightarrow> chan \<Rightarrow> fsys \<Rightarrow> slice_params \<Rightarrow> slice_result \<times> request \<times> chan \<times> fsys" where
  "serve_put r0 c fs sp =
     (case put_start (r0\<lparr>rounds := rounds r0 + 1\<rparr>) c fs of
        (False, r, c1, fs1) \<Rightarrow> (FAILED, r, c1, fs1)
      | (True, r, c1, fs1) \<Rightarrow>
          let remaining = bytes r - byte_offset r;
              tk = (if bounded (sp_policy sp) then min (quantum sp) remaining else remaining) in
          case put_loop tk 0 r c1 fs1 of
            (False, r2, c2, fs2) \<Rightarrow> (FAILED, r2, c2, fs2)
          | (True, r2, c2, fs2) \<Rightarrow>
              if byte_offset r2 < bytes r2 then (PREEMPTED, r2, c2, fs2)
              else put_finish r2 c2 fs2)"

section \<open>serve_slice and release_request\<close>

definition serve_slice ::
  "request \<Rightarrow> chan \<Rightarrow> fsys \<Rightarrow> slice_params \<Rightarrow>
     slice_result \<times> request \<times> chan \<times> fsys \<times> string list" where
  "serve_slice r c fs sp =
     (case rop r of
        OpGET \<Rightarrow> (case serve_get fs r c sp of (res, r1, c1, log) \<Rightarrow> (res, r1, c1, fs, log))
      | OpPUT \<Rightarrow> (case serve_put r c fs sp of (res, r1, c1, fs1) \<Rightarrow> (res, r1, c1, fs1, [])))"

definition release_request :: "request \<Rightarrow> fsys \<Rightarrow> request \<times> fsys" where
  "release_request r fs =
     (let (r1, fs1) =
        (if file_fd r \<ge> 0 then (r\<lparr>file_fd := -1\<rparr>, sys_close (file_fd r) fs) else (r, fs)) in
      if tmp_path r1 \<noteq> [] then (r1\<lparr>tmp_path := []\<rparr>, sys_unlink (tmp_path r1) fs1) else (r1, fs1))"

text \<open>
  The rounds of one request until it leaves the server, at most \<open>n\<close> of them. Between two rounds
  the request waits in the queue; other requests do not touch its connection or its inode.
\<close>

fun run_rounds ::
  "nat \<Rightarrow> request \<Rightarrow> chan \<Rightarrow> fsys \<Rightarrow> slice_params \<Rightarrow>
     slice_result \<times> request \<times> chan \<times> fsys \<times> string list" where
  "run_rounds 0 r c fs sp = (PREEMPTED, r, c, fs, [])"
| "run_rounds (Suc n) r c fs sp =
     (case serve_slice r c fs sp of
        (PREEMPTED, r1, c1, fs1, log) \<Rightarrow>
          (case run_rounds n r1 c1 fs1 sp of (res, r2, c2, fs2, log2) \<Rightarrow> (res, r2, c2, fs2, log @ log2))
      | result \<Rightarrow> result)"

end
