(* ===== verification/Slice_Get.thy ===== *)
theory Slice_Get
  imports Slice
begin

text \<open>
  What one GET round does (\<open>serve_get\<close>): the loops that read the file, then the line loop against
  the reference splitting of the file into lines, in two forms: whatever the kernel does, the client
  has received a prefix of the right answer; and when nothing fails, exactly which lines a round
  sends and how it charges the allowance.
\<close>

section \<open>The open file\<close>

text \<open>
  \<open>file_view fs r data\<close>: the request's descriptor refers to an inode whose first \<open>bytes r\<close> bytes are
  \<open>data\<close>, the size that \<open>fstat\<close> reported at admission.
\<close>

definition file_view :: "fsys \<Rightarrow> request \<Rightarrow> string \<Rightarrow> bool" where
  "file_view fs r data \<longleftrightarrow>
     (\<exists>i. fds fs (file_fd r) = Some i \<and> data = take (bytes r) (inode fs i)) \<and> length data = bytes r"

definition reads_ok :: "fsys \<Rightarrow> int \<Rightarrow> bool" where
  "reads_ok fs fd \<longleftrightarrow> (\<forall>off n. read_oracle fs fd off n \<noteq> None)"

lemma file_view_length: "file_view fs r data \<Longrightarrow> length data = bytes r"
  by (simp add: file_view_def)

lemma file_view_frame:
  "file_fd r' = file_fd r \<Longrightarrow> bytes r' = bytes r \<Longrightarrow> file_view fs r' data = file_view fs r data"
  by (simp add: file_view_def)

lemma sys_pread_view:
  assumes "file_view fs r data" and "0 < n" and "pos + n \<le> bytes r"
  obtains
    (err) "sys_pread fs (file_fd r) pos n = None" "\<not> reads_ok fs (file_fd r)"
  | (ok) k where "0 < k" "k \<le> n" "sys_pread fs (file_fd r) pos n = Some (take k (drop pos data))"
      "length (take k (drop pos data)) = k" "take k (drop pos data) \<noteq> []"
proof (cases "read_oracle fs (file_fd r) pos n")
  case None
  with assms show ?thesis by (intro err) (auto simp: sys_pread_def file_view_def reads_ok_def)
next
  case (Some m)
  obtain i where i: "fds fs (file_fd r) = Some i" "data = take (bytes r) (inode fs i)"
    using assms(1) by (auto simp: file_view_def)
  let ?k = "min n (max 1 m)"
  have k: "?k \<le> bytes r - pos" using assms(3) by (simp add: min.coboundedI1 le_diff_conv2)
  then have "take ?k (drop pos (inode fs i)) = take ?k (drop pos data)"
    by (simp add: i(2) drop_take min.absorb1)
  with Some i(1) have "sys_pread fs (file_fd r) pos n = Some (take ?k (drop pos data))"
    by (simp add: sys_pread_def)
  moreover have "length (take ?k (drop pos data)) = ?k"
    using k file_view_length [OF assms(1)] by simp
  moreover have "0 < ?k" using assms(2) by simp
  ultimately show ?thesis by (intro ok [of ?k]) auto
qed

section \<open>Finding the end of a line\<close>

lemma first_line_append: "NL \<notin> set u \<Longrightarrow> first_line (u @ v) = u @ first_line v"
  by (induction u) (auto simp: first_line_Cons)

lemma first_line_until:
  assumes "NL \<in> set u"
  shows "length (first_line (u @ v)) = length (until_nl u) + 1"
proof -
  have "u @ v = until_nl u @ NL # drop (length (until_nl u) + 1) u @ v"
    using until_nl_split [OF assms] by (metis append.assoc append_Cons)
  then have "first_line (u @ v) = until_nl u @ first_line (NL # drop (length (until_nl u) + 1) u @ v)"
    by (metis first_line_append until_nl_no_nl)
  then show ?thesis by (simp add: first_line_Cons)
qed

lemma scan_line_spec:
  "file_view fs r data \<Longrightarrow> offset \<le> pos \<Longrightarrow> pos \<le> bytes r \<Longrightarrow> NL \<notin> set (take (pos - offset) (drop offset data)) \<Longrightarrow>
     scan_line fs (file_fd r) offset (bytes r) pos = 0 \<and> \<not> reads_ok fs (file_fd r) \<or>
     scan_line fs (file_fd r) offset (bytes r) pos = length (first_line (drop offset data))"
proof (induction fs "file_fd r" offset "bytes r" pos rule: scan_line.induct)
  case (1 fs offset pos)
  note view = "1.prems"(1)
  have split: "drop offset data = take (pos - offset) (drop offset data) @ drop pos data"
    using "1.prems"(2) by (metis append_take_drop_id drop_drop le_add_diff_inverse2)
  show ?case
  proof (cases "pos < bytes r")
    case False
    with "1.prems" file_view_length [OF view] have "drop pos data = []" by simp
    with split "1.prems"(4) have "first_line (drop offset data) = drop offset data"
      using first_line_append [of "drop offset data" "[]"] by simp
    with False file_view_length [OF view] show ?thesis
      by (simp add: scan_line.simps)
  next
    case True
    let ?want = "min kLineBuf (bytes r - pos)"
    have "0 < ?want" "pos + ?want \<le> bytes r" using True by (auto simp: kLineBuf_def)
    from view this show ?thesis
    proof (cases rule: sys_pread_view)
      case err
      with True show ?thesis by (simp add: scan_line.simps [of _ _ _ _ pos])
    next
      case (ok k)
      let ?buf = "take k (drop pos data)"
      note len = ok(4) and ne = ok(5)
      show ?thesis
      proof (cases "NL \<in> set ?buf")
        case nl: True
        let ?pre = "take (pos - offset) (drop offset data)"
        have "drop offset data = ?pre @ ?buf @ drop k (drop pos data)"
          using split by (simp only: append_take_drop_id)
        then have "first_line (drop offset data) = ?pre @ first_line (?buf @ drop k (drop pos data))"
          using first_line_append [OF "1.prems"(4)] by metis
        moreover have "length ?pre = pos - offset"
          using file_view_length [OF view] "1.prems"(2,3) by simp
        ultimately have "length (first_line (drop offset data)) = (pos - offset) + (length (until_nl ?buf) + 1)"
          using first_line_until [OF nl] by (simp only: length_append)
        with True ok ne nl show ?thesis by (simp add: scan_line.simps [of _ _ _ _ pos])
      next
        case no_nl: False
        have "take (pos + length ?buf - offset) (drop offset data) = take (pos - offset) (drop offset data) @ ?buf"
          using "1.prems"(2) len by (simp add: take_add flip: Nat.add_diff_assoc2)
        then have "NL \<notin> set (take (pos + length ?buf - offset) (drop offset data))"
          using no_nl "1.prems"(4) by simp
        moreover have "pos + length ?buf \<le> bytes r"
          unfolding len using ok(2) True by linarith
        ultimately show ?thesis
          using "1.hyps" [OF True ok(3) ne no_nl view] "1.prems"(2) True ok(3) ne no_nl
          by (simp add: scan_line.simps [of _ _ _ _ pos])
      qed
    qed
  qed
qed

lemma line_length_at_spec:
  assumes "file_view fs r data" and "off \<le> bytes r"
  shows "line_length_at fs (file_fd r) off (bytes r) = 0 \<and> \<not> reads_ok fs (file_fd r) \<or>
    line_length_at fs (file_fd r) off (bytes r) = length (first_line (drop off data))"
  using scan_line_spec [OF assms(1), of off off] assms(2) by (simp add: line_length_at_def)

section \<open>Reading and streaming a range\<close>

text \<open>The bytes of the file from \<open>off\<close> on, \<open>n\<close> of them.\<close>

definition range_of :: "string \<Rightarrow> nat \<Rightarrow> nat \<Rightarrow> string" where
  "range_of data off n = take n (drop off data)"

lemma range_of_0 [simp]: "range_of data off 0 = []"
  by (simp add: range_of_def)

lemma range_of_append: "range_of data off m @ range_of data (off + m) n = range_of data off (m + n)"
  by (simp add: range_of_def take_add add.commute)

lemma range_of_drop: "range_of data off n @ drop (off + n) data = drop off data"
  using append_take_drop_id [of n "drop off data"] by (simp add: range_of_def add.commute)

lemma append_loop_spec:
  "file_view fs r data \<Longrightarrow> off + len \<le> bytes r \<Longrightarrow> dn \<le> len \<Longrightarrow>
     append_loop fs (file_fd r) off len dn acc = None \<and> \<not> reads_ok fs (file_fd r) \<or>
     append_loop fs (file_fd r) off len dn acc = Some (acc @ range_of data (off + dn) (len - dn))"
proof (induction fs "file_fd r" off len dn acc rule: append_loop.induct)
  case (1 fs off len dn acc)
  show ?case
  proof (cases "dn < len")
    case False
    with "1.prems" show ?thesis by (simp add: append_loop.simps)
  next
    case True
    have "0 < len - dn" "(off + dn) + (len - dn) \<le> bytes r" using True "1.prems" by auto
    with "1.prems"(1) show ?thesis
    proof (cases rule: sys_pread_view)
      case err
      with True show ?thesis by (simp add: append_loop.simps [of _ _ _ _ dn])
    next
      case (ok k)
      let ?buf = "range_of data (off + dn) k"
      have buf: "take k (drop (off + dn) data) = ?buf" by (simp add: range_of_def)
      note ok = ok [unfolded buf]
      have "?buf @ range_of data (off + (dn + k)) (len - (dn + k)) = range_of data (off + dn) (len - dn)"
        using ok(2) True range_of_append [of data "off + dn" k "len - (dn + k)"] by (simp add: add.assoc)
      then show ?thesis
        using "1.hyps" [OF True ok(3,5) "1.prems"(1,2)] ok True
        by (simp add: append_loop.simps [of _ _ _ _ dn acc] add.assoc)
    qed
  qed
qed

lemma stream_loop_spec:
  "file_view fs r data \<Longrightarrow> off + len \<le> bytes r \<Longrightarrow> dn \<le> len \<Longrightarrow>
     stream_loop fs (file_fd r) off len dn c = (b, c') \<Longrightarrow>
     inbox c' = inbox c \<and> (sends_ok c \<longrightarrow> sends_ok c' \<and> (reads_ok fs (file_fd r) \<longrightarrow> b)) \<and>
     (\<exists>k \<le> len - dn. wire c' = wire c @ range_of data (off + dn) k \<and> (b \<longrightarrow> k = len - dn))"
proof (induction fs "file_fd r" off len dn c arbitrary: b c' rule: stream_loop.induct)
  case (1 fs off len dn c)
  show ?case
  proof (cases "dn < len")
    case False
    with "1.prems" show ?thesis by (simp add: stream_loop.simps)
  next
    case True
    let ?want = "min (min len kChunk) (len - dn)"
    have "0 < ?want" "(off + dn) + ?want \<le> bytes r" using True "1.prems" by (auto simp: kChunk_def)
    with "1.prems"(1) show ?thesis
    proof (cases rule: sys_pread_view)
      case err
      with True "1.prems"(4) have "b = False" "c' = c" by (simp_all add: stream_loop.simps [of _ _ _ _ dn])
      with err show ?thesis by auto
    next
      case (ok k)
      let ?buf = "range_of data (off + dn) k"
      have buf: "take k (drop (off + dn) data) = ?buf" by (simp add: range_of_def)
      note ok = ok [unfolded buf]
      obtain sb c1 where snd: "send_all ?buf c = (sb, c1)" by (cases "send_all ?buf c")
      note eff = send.loop_effect [OF snd]
      show ?thesis
      proof (cases "sb = True")
        case False
        with True ok "1.prems"(4) snd have "b = False" "c' = c1"
          by (simp_all add: stream_loop.simps [of _ _ _ _ dn])
        moreover from eff ok(4) obtain j where "j \<le> k" "wire c1 = wire c @ take j ?buf" by auto
        moreover have "take j ?buf = range_of data (off + dn) j" if "j \<le> k"
          using that by (simp add: range_of_def min_def)
        moreover have "k \<le> len - dn" using ok(2) by simp
        ultimately show ?thesis using eff False by (auto intro: order_trans)
      next
        case sb: True
        have run: "stream_loop fs (file_fd r) off len (dn + length ?buf) c1 = (b, c')"
          using True ok "1.prems"(4) snd sb by (simp add: stream_loop.simps [of _ _ _ _ dn c])
        have "dn + length ?buf \<le> len" using ok(2,4) True by linarith
        from "1.hyps" [OF True ok(3,5) snd [symmetric] sb "1.prems"(1,2) this run]
        obtain j where j: "j \<le> len - (dn + k)" "wire c' = wire c1 @ range_of data (off + (dn + k)) j"
          "b \<longrightarrow> j = len - (dn + k)"
          and rest: "inbox c' = inbox c1" "sends_ok c1 \<longrightarrow> sends_ok c' \<and> (reads_ok fs (file_fd r) \<longrightarrow> b)"
          using ok(4) by auto
        have "wire c1 = wire c @ ?buf" using eff sb by auto
        then have "wire c' = wire c @ range_of data (off + dn) (k + j)"
          using j(2) range_of_append [of data "off + dn" k j] by (simp add: add.assoc)
        moreover have "k + j \<le> len - dn" "b \<longrightarrow> k + j = len - dn" using j(1,3) ok(2) True by auto
        ultimately show ?thesis using rest eff by auto
      qed
    qed
  qed
qed

lemma append_range_spec:
  "file_view fs r data \<Longrightarrow> off + len \<le> bytes r \<Longrightarrow>
     append_range fs (file_fd r) off len acc = None \<and> \<not> reads_ok fs (file_fd r) \<or>
     append_range fs (file_fd r) off len acc = Some (acc @ range_of data off len)"
  using append_loop_spec [of fs r data off len 0 acc] by (simp add: append_range_def)

lemma stream_range_spec:
  "file_view fs r data \<Longrightarrow> off + len \<le> bytes r \<Longrightarrow> stream_range fs (file_fd r) off len c = (b, c') \<Longrightarrow>
     inbox c' = inbox c \<and> (sends_ok c \<longrightarrow> sends_ok c' \<and> (reads_ok fs (file_fd r) \<longrightarrow> b)) \<and>
     (\<exists>k \<le> len. wire c' = wire c @ range_of data off k \<and> (b \<longrightarrow> k = len))"
  using stream_loop_spec [of fs r data off len 0 c b c'] by (simp add: stream_range_def)

section \<open>Batches\<close>

text \<open>
  \<open>delivers c c' pending ok sent\<close>: from \<open>c\<close> to \<open>c'\<close> the client received a prefix of \<open>pending\<close>, and
  exactly \<open>sent\<close> if the step succeeded; nothing was consumed from the connection.
\<close>

definition delivers :: "chan \<Rightarrow> chan \<Rightarrow> string \<Rightarrow> bool \<Rightarrow> string \<Rightarrow> bool" where
  "delivers c c' pending ok sent \<longleftrightarrow>
     inbox c' = inbox c \<and> (sends_ok c \<longrightarrow> sends_ok c') \<and>
     (\<exists>got. wire c' = wire c @ got \<and> prefix got pending \<and> (ok \<longrightarrow> got = sent))"

lemma deliversE:
  assumes "delivers c c' pending ok sent"
  obtains got where "inbox c' = inbox c" "sends_ok c \<longrightarrow> sends_ok c'" "wire c' = wire c @ got"
    "prefix got pending" "ok \<longrightarrow> got = sent"
  using assms by (auto simp: delivers_def)

lemma flush_delivers:
  assumes "flush b c = (ok, b', c')"
  shows "b' = empty_batch" "delivers c c' (bdata b) ok (bdata b)" "sends_ok c \<longrightarrow> ok"
proof -
  obtain sb c1 where snd: "send_all (bdata b) c = (sb, c1)" by (cases "send_all (bdata b) c")
  then have "flush b c = (sb, empty_batch, c1)"
    by (cases "bdata b = []") (simp_all add: flush_def)
  with assms have "ok = sb" "b' = empty_batch" "c' = c1" by simp_all
  with send.loop_effect [OF snd]
  show "b' = empty_batch" "delivers c c' (bdata b) ok (bdata b)" "sends_ok c \<longrightarrow> ok"
    by (auto simp: delivers_def take_is_prefix)
qed

lemma delivers_extend: "delivers c c' pend ok sent \<Longrightarrow> delivers c c' (pend @ ext) False sent'"
  by (auto simp: delivers_def)

lemma delivers_trans:
  assumes "delivers c c1 pend1 True sent1" and "delivers c1 c2 pend2 ok sent2"
  shows "delivers c c2 (sent1 @ pend2) ok (sent1 @ sent2)"
  using assms by (auto simp: delivers_def)

lemma stream_delivers:
  assumes "file_view fs r data" and "off + len \<le> bytes r"
    and "stream_range fs (file_fd r) off len c = (ok, c')"
  shows "delivers c c' (range_of data off len) ok (range_of data off len)"
    and "sends_ok c \<longrightarrow> reads_ok fs (file_fd r) \<longrightarrow> ok"
proof -
  from stream_range_spec [OF assms] obtain k where k: "k \<le> len" "wire c' = wire c @ range_of data off k"
    "ok \<longrightarrow> k = len" and rest: "inbox c' = inbox c" "sends_ok c \<longrightarrow> sends_ok c' \<and> (reads_ok fs (file_fd r) \<longrightarrow> ok)"
    by auto
  have "prefix (range_of data off k) (range_of data off len)"
    using k(1) range_of_append [of data off k "len - k"] by (metis le_add_diff_inverse prefixI)
  with k rest show "delivers c c' (range_of data off len) ok (range_of data off len)"
    "sends_ok c \<longrightarrow> reads_ok fs (file_fd r) \<longrightarrow> ok"
    by (auto simp: delivers_def)
qed

text \<open>
  One line: afterwards what was sent and what is still in the batch together are what was in the
  batch followed by the line.
\<close>

lemma emit_line_spec:
  assumes view: "file_view fs r data" and fits: "off + len \<le> bytes r"
    and emit: "emit_line fs (file_fd r) off len p b c = (ok, b', c')"
  shows "\<exists>sent. delivers c c' (bdata b @ range_of data off len) ok sent \<and>
      (ok \<longrightarrow> sent @ bdata b' = bdata b @ range_of data off len) \<and>
      (sends_ok c \<longrightarrow> reads_ok fs (file_fd r) \<longrightarrow> ok)"
proof (cases "len > kChunk")
  case True
  obtain fok fb c1 where fl: "flush b c = (fok, fb, c1)" by (cases "flush b c")
  note fl_spec = flush_delivers [OF fl]
  show ?thesis
  proof (cases "fok = True")
    case False
    with True emit fl have "ok = False" "c' = c1" by (auto simp: emit_line_def)
    with fl_spec False show ?thesis using delivers_extend [OF fl_spec(2)] by auto
  next
    case fok: True
    obtain sok c2 where st: "stream_range fs (file_fd r) off len c1 = (sok, c2)"
      by (cases "stream_range fs (file_fd r) off len c1")
    with True emit fl fok fl_spec have "ok = sok" "b' = empty_batch" "c' = c2"
      by (auto simp: emit_line_def)
    with delivers_trans [OF fl_spec(2) [unfolded fok] stream_delivers(1) [OF view fits st]]
      stream_delivers(2) [OF view fits st] fl_spec(2)
    show ?thesis by (auto simp: empty_batch_def delivers_def)
  qed
next
  case small: False
  show ?thesis
  proof (cases "append_range fs (file_fd r) off len (bdata b)")
    case None
    with small emit have "ok = False" "c' = c" by (auto simp: emit_line_def)
    moreover have "\<not> reads_ok fs (file_fd r)"
      using append_range_spec [OF view fits, of "bdata b"] None by auto
    ultimately show ?thesis by (auto simp: delivers_def intro: exI [of _ 0])
  next
    case (Some d)
    then have d: "d = bdata b @ range_of data off len"
      using append_range_spec [OF view fits, of "bdata b"] by auto
    let ?b1 = "\<lparr>bdata = d, blines = Suc (blines b)\<rparr>"
    show ?thesis
    proof (cases "blines ?b1 \<ge> p")
      case True
      with Some small emit have "flush ?b1 c = (ok, b', c')" by (simp add: emit_line_def Let_def)
      from flush_delivers [OF this] d show ?thesis by (auto simp: empty_batch_def)
    next
      case False
      with Some small emit have "ok = True" "b' = ?b1" "c' = c" by (auto simp: emit_line_def Let_def)
      with d show ?thesis by (auto simp: delivers_def intro!: exI [of _ "[]"] exI [of _ 0])
    qed
  qed
qed

section \<open>The line loop, whatever the kernel does\<close>

text \<open>The fields of a request that a GET round may change.\<close>

definition resumed :: "request \<Rightarrow> request \<Rightarrow> bool" where
  "resumed r r' \<longleftrightarrow>
     (\<exists>off f d. r' = r\<lparr>byte_offset := off, forfeited_bytes := f, deficit := d\<rparr>)"

lemma resumed_updates [simp]:
  "resumed r r" "resumed r (r\<lparr>byte_offset := o1\<rparr>)" "resumed r (r\<lparr>deficit := d1\<rparr>)"
  "resumed r (r\<lparr>forfeited_bytes := f1\<rparr>)"
  unfolding resumed_def
  by (rule exI [of _ "byte_offset r"] exI [of _ o1], rule exI [of _ "forfeited_bytes r"] exI [of _ f1],
      rule exI [of _ "deficit r"] exI [of _ d1], simp)+

lemma resumed_trans: "resumed r r1 \<Longrightarrow> resumed r1 r2 \<Longrightarrow> resumed r r2"
  unfolding resumed_def by (clarsimp, intro exI, rule refl)

lemma resumed_fields:
  assumes "resumed r r'"
  shows "rid r' = rid r" "rop r' = rop r" "filename r' = filename r" "bytes r' = bytes r"
    "file_fd r' = file_fd r" "started r' = started r" "rounds r' = rounds r" "tmp_path r' = tmp_path r"
    "client_fd r' = client_fd r" "path r' = path r" "leftover r' = leftover r"
    "arrival_ns r' = arrival_ns r" "start_ns r' = start_ns r" "finish_ns r' = finish_ns r"
  using assms by (auto simp: resumed_def)

text \<open>The length the loop reads for the next line.\<close>

lemma next_line_length:
  assumes "file_view fs r data" and "byte_offset r < bytes r"
    and "line_length_at fs (file_fd r) (byte_offset r) (bytes r) \<noteq> 0"
  shows "line_length_at fs (file_fd r) (byte_offset r) (bytes r) = length (first_line (drop (byte_offset r) data))"
    and "byte_offset r + line_length_at fs (file_fd r) (byte_offset r) (bytes r) \<le> bytes r"
proof -
  show len: "line_length_at fs (file_fd r) (byte_offset r) (bytes r) = length (first_line (drop (byte_offset r) data))"
    using line_length_at_spec [OF assms(1), of "byte_offset r"] assms by auto
  show "byte_offset r + line_length_at fs (file_fd r) (byte_offset r) (bytes r) \<le> bytes r"
    using len length_first_line_le [of "drop (byte_offset r) data"] file_view_length [OF assms(1)] assms(2) by simp
qed

definition round_ok :: "chan \<Rightarrow> fsys \<Rightarrow> request \<Rightarrow> bool" where
  "round_ok c fs r \<longleftrightarrow> sends_ok c \<and> reads_ok fs (file_fd r)"

lemma range_prefix_drop: "prefix (range_of data off n) (drop off data)"
  by (simp add: range_of_def take_is_prefix)

lemma delivers_weaken:
  "delivers c c' pend ok sent \<Longrightarrow> prefix pend pend' \<Longrightarrow> (ok' \<Longrightarrow> ok \<and> sent' = sent) \<Longrightarrow>
     delivers c c' pend' ok' sent'"
  by (auto simp: delivers_def)

text \<open>One turn of the loop, branch by branch.\<close>

abbreviation a14_due :: "slice_params \<Rightarrow> nat \<Rightarrow> nat \<Rightarrow> bool" where
  "a14_due sp sent len \<equiv> bounded (sp_policy sp) \<and> sp_policy sp = RR \<and> sent = 0 \<and> len > quantum sp"

abbreviation next_len :: "fsys \<Rightarrow> request \<Rightarrow> nat" where
  "next_len fs r \<equiv> line_length_at fs (file_fd r) (byte_offset r) (bytes r)"

lemma get_loop_fin:
  assumes "\<not> byte_offset r < bytes r" and "flush b c = (fok, fb, c1)"
  shows "get_loop fs sp p r c b sent left =
    (if fok then (DONE, r\<lparr>deficit := 0\<rparr>, c1, []) else (FAILED, r, c1, []))"
  by (subst get_loop.simps) (cases fok; simp only: assms if_False prod.case bool.case if_True)

lemma get_loop_zero:
  assumes "byte_offset r < bytes r" and "next_len fs r = 0"
  shows "get_loop fs sp p r c b sent left = (FAILED, r, c, [])"
  by (subst get_loop.simps) (simp only: Let_def if_P [OF assms(1)] if_P [OF assms(2)])

lemma get_loop_a14:
  assumes "byte_offset r < bytes r" and "next_len fs r \<noteq> 0" and "a14_due sp sent (next_len fs r)"
    and "flush b c = (fok, fb, c1)"
    and "fok \<Longrightarrow> stream_range fs (file_fd r) (byte_offset r) (next_len fs r) c1 = (sok, c2)"
  shows "get_loop fs sp p r c b sent left =
    (if \<not> fok then (FAILED, r, c1, [])
     else if \<not> sok then (FAILED, r, c2, [])
     else (if byte_offset r + next_len fs r \<ge> bytes r then DONE else PREEMPTED,
           r\<lparr>byte_offset := byte_offset r + next_len fs r\<rparr>, c2,
           [log_a14_fire (rid r) (filename r) (next_len fs r) (quantum sp)]))"
proof (cases fok)
  case True
  note st = assms(5) [OF True]
  show ?thesis
    by (subst get_loop.simps)
      (simp only: Let_def if_P [OF assms(1)] if_not_P [OF assms(2)] if_P [OF assms(3)] assms(4) st True
        prod.case bool.case not_True_eq_False if_False request.update_convs request.select_convs,
       cases sok; simp)
next
  case False
  then show ?thesis
    by (subst get_loop.simps)
      (simp only: Let_def if_P [OF assms(1)] if_not_P [OF assms(2)] if_P [OF assms(3)] assms(4) prod.case
        bool.case if_True not_False_eq_True)
qed

lemma get_loop_stop:
  assumes "byte_offset r < bytes r" and "next_len fs r \<noteq> 0" and "\<not> a14_due sp sent (next_len fs r)"
    and "bounded (sp_policy sp) \<and> next_len fs r > left" and "flush b c = (fok, fb, c1)"
  shows "get_loop fs sp p r c b sent left =
    (if fok then (PREEMPTED, if sp_policy sp = RR
       then r\<lparr>forfeited_bytes := u64_add (forfeited_bytes r) left\<rparr> else r\<lparr>deficit := left\<rparr>, c1, [])
     else (FAILED, r, c1, []))"
  by (subst get_loop.simps, cases fok)
    (simp_all only: Let_def if_P [OF assms(1)] if_not_P [OF assms(2)] if_not_P [OF assms(3)]
      if_P [OF assms(4)] assms(5) prod.case bool.case if_True if_False)

lemma get_loop_line:
  assumes "byte_offset r < bytes r" and "next_len fs r \<noteq> 0" and "\<not> a14_due sp sent (next_len fs r)"
    and "\<not> (bounded (sp_policy sp) \<and> next_len fs r > left)"
    and "emit_line fs (file_fd r) (byte_offset r) (next_len fs r) p b c = (eok, b1, c1)"
  shows "get_loop fs sp p r c b sent left =
    (if eok then get_loop fs sp p (r\<lparr>byte_offset := byte_offset r + next_len fs r\<rparr>) c1 b1
         (sent + next_len fs r) (if bounded (sp_policy sp) then left - next_len fs r else left)
     else (FAILED, r, c1, []))"
  by (subst get_loop.simps, cases eok)
    (simp_all only: Let_def if_P [OF assms(1)] if_not_P [OF assms(2)] if_not_P [OF assms(3)]
      if_not_P [OF assms(4)] assms(5) prod.case bool.case if_True if_False)

lemma get_loop_safe:
  "get_loop fs sp p r c b sent left = (res, r', c', log) \<Longrightarrow> file_view fs r data \<Longrightarrow>
   byte_offset r \<le> bytes r \<Longrightarrow>
     delivers c c' (bdata b @ drop (byte_offset r) data) (res \<noteq> FAILED)
       (bdata b @ range_of data (byte_offset r) (byte_offset r' - byte_offset r)) \<and>
     byte_offset r \<le> byte_offset r' \<and> byte_offset r' \<le> bytes r \<and> resumed r r' \<and>
     (res = DONE \<longrightarrow> byte_offset r' = bytes r) \<and> (res = PREEMPTED \<longrightarrow> byte_offset r' < bytes r) \<and>
     (round_ok c fs r \<longrightarrow> res \<noteq> FAILED)"
proof (induction fs sp p r c b sent left arbitrary: res r' c' log rule: get_loop.induct)
  case (1 fs sp p r c b sent left)
  note view = "1.prems"(2)
  let ?off = "byte_offset r"
  let ?len = "next_len fs r"
  obtain fok fb c1 where fl: "flush b c = (fok, fb, c1)" by (cases "flush b c")
  note fl_spec = flush_delivers [OF fl]
  have pend: "prefix (bdata b) (bdata b @ drop ?off data)" by simp
  consider (fin) "\<not> ?off < bytes r" | (zero) "?off < bytes r" "?len = 0"
    | (a14) "?off < bytes r" "?len \<noteq> 0" "a14_due sp sent ?len"
    | (stop) "?off < bytes r" "?len \<noteq> 0" "\<not> a14_due sp sent ?len" "bounded (sp_policy sp) \<and> ?len > left"
    | (line) "?off < bytes r" "?len \<noteq> 0" "\<not> a14_due sp sent ?len" "\<not> (bounded (sp_policy sp) \<and> ?len > left)"
    by blast
  then show ?case
  proof cases
    case fin
    note eq = get_loop_fin [OF fin fl, of fs sp p sent left]
    then have "res = (if fok then DONE else FAILED)" "c' = c1" "byte_offset r' = ?off" "resumed r r'"
      using "1.prems"(1) eq by (auto split: if_splits)
    moreover from this have "delivers c c1 (bdata b @ drop ?off data) (res \<noteq> FAILED) (bdata b)"
      by (intro delivers_weaken [OF fl_spec(2) pend]) (auto split: if_splits)
    ultimately show ?thesis
      using fl_spec(3) fin "1.prems"(3) by (auto simp: round_ok_def)
  next
    case zero
    with "1.prems"(1) have "(res, r', c') = (FAILED, r, c)" by (simp add: get_loop_zero)
    moreover have "\<not> reads_ok fs (file_fd r)"
      using line_length_at_spec [OF view, of ?off] zero file_view_length [OF view] by auto
    ultimately show ?thesis using "1.prems"(3) by (auto simp: delivers_def round_ok_def)
  next
    case a14
    note len = next_line_length [OF view a14(1,2)]
    obtain sok c2 where st: "stream_range fs (file_fd r) ?off ?len c1 = (sok, c2)"
      by (cases "stream_range fs (file_fd r) ?off ?len c1")
    note eq = get_loop_a14 [OF a14 fl st, of p left]
    show ?thesis
    proof (cases "fok = True")
      case False
      with eq "1.prems"(1) have "(res, r', c') = (FAILED, r, c1)" by simp
      moreover from this have "delivers c c1 (bdata b @ drop ?off data) (res \<noteq> FAILED) (bdata b)"
        by (intro delivers_weaken [OF fl_spec(2) pend]) auto
      ultimately show ?thesis
        using fl_spec(3) False "1.prems"(3) by (auto simp: round_ok_def)
    next
      case True
      note st_spec = stream_delivers [OF view len(2) st]
      have d: "delivers c c2 (bdata b @ range_of data ?off ?len) sok (bdata b @ range_of data ?off ?len)"
        using delivers_trans [OF fl_spec(2) [unfolded True] st_spec(1)] .
      have pre: "prefix (bdata b @ range_of data ?off ?len) (bdata b @ drop ?off data)"
        by (simp add: range_prefix_drop)
      from eq True "1.prems"(1)
      have eqs: "res = (if \<not> sok then FAILED else if ?off + ?len \<ge> bytes r then DONE else PREEMPTED)"
        "c' = c2" "resumed r r'" "byte_offset r' = (if sok then ?off + ?len else ?off)"
        by (auto split: if_splits)
      then have "delivers c c2 (bdata b @ drop ?off data) (res \<noteq> FAILED)
          (bdata b @ range_of data ?off (byte_offset r' - ?off))"
        by (intro delivers_weaken [OF d pre]) (auto split: if_splits)
      with eqs st_spec(2) fl_spec(2) len(2) "1.prems"(3) show ?thesis
        by (auto simp: round_ok_def delivers_def split: if_splits)
    qed
  next
    case stop
    note eq = get_loop_stop [OF stop fl, of p]
    with "1.prems"(1) eq have "res = (if fok then PREEMPTED else FAILED)" "c' = c1" "resumed r r'"
      "byte_offset r' = ?off"
      by (auto split: if_splits)
    moreover from this have "delivers c c1 (bdata b @ drop ?off data) (res \<noteq> FAILED) (bdata b)"
      by (intro delivers_weaken [OF fl_spec(2) pend]) (auto split: if_splits)
    ultimately show ?thesis
      using fl_spec(3) stop(1) "1.prems"(3) by (auto simp: round_ok_def)
  next
    case line
    note len = next_line_length [OF view line(1,2)]
    obtain eok b1 c1 where em: "emit_line fs (file_fd r) ?off ?len p b c = (eok, b1, c1)"
      by (cases "emit_line fs (file_fd r) ?off ?len p b c")
    from emit_line_spec [OF view len(2) em] obtain out1
      where d1: "delivers c c1 (bdata b @ range_of data ?off ?len) eok out1"
        and b1: "eok \<longrightarrow> out1 @ bdata b1 = bdata b @ range_of data ?off ?len"
        and ok1: "sends_ok c \<longrightarrow> reads_ok fs (file_fd r) \<longrightarrow> eok" by blast
    show ?thesis
    proof (cases "eok = True")
      case False
      with "1.prems"(1) have "(res, r', c') = (FAILED, r, c1)"
        using get_loop_line [OF line em] by simp
      moreover from this have "delivers c c1 (bdata b @ drop ?off data) (res \<noteq> FAILED) (bdata b)"
        by (intro delivers_weaken [OF d1]) (auto simp: range_prefix_drop)
      ultimately show ?thesis
        using ok1 False "1.prems"(3) by (auto simp: round_ok_def)
    next
      case eok: True
      let ?r1 = "r\<lparr>byte_offset := ?off + ?len\<rparr>"
      let ?left1 = "if bounded (sp_policy sp) then left - ?len else left"
      have run: "get_loop fs sp p ?r1 c1 b1 (sent + ?len) ?left1 = (res, r', c', log)"
        using "1.prems"(1) get_loop_line [OF line em] eok by simp
      have IH: "delivers c1 c' (bdata b1 @ drop (?off + ?len) data) (res \<noteq> FAILED)
           (bdata b1 @ range_of data (?off + ?len) (byte_offset r' - (?off + ?len)))"
        and mono: "?off + ?len \<le> byte_offset r'" "byte_offset r' \<le> bytes r" "resumed ?r1 r'"
        and res: "res = DONE \<longrightarrow> byte_offset r' = bytes r" "res = PREEMPTED \<longrightarrow> byte_offset r' < bytes r"
          "round_ok c1 fs r \<longrightarrow> res \<noteq> FAILED"
        using "1.IH" [OF line(1) refl line(2,3,4) em [symmetric] eok refl run] view len(2)
        by (simp_all add: file_view_def round_ok_def)
      have "out1 @ bdata b1 @ drop (?off + ?len) data = bdata b @ drop ?off data"
        using b1 eok range_of_drop [of data ?off ?len] by (metis append.assoc)
      moreover have "range_of data ?off ?len @ range_of data (?off + ?len) (byte_offset r' - (?off + ?len)) =
          range_of data ?off (byte_offset r' - ?off)"
        using mono(1) range_of_append [of data ?off ?len "byte_offset r' - (?off + ?len)"] by simp
      then have "out1 @ bdata b1 @ range_of data (?off + ?len) (byte_offset r' - (?off + ?len)) =
          bdata b @ range_of data ?off (byte_offset r' - ?off)"
        using b1 eok by (metis append.assoc)
      ultimately have "delivers c c' (bdata b @ drop ?off data) (res \<noteq> FAILED)
          (bdata b @ range_of data ?off (byte_offset r' - ?off))"
        using delivers_trans [OF d1 [unfolded eok] IH] by simp
      moreover have "resumed r r'" using resumed_trans [of r ?r1 r'] mono(3) by simp
      ultimately show ?thesis
        using mono res d1 eok by (auto simp: round_ok_def delivers_def)
    qed
  qed
qed

section \<open>The line loop against the lines of the file\<close>

text \<open>
  The reference: of the lines that are left, the longest run of whole lines that fits the allowance
  (all of them when the policy is not bounded).
\<close>

fun fitting :: "bool \<Rightarrow> nat \<Rightarrow> string list \<Rightarrow> string list" where
  "fitting bnd left [] = []"
| "fitting bnd left (l # ls) =
     (if bnd \<and> length l > left then []
      else l # fitting bnd (if bnd then left - length l else left) ls)"

lemma fitting_unbounded: "fitting False left ls = ls"
  by (induction ls) simp_all

abbreviation left_lines :: "request \<Rightarrow> string \<Rightarrow> string list" where
  "left_lines r data \<equiv> split_lines (drop (byte_offset r) data)"

lemma left_lines_step:
  assumes "file_view fs r data" and "byte_offset r < bytes r" and "next_len fs r \<noteq> 0"
  obtains l where "left_lines r data = l # left_lines (r\<lparr>byte_offset := byte_offset r + next_len fs r\<rparr>) data"
    "length l = next_len fs r" "l = range_of data (byte_offset r) (next_len fs r)"
proof
  let ?l = "first_line (drop (byte_offset r) data)"
  have ne: "drop (byte_offset r) data \<noteq> []" using assms(2) file_view_length [OF assms(1)] by simp
  note len = next_line_length(1) [OF assms]
  show "left_lines r data = ?l # left_lines (r\<lparr>byte_offset := byte_offset r + next_len fs r\<rparr>) data"
    using split_lines_nonempty [OF ne] len by (simp add: add.commute)
  show "length ?l = next_len fs r" using len by simp
  show "?l = range_of data (byte_offset r) (next_len fs r)"
    using first_line_prefix [of "drop (byte_offset r) data"] len by (simp add: range_of_def)
qed

lemma left_lines_end: "file_view fs r data \<Longrightarrow> \<not> byte_offset r < bytes r \<Longrightarrow> left_lines r data = []"
  using file_view_length [of fs r data] by simp

lemma get_loop_exact:
  "get_loop fs sp p r c b sent left = (res, r', c', log) \<Longrightarrow> file_view fs r data \<Longrightarrow>
   byte_offset r \<le> bytes r \<Longrightarrow> res \<noteq> FAILED \<Longrightarrow>
   (\<forall>l ls. left_lines r data = l # ls \<longrightarrow> \<not> a14_due sp sent (length l)) \<Longrightarrow>
     (let pre = fitting (bounded (sp_policy sp)) left (left_lines r data); n = length (concat pre) in
      log = [] \<and> byte_offset r' = byte_offset r + n \<and>
      res = (if pre = left_lines r data then DONE else PREEMPTED) \<and>
      deficit r' = (if res = DONE then 0 else if sp_policy sp = RR then deficit r else left - n) \<and>
      forfeited_bytes r' = (if res = PREEMPTED \<and> sp_policy sp = RR
         then u64_add (forfeited_bytes r) (left - n) else forfeited_bytes r))"
proof (induction fs sp p r c b sent left arbitrary: res r' c' log rule: get_loop.induct)
  case (1 fs sp p r c b sent left)
  note view = "1.prems"(2)
  let ?len = "next_len fs r" and ?bnd = "bounded (sp_policy sp)"
  obtain fok fb c1 where fl: "flush b c = (fok, fb, c1)" by (cases "flush b c")
  consider (fin) "\<not> byte_offset r < bytes r" | (zero) "byte_offset r < bytes r" "?len = 0"
    | (more) "byte_offset r < bytes r" "?len \<noteq> 0" by blast
  then show ?case
  proof cases
    case fin
    with "1.prems"(1,4) get_loop_fin [OF fin fl, of fs sp p sent left] left_lines_end [OF view fin]
    show ?thesis by (auto split: if_splits)
  next
    case zero
    with "1.prems"(1,4) get_loop_zero [OF zero] show ?thesis by simp
  next
    case more
    let ?r1 = "r\<lparr>byte_offset := byte_offset r + ?len\<rparr>"
    from left_lines_step [OF view more] obtain l
      where l: "left_lines r data = l # left_lines ?r1 data" "length l = ?len" by metis
    have no_a14: "\<not> a14_due sp sent ?len" using "1.prems"(5) l by auto
    show ?thesis
    proof (cases "?bnd \<and> ?len > left")
      case True
      then have "sp_policy sp \<noteq> RR \<Longrightarrow> sp_policy sp = DRR" by (auto simp: bounded_def)
      with get_loop_stop [OF more no_a14 True fl, of p] "1.prems"(1,4) l True show ?thesis
        by (auto split: if_splits)
    next
      case fits: False
      obtain eok b1 c2 where em: "emit_line fs (file_fd r) (byte_offset r) ?len p b c = (eok, b1, c2)"
        by (cases "emit_line fs (file_fd r) (byte_offset r) ?len p b c")
      note eq = get_loop_line [OF more no_a14 fits em]
      with "1.prems"(1,4) have eok: "eok = True" by (cases eok) auto
      let ?left1 = "if ?bnd then left - ?len else left"
      from eq eok "1.prems"(1) have run: "get_loop fs sp p ?r1 c2 b1 (sent + ?len) ?left1 = (res, r', c', log)"
        by simp
      have view1: "file_view fs ?r1 data" using view by (simp add: file_view_def)
      have le1: "byte_offset ?r1 \<le> bytes ?r1" using next_line_length(2) [OF view more] by simp
      have no1: "\<forall>l ls. left_lines ?r1 data = l # ls \<longrightarrow> \<not> a14_due sp (sent + ?len) (length l)"
        using more(2) by simp
      note IH = "1.IH" [OF more(1) refl more(2) no_a14 fits em [symmetric] eok refl run view1 le1 "1.prems"(4) no1]
      define lines1 where "lines1 = left_lines ?r1 data"
      define pre1 where "pre1 = fitting ?bnd ?left1 lines1"
      have l1: "left_lines r data = l # lines1" using l(1) by (simp only: lines1_def)
      have fit: "fitting ?bnd left (l # lines1) = l # pre1"
        using fits l(2) by (auto simp: pre1_def)
      note IH' = IH [unfolded Let_def, folded lines1_def, folded pre1_def, simplified]
      have left1: "?left1 - length (concat pre1) = left - length (concat (l # pre1))" if "?bnd"
        using that l(2) by simp
      have unb: "pre1 = lines1" if "\<not> ?bnd"
        using that by (simp add: pre1_def fitting_unbounded)
      show ?thesis
      proof (cases "pre1 = lines1")
        case True
        with IH' show ?thesis unfolding l1 fit Let_def by (simp add: l(2) del: fitting.simps)
      next
        case False
        with unb have "?bnd" by blast
        with False IH' left1 show ?thesis
          unfolding l1 fit Let_def by (simp add: l(2) del: fitting.simps)
      qed
    qed
  qed
qed

lemma get_loop_exact_a14:
  assumes "get_loop fs sp p r c b sent left = (res, r', c', log)" and "file_view fs r data"
    and "res \<noteq> FAILED" and "left_lines r data = l # ls" and "a14_due sp sent (length l)"
  shows "log = [log_a14_fire (rid r) (filename r) (length l) (quantum sp)]"
    and "r' = r\<lparr>byte_offset := byte_offset r + length l\<rparr>"
    and "res = (if ls = [] then DONE else PREEMPTED)"
proof -
  have lt: "byte_offset r < bytes r"
    using assms(4) left_lines_end [OF assms(2)] by force
  have nz: "next_len fs r \<noteq> 0"
  proof
    assume "next_len fs r = 0"
    with assms(1,3) get_loop_zero [OF lt this, of sp p c b sent left] show False by simp
  qed
  from left_lines_step [OF assms(2) lt nz] obtain l'
    where l': "left_lines r data = l' # left_lines (r\<lparr>byte_offset := byte_offset r + next_len fs r\<rparr>) data"
      "length l' = next_len fs r" by metis
  then have len: "length l = next_len fs r" and ls: "ls = split_lines (drop (byte_offset r + next_len fs r) data)"
    using assms(4) by simp_all
  obtain fok fb c1 where fl: "flush b c = (fok, fb, c1)" by (cases "flush b c")
  obtain sok c2 where st: "stream_range fs (file_fd r) (byte_offset r) (next_len fs r) c1 = (sok, c2)"
    by (cases "stream_range fs (file_fd r) (byte_offset r) (next_len fs r) c1")
  note eq = get_loop_a14 [OF lt nz assms(5) [unfolded len] fl st, of p left]
  have "ls = [] \<longleftrightarrow> bytes r \<le> byte_offset r + next_len fs r"
    using file_view_length [OF assms(2)] unfolding ls by (subst split_lines.simps) auto
  with eq assms(1,3) len
  show "log = [log_a14_fire (rid r) (filename r) (length l) (quantum sp)]"
    "r' = r\<lparr>byte_offset := byte_offset r + length l\<rparr>" "res = (if ls = [] then DONE else PREEMPTED)"
    by (auto split: if_splits)
qed

end
