(* ===== verification/Slice_Rounds.thy ===== *)
theory Slice_Rounds
  imports Slice_Get
begin

text \<open>
  What the rounds of a GET add up to: \<open>serve_get\<close> composed over the life of a request. The reference
  is the whole response, \<open>OK <size>\<close> followed by the file; the policies differ in how many of its
  lines one round sends and in how they account for the rest of the allowance.
\<close>

section \<open>The response and how much of it the client has\<close>

definition response :: "string \<Rightarrow> string" where
  "response data = format_ok (length data) @ data"

definition answered :: "request \<Rightarrow> string \<Rightarrow> string" where
  "answered r data = (if started r then format_ok (bytes r) @ take (byte_offset r) data else [])"

definition get_inv :: "fsys \<Rightarrow> request \<Rightarrow> string \<Rightarrow> bool" where
  "get_inv fs r data \<longleftrightarrow>
     file_view fs r data \<and> byte_offset r \<le> bytes r \<and> (started r \<or> byte_offset r = 0)"

lemma response_split:
  "file_view fs r data \<Longrightarrow>
     response data = format_ok (bytes r) @ take (byte_offset r) data @ drop (byte_offset r) data"
  using file_view_length [of fs r data] by (simp add: response_def)

abbreviation begun :: "request \<Rightarrow> request" where
  "begun r \<equiv> r\<lparr>rounds := Suc (rounds r), started := True\<rparr>"

abbreviation header_of :: "request \<Rightarrow> string" where
  "header_of r \<equiv> (if started r then [] else format_ok (bytes r))"

abbreviation lines_per_send :: "slice_params \<Rightarrow> nat" where
  "lines_per_send sp \<equiv> nat (max 1 (p_lines sp))"

lemma get_allowance_begun [simp]: "get_allowance sp (begun r) = get_allowance sp r"
  by (simp add: get_allowance_def)

text \<open>A round is the header, on the first one, and the line loop.\<close>

lemma serve_get_cases:
  assumes "serve_get fs r c sp = (res, r', c', log)"
  obtains
    (header) "send_all (header_of r) c = (False, c')" "res = FAILED" "\<not> started r"
  | (loop) c1 where "send_all (header_of r) c = (True, c1)"
      "get_loop fs sp (lines_per_send sp) (begun r) c1 empty_batch 0 (get_allowance sp r) = (res, r', c', log)"
proof -
  obtain b c1 where snd: "send_all (header_of r) c = (b, c1)" by (cases "send_all (header_of r) c")
  then have "(if \<not> started r then send_all (format_ok (bytes r)) c else (True, c)) = (b, c1)"
    by (cases "started r") simp_all
  with snd assms show ?thesis
    by (cases b; cases "started r"; intro header loop [of c1])
      (auto simp: serve_get_def Let_def)
qed

lemma file_view_begun [simp]: "file_view fs (begun r) data = file_view fs r data"
  by (rule file_view_frame) simp_all

lemma serve_get_safe:
  assumes run: "serve_get fs r c sp = (res, r', c', log)" and inv: "get_inv fs r data"
    and ans: "wire c = answered r data"
  shows "prefix (wire c') (response data)"
    and "inbox c' = inbox c"
    and "res \<noteq> FAILED \<longrightarrow> get_inv fs r' data \<and> wire c' = answered r' data \<and> resumed (begun r) r'"
    and "res = DONE \<longrightarrow> byte_offset r' = bytes r" and "res = PREEMPTED \<longrightarrow> byte_offset r' < bytes r"
    and "round_ok c fs r \<longrightarrow> res \<noteq> FAILED \<and> sends_ok c'"
proof -
  have view: "file_view fs r data" and off: "byte_offset r \<le> bytes r"
    and fresh: "\<not> started r \<Longrightarrow> byte_offset r = 0" using inv by (auto simp: get_inv_def)
  have hdr: "wire c @ header_of r = format_ok (bytes r) @ take (byte_offset r) data"
    using ans fresh by (simp add: answered_def)
  have "prefix (wire c') (response data) \<and> inbox c' = inbox c \<and>
    (res \<noteq> FAILED \<longrightarrow> get_inv fs r' data \<and> wire c' = answered r' data \<and> resumed (begun r) r') \<and>
    (res = DONE \<longrightarrow> byte_offset r' = bytes r) \<and> (res = PREEMPTED \<longrightarrow> byte_offset r' < bytes r) \<and>
    (round_ok c fs r \<longrightarrow> res \<noteq> FAILED \<and> sends_ok c')"
    using run
  proof (cases rule: serve_get_cases)
    case header
    note eff = send.loop_effect [OF header(1)]
    from eff obtain got where got: "wire c' = wire c @ got" "prefix got (header_of r)"
      by (auto simp: take_is_prefix)
    then have "prefix (wire c') (wire c @ header_of r)" by simp
    then have "prefix (wire c') (response data)"
      unfolding hdr response_split [OF view]
      by (metis append.assoc prefix_append)
    with header eff show ?thesis by (auto simp: round_ok_def)
  next
    case (loop c1)
    note eff = send.loop_effect [OF loop(1)]
    have w1: "wire c1 = format_ok (bytes r) @ take (byte_offset r) data" "inbox c1 = inbox c"
      "sends_ok c \<longrightarrow> sends_ok c1"
      using eff hdr by simp_all
    from get_loop_safe [OF loop(2), of data] view off
    have d: "delivers c1 c' (drop (byte_offset r) data) (res \<noteq> FAILED)
         (range_of data (byte_offset r) (byte_offset r' - byte_offset r))"
      and mono: "byte_offset r \<le> byte_offset r'" "byte_offset r' \<le> bytes r"
      and res: "resumed (begun r) r'" "res = DONE \<longrightarrow> byte_offset r' = bytes r"
        "res = PREEMPTED \<longrightarrow> byte_offset r' < bytes r" "round_ok c1 fs r \<longrightarrow> res \<noteq> FAILED"
      by (simp_all add: empty_batch_def round_ok_def)
    from d obtain got where got: "wire c' = wire c1 @ got" "prefix got (drop (byte_offset r) data)"
      "res \<noteq> FAILED \<longrightarrow> got = range_of data (byte_offset r) (byte_offset r' - byte_offset r)"
      "inbox c' = inbox c1" "sends_ok c1 \<longrightarrow> sends_ok c'"
      by (auto simp: delivers_def)
    have "prefix (wire c') (response data)"
      unfolding response_split [OF view] got(1) w1(1) using got(2)
      by (simp only: append_assoc same_prefix_prefix)
    moreover have "take (byte_offset r) data @ range_of data (byte_offset r) (byte_offset r' - byte_offset r)
        = take (byte_offset r') data"
      using mono(1) by (simp add: range_of_def flip: take_add)
    then have "res \<noteq> FAILED \<longrightarrow> wire c' = answered r' data"
      using got(1,3) w1(1) resumed_fields [OF res(1)] by (simp add: answered_def)
    moreover have "get_inv fs r' data"
      using view mono resumed_fields [OF res(1)] by (simp add: get_inv_def file_view_def)
    ultimately show ?thesis
      using got(4,5) w1 res by (auto simp: round_ok_def)
  qed
  then show "prefix (wire c') (response data)" "inbox c' = inbox c"
    "res \<noteq> FAILED \<longrightarrow> get_inv fs r' data \<and> wire c' = answered r' data \<and> resumed (begun r) r'"
    "res = DONE \<longrightarrow> byte_offset r' = bytes r" "res = PREEMPTED \<longrightarrow> byte_offset r' < bytes r"
    "round_ok c fs r \<longrightarrow> res \<noteq> FAILED \<and> sends_ok c'" by blast+
qed

section \<open>Which lines a round sends\<close>

text \<open>
  The reference for one round: a single line when the round starts at one longer than the quantum
  (round robin only), otherwise the longest run of whole lines within the allowance.
\<close>

definition a14_round :: "slice_params \<Rightarrow> string list \<Rightarrow> bool" where
  "a14_round sp ls \<longleftrightarrow> sp_policy sp = RR \<and> ls \<noteq> [] \<and> quantum sp < length (hd ls)"

definition round_lines :: "slice_params \<Rightarrow> nat \<Rightarrow> string list \<Rightarrow> string list" where
  "round_lines sp allowance ls =
     (if a14_round sp ls then [hd ls] else fitting (bounded (sp_policy sp)) allowance ls)"

lemma fitting_prefix: "prefix (fitting bnd left ls) ls"
  by (induction bnd left ls rule: fitting.induct) auto

lemma fitting_fits: "bnd \<Longrightarrow> length (concat (fitting bnd left ls)) \<le> left"
  by (induction bnd left ls rule: fitting.induct) auto

lemma fitting_all_iff: "fitting True left ls = ls \<longleftrightarrow> length (concat ls) \<le> left"
  by (induction True left ls rule: fitting.induct) auto

text \<open>The first line left out is the one that no longer fits.\<close>

lemma fitting_maximal:
  "fitting bnd left ls \<noteq> ls \<Longrightarrow>
     \<exists>l rest. ls = fitting bnd left ls @ l # rest \<and> left < length (concat (fitting bnd left ls)) + length l"
  by (induction bnd left ls rule: fitting.induct) (auto split: if_splits)

lemma round_lines_prefix: "prefix (round_lines sp a ls) ls"
  by (cases ls) (auto simp: round_lines_def a14_round_def fitting_prefix)

lemma split_lines_drop:
  "prefix pre (split_lines s) \<Longrightarrow>
     split_lines (drop (length (concat pre)) s) = drop (length pre) (split_lines s)"
proof (induction s arbitrary: pre rule: split_lines.induct)
  case (1 s)
  show ?case
  proof (cases pre)
    case (Cons l ls)
    with "1.prems" have ne: "s \<noteq> []" by auto
    have sp: "split_lines s = first_line s # split_lines (drop (length (first_line s)) s)"
      using ne by (rule split_lines_nonempty)
    with Cons "1.prems" have "l = first_line s" "prefix ls (split_lines (drop (length (first_line s)) s))"
      by auto
    with "1.IH" [OF ne, of ls] Cons show ?thesis
      by (simp add: sp add.commute)
  qed simp
qed

lemma serve_get_round:
  assumes run: "serve_get fs r c sp = (res, r', c', log)" and inv: "get_inv fs r data"
    and ans: "wire c = answered r data" and ok: "res \<noteq> FAILED"
  defines "ls \<equiv> split_lines (drop (byte_offset r) data)"
  defines "snt \<equiv> round_lines sp (get_allowance sp r) ls"
  shows "wire c' = wire c @ header_of r @ concat snt"
    and "byte_offset r' = byte_offset r + length (concat snt)"
    and "split_lines (drop (byte_offset r') data) = drop (length snt) ls"
    and "res = (if snt = ls then DONE else PREEMPTED)"
    and "log = (if a14_round sp ls
           then [log_a14_fire (rid r) (filename r) (length (hd ls)) (quantum sp)] else [])"
    and "deficit r' = (if a14_round sp ls then deficit r else if snt = ls then 0
           else if sp_policy sp = RR then deficit r
           else get_allowance sp r - length (concat snt))"
    and "forfeited_bytes r' = (if \<not> a14_round sp ls \<and> snt \<noteq> ls \<and> sp_policy sp = RR
           then u64_add (forfeited_bytes r) (get_allowance sp r - length (concat snt))
           else forfeited_bytes r)"
proof -
  note safe = serve_get_safe [OF run inv ans]
  have view: "file_view fs r data" and off: "byte_offset r \<le> bytes r"
    using inv by (auto simp: get_inv_def)
  from run ok obtain c1 where hdr: "send_all (header_of r) c = (True, c1)"
    and loop: "get_loop fs sp (lines_per_send sp) (begun r) c1 empty_batch 0 (get_allowance sp r)
      = (res, r', c', log)"
    by (cases rule: serve_get_cases) auto
  have facts: "byte_offset r' = byte_offset r + length (concat snt) \<and>
    res = (if snt = ls then DONE else PREEMPTED) \<and>
    log = (if a14_round sp ls
       then [log_a14_fire (rid r) (filename r) (length (hd ls)) (quantum sp)] else []) \<and>
    deficit r' = (if a14_round sp ls then deficit r else if snt = ls then 0
       else if sp_policy sp = RR then deficit r else get_allowance sp r - length (concat snt)) \<and>
    forfeited_bytes r' = (if \<not> a14_round sp ls \<and> snt \<noteq> ls \<and> sp_policy sp = RR
       then u64_add (forfeited_bytes r) (get_allowance sp r - length (concat snt)) else forfeited_bytes r)"
  proof (cases "a14_round sp ls")
    case True
    then obtain l rest where l: "ls = l # rest" and due: "a14_due sp 0 (length l)"
      by (cases ls) (auto simp: a14_round_def)
    have "left_lines (begun r) data = l # rest" using l by (simp add: ls_def)
    from get_loop_exact_a14 [OF loop _ ok this due] view l True show ?thesis
      by (simp add: snt_def round_lines_def)
  next
    case False
    then have "\<forall>l ls'. left_lines (begun r) data = l # ls' \<longrightarrow> \<not> a14_due sp 0 (length l)"
      by (auto simp: a14_round_def ls_def)
    from get_loop_exact [OF loop _ _ ok this] view off False show ?thesis
      by (auto simp: snt_def round_lines_def Let_def ls_def)
  qed
  then show "byte_offset r' = byte_offset r + length (concat snt)"
    "res = (if snt = ls then DONE else PREEMPTED)"
    "log = (if a14_round sp ls
       then [log_a14_fire (rid r) (filename r) (length (hd ls)) (quantum sp)] else [])"
    "deficit r' = (if a14_round sp ls then deficit r else if snt = ls then 0
       else if sp_policy sp = RR then deficit r else get_allowance sp r - length (concat snt))"
    "forfeited_bytes r' = (if \<not> a14_round sp ls \<and> snt \<noteq> ls \<and> sp_policy sp = RR
       then u64_add (forfeited_bytes r) (get_allowance sp r - length (concat snt)) else forfeited_bytes r)"
    by blast+
  have pre: "prefix snt ls" by (simp add: snt_def round_lines_prefix)
  from split_lines_drop [OF this [unfolded ls_def]]
  show "split_lines (drop (byte_offset r') data) = drop (length snt) ls"
    using facts by (simp add: ls_def add.commute)
  have "concat snt = take (length (concat snt)) (concat ls)"
    using pre by (auto elim!: prefixE)
  then have "concat snt = range_of data (byte_offset r) (length (concat snt))"
    by (simp add: ls_def range_of_def)
  then have tk: "take (byte_offset r) data @ concat snt = take (byte_offset r') data"
    using facts by (metis range_of_def take_add)
  have "wire c @ header_of r = format_ok (bytes r) @ take (byte_offset r) data"
    using ans inv by (auto simp: answered_def get_inv_def)
  moreover have "wire c' = format_ok (bytes r) @ take (byte_offset r') data"
    using safe(3) ok resumed_fields [of "begun r" r'] by (simp add: answered_def)
  ultimately show "wire c' = wire c @ header_of r @ concat snt"
    unfolding tk [symmetric] by (metis append.assoc)
qed

section \<open>Whole requests\<close>

lemma run_get_Suc:
  assumes "rop r = OpGET" and "serve_get fs r c sp = (res, r', c', log)"
  shows "run_rounds (Suc n) r c fs sp =
    (if res = PREEMPTED
     then (case run_rounds n r' c' fs sp of (res2, r2, c2, fs2, log2) \<Rightarrow> (res2, r2, c2, fs2, log @ log2))
     else (res, r', c', fs, log))"
  using assms by (cases res) (simp_all add: serve_slice_def)

text \<open>Everything a round needs to know of the request and the connection, and gives to the next round.\<close>

definition get_state :: "fsys \<Rightarrow> request \<Rightarrow> chan \<Rightarrow> string \<Rightarrow> bool" where
  "get_state fs r c data \<longleftrightarrow> rop r = OpGET \<and> get_inv fs r data \<and> wire c = answered r data"

lemma get_state_round:
  assumes "serve_get fs r c sp = (res, r', c', log)" and "get_state fs r c data" and "res \<noteq> FAILED"
  shows "get_state fs r' c' data" and "rid r' = rid r" "filename r' = filename r" "bytes r' = bytes r"
    "file_fd r' = file_fd r" "rounds r' = Suc (rounds r)" "started r'"
  using serve_get_safe [OF assms(1), of data] assms(2,3) resumed_fields [of "begun r" r']
  by (simp_all add: get_state_def)

lemma get_state_ok:
  assumes "serve_get fs r c sp = (res, r', c', log)" and "get_state fs r c data" and "round_ok c fs r"
  shows "res \<noteq> FAILED" "round_ok c' fs r'"
  using serve_get_safe(6) [OF assms(1), of data] assms(2,3) get_state_round [OF assms(1,2)]
  by (simp_all add: get_state_def round_ok_def)

lemma get_state_done:
  assumes "get_state fs r c data" and "started r" and "byte_offset r = bytes r"
  shows "wire c = response data"
  using assms file_view_length [of fs r data] by (auto simp: get_state_def answered_def get_inv_def response_def)

lemma get_state_prefix: "get_state fs r c data \<Longrightarrow> prefix (wire c) (response data)"
  using response_split [of fs r data]
  by (auto simp: get_state_def answered_def get_inv_def take_is_prefix)

lemma run_get_safe:
  "get_state fs r c data \<Longrightarrow> run_rounds n r c fs sp = (res, r', c', fs', log) \<Longrightarrow>
     prefix (wire c') (response data) \<and> fs' = fs \<and> inbox c' = inbox c \<and>
     (res = DONE \<longrightarrow> wire c' = response data) \<and> (res = PREEMPTED \<longrightarrow> get_state fs r' c' data)"
proof (induction n arbitrary: r c log)
  case 0
  then show ?case by (auto simp: get_state_prefix)
next
  case (Suc n)
  obtain res1 r1 c1 log1 where rd: "serve_get fs r c sp = (res1, r1, c1, log1)"
    by (cases "serve_get fs r c sp")
  note safe = serve_get_safe [OF rd, of data] and run = run_get_Suc [OF _ rd, of n]
  show ?case
  proof (cases "res1 = PREEMPTED")
    case True
    obtain log2 where "run_rounds n r1 c1 fs sp = (res, r', c', fs', log2)"
      using Suc.prems run True by (auto simp: get_state_def split: prod.splits)
    from Suc.IH [OF _ this] get_state_round [OF rd Suc.prems(1)] True safe(2) Suc.prems(1)
    show ?thesis by (simp add: get_state_def)
  next
    case False
    then have "(res, r', c', fs', log) = (res1, r1, c1, fs, log1)"
      using Suc.prems run by (simp add: get_state_def)
    moreover have "wire c1 = response data" if "res1 = DONE"
      using get_state_done [of fs r1 c1 data] get_state_round [OF rd Suc.prems(1)] safe(4) Suc.prems(1) that
      by (simp add: get_state_def)
    ultimately show ?thesis
      using safe(1,2) Suc.prems(1) False by (simp add: get_state_def)
  qed
qed

text \<open>The rounds of a request on a healthy connection, one after the other.\<close>

lemma run_get_ok:
  assumes st: "get_state fs r c data" and ok: "round_ok c fs r"
  obtains r' c' log where
    "serve_get fs r c sp = (if byte_offset r' = bytes r then DONE else PREEMPTED, r', c', log)"
    "get_state fs r' c' data" "round_ok c' fs r'"
    "run_rounds (Suc n) r c fs sp = (if byte_offset r' = bytes r then (DONE, r', c', fs, log)
       else (case run_rounds n r' c' fs sp of (res2, r2, c2, fs2, log2) \<Rightarrow> (res2, r2, c2, fs2, log @ log2)))"
proof -
  obtain res r' c' log where rd: "serve_get fs r c sp = (res, r', c', log)" by (cases "serve_get fs r c sp")
  note ok' = get_state_ok [OF rd st ok]
  have "res = (if byte_offset r' = bytes r then DONE else PREEMPTED)"
    using ok'(1) serve_get_safe(4,5) [OF rd, of data] st by (cases res) (auto simp: get_state_def)
  with rd ok' get_state_round [OF rd st] run_get_Suc [OF _ rd, of n] st
  show thesis by (intro that [of r' c' log]) (auto simp: get_state_def)
qed

text \<open>\<open>get_rest\<close>: the lines a request still has to receive.\<close>

abbreviation get_rest :: "request \<Rightarrow> string \<Rightarrow> string list" where
  "get_rest r data \<equiv> split_lines (drop (byte_offset r) data)"

lemma get_rest_empty: "get_state fs r c data \<Longrightarrow> get_rest r data = [] \<longleftrightarrow> byte_offset r = bytes r"
  using file_view_length [of fs r data] by (auto simp: get_state_def get_inv_def)

lemma get_allowance_RR [simp]: "sp_policy sp = RR \<Longrightarrow> get_allowance sp r = quantum sp"
  by (simp add: get_allowance_def)

lemma round_lines_RR:
  assumes "sp_policy sp = RR" and "\<forall>l \<in> set ls. l \<noteq> []" and "ls \<noteq> []"
  shows "round_lines sp (quantum sp) ls \<noteq> []"
    and "filter (\<lambda>l. quantum sp < length l) (round_lines sp (quantum sp) ls) =
      (if a14_round sp ls then [hd ls] else [])"
proof -
  from assms(3) obtain l rest where ls: "ls = l # rest" by (cases ls) auto
  show "round_lines sp (quantum sp) ls \<noteq> []"
    using assms by (auto simp: round_lines_def a14_round_def ls)
  show "filter (\<lambda>l. quantum sp < length l) (round_lines sp (quantum sp) ls) =
      (if a14_round sp ls then [hd ls] else [])"
  proof (cases "a14_round sp ls")
    case True
    then show ?thesis by (simp add: round_lines_def a14_round_def)
  next
    case False
    have "length l \<le> quantum sp" if "l \<in> set (fitting True (quantum sp) ls)" for l
      using length_le_concat [OF that] fitting_fits [of True "quantum sp" ls] by simp
    with False assms(1) show ?thesis
      by (auto simp: round_lines_def filter_empty_conv not_less)
  qed
qed

text \<open>Round robin: every round sends a line, and the log is the file's long lines.\<close>

lemma run_get_rr:
  "get_state fs r c data \<Longrightarrow> round_ok c fs r \<Longrightarrow> sp_policy sp = RR \<Longrightarrow>
   length (get_rest r data) \<le> n \<Longrightarrow> 0 < n \<Longrightarrow> run_rounds n r c fs sp = (res, r', c', fs', log) \<Longrightarrow>
     res = DONE \<and> rounds r' \<le> rounds r + max 1 (length (get_rest r data)) \<and>
     log = map (\<lambda>l. log_a14_fire (rid r) (filename r) (length l) (quantum sp))
             (filter (\<lambda>l. quantum sp < length l) (get_rest r data))"
proof (induction n arbitrary: r c log)
  case (Suc n)
  note st = Suc.prems(1) and ok = Suc.prems(2)
  let ?ls = "get_rest r data" and ?long = "filter (\<lambda>l. quantum sp < length l)"
  let ?snt = "round_lines sp (quantum sp) ?ls"
  from run_get_ok [OF st ok, of sp n] obtain r1 c1 log1 where
    rd: "serve_get fs r c sp = (if byte_offset r1 = bytes r then DONE else PREEMPTED, r1, c1, log1)"
    and st1: "get_state fs r1 c1 data" and ok1: "round_ok c1 fs r1"
    and fin: "run_rounds (Suc n) r c fs sp = (if byte_offset r1 = bytes r then (DONE, r1, c1, fs, log1)
       else (case run_rounds n r1 c1 fs sp of (res2, r2, c2, fs2, log2) \<Rightarrow> (res2, r2, c2, fs2, log1 @ log2)))" .
  note same = get_state_round [OF rd st]
  have "get_inv fs r data" "wire c = answered r data" using st by (simp_all add: get_state_def)
  note round = serve_get_round [OF rd this]
  have rest: "get_rest r1 data = drop (length ?snt) ?ls" using round(3) Suc.prems(3) by simp
  have log1: "log1 = map (\<lambda>l. log_a14_fire (rid r) (filename r) (length l) (quantum sp)) (?long ?snt)"
    using round(5) Suc.prems(3) round_lines_RR(2) [of sp ?ls] split_lines_elem
    by (cases "?ls = []") (auto simp: round_lines_def a14_round_def)
  have split: "?ls = ?snt @ get_rest r1 data"
    unfolding rest using round_lines_prefix [of sp "quantum sp" ?ls]
    by (metis append_eq_conv_conj prefixE)
  show ?case
  proof (cases "byte_offset r1 = bytes r")
    case True
    then have "?snt = ?ls" using split get_rest_empty [OF st1] same(4) by simp
    with fin Suc.prems(6) log1 same(6) True show ?thesis by simp
  next
    case False
    then have ne: "get_rest r1 data \<noteq> []" using get_rest_empty [OF st1] same(4) by simp
    then have "?snt \<noteq> []" using split round_lines_RR(1) [of sp ?ls] Suc.prems(3) split_lines_elem
      by (metis append_self_conv2 append_is_Nil_conv)
    then have len: "length ?ls \<ge> Suc (length (get_rest r1 data))"
      using arg_cong [OF split, of length] by (simp add: Suc_le_eq)
    obtain log2 where run: "run_rounds n r1 c1 fs sp = (res, r', c', fs', log2)" and log: "log = log1 @ log2"
      using fin False Suc.prems(6) by (auto split: prod.splits)
    have "0 < length (get_rest r1 data)" using ne by (rule length_greater_0_conv [THEN iffD2])
    then have "0 < n" using len Suc.prems(4) by linarith
    from Suc.IH [OF st1 ok1 Suc.prems(3) _ this run] len Suc.prems(4)
    have IH: "res = DONE" "rounds r' \<le> rounds r1 + max 1 (length (get_rest r1 data))"
      "log2 = map (\<lambda>l. log_a14_fire (rid r) (filename r) (length l) (quantum sp)) (?long (get_rest r1 data))"
      using same by simp_all
    have "log = map (\<lambda>l. log_a14_fire (rid r) (filename r) (length l) (quantum sp)) (?long (?snt @ get_rest r1 data))"
      using log log1 IH(3) by simp
    moreover have "rounds r' \<le> rounds r + max 1 (length ?ls)"
      using IH(2) len same(6) False ne by (cases "get_rest r1 data") auto
    ultimately show ?thesis using IH(1) by (simp flip: split)
  qed
qed simp

text \<open>An unbounded policy sends the whole file in its only round.\<close>

lemma run_get_unbounded:
  assumes st: "get_state fs r c data" and ok: "round_ok c fs r" and pol: "\<not> bounded (sp_policy sp)"
    and run: "run_rounds (Suc n) r c fs sp = (res, r', c', fs', log)"
  shows "res = DONE \<and> rounds r' = Suc (rounds r) \<and> log = [] \<and> forfeited_bytes r' = forfeited_bytes r"
proof -
  from run_get_ok [OF st ok, of sp n] obtain r1 c1 log1 where
    rd: "serve_get fs r c sp = (if byte_offset r1 = bytes r then DONE else PREEMPTED, r1, c1, log1)"
    and "get_state fs r1 c1 data" "round_ok c1 fs r1"
    and fin: "run_rounds (Suc n) r c fs sp = (if byte_offset r1 = bytes r then (DONE, r1, c1, fs, log1)
       else (case run_rounds n r1 c1 fs sp of (res2, r2, c2, fs2, log2) \<Rightarrow> (res2, r2, c2, fs2, log1 @ log2)))" .
  have no14: "\<not> a14_round sp (get_rest r data)" using pol by (auto simp: a14_round_def)
  then have snt: "round_lines sp (get_allowance sp r) (get_rest r data) = get_rest r data"
    using pol by (simp add: round_lines_def fitting_unbounded)
  have inv: "get_inv fs r data" "wire c = answered r data" using st by (simp_all add: get_state_def)
  have nf: "(if byte_offset r1 = bytes r then DONE else PREEMPTED) \<noteq> FAILED" by simp
  have "byte_offset r1 = bytes r" "log1 = []" "forfeited_bytes r1 = forfeited_bytes r"
    using serve_get_round(4,5,7) [OF rd inv nf] no14 snt by (auto split: if_splits)
  with fin run get_state_round(6) [OF rd st] show ?thesis by auto
qed

text \<open>
  Deficit round robin: what a preempted request has received and what it carries over together are
  one quantum per round, so the request ends in the round whose accumulated quanta cover the file.
\<close>

definition drr_account :: "nat \<Rightarrow> request \<Rightarrow> bool" where
  "drr_account q r \<longleftrightarrow> byte_offset r + deficit r = rounds r * q \<and> deficit r \<le> bytes r"

lemma get_allowance_DRR:
  "sp_policy sp = DRR \<Longrightarrow> deficit r + quantum sp \<le> u64_max \<Longrightarrow> get_allowance sp r = deficit r + quantum sp"
  by (auto simp: get_allowance_def kUnbounded_def Let_def)

lemma drr_round:
  assumes rd: "serve_get fs r c sp = (res, r1, c1, log1)" and st: "get_state fs r c data"
    and ok: "round_ok c fs r" and pol: "sp_policy sp = DRR"
    and acc: "drr_account (quantum sp) r" and big: "bytes r + quantum sp \<le> u64_max"
  shows "res = (if bytes r \<le> Suc (rounds r) * quantum sp then DONE else PREEMPTED)"
    and "log1 = []" and "forfeited_bytes r1 = forfeited_bytes r" and "res = PREEMPTED \<longrightarrow> drr_account (quantum sp) r1"
proof -
  let ?ls = "get_rest r data" and ?a = "deficit r + quantum sp"
  have inv: "get_inv fs r data" "wire c = answered r data" using st by (simp_all add: get_state_def)
  note nf = get_state_ok(1) [OF rd st ok]
  note round = serve_get_round [OF rd inv nf] and same = get_state_round [OF rd st nf]
  have allow: "get_allowance sp r = ?a"
    using get_allowance_DRR [OF pol] acc big by (auto simp: drr_account_def)
  have no14: "\<not> a14_round sp ?ls" using pol by (simp add: a14_round_def)
  have snt: "round_lines sp (get_allowance sp r) ?ls = fitting True ?a ?ls"
    using no14 pol allow by (simp add: round_lines_def)
  show "log1 = []" "forfeited_bytes r1 = forfeited_bytes r"
    using round(5,7) no14 pol by simp_all
  have le: "length (concat (fitting True ?a ?ls)) \<le> ?a" by (rule fitting_fits) simp
  have total: "byte_offset r + length (concat ?ls) = bytes r"
    using inv(1) file_view_length [of fs r data] by (simp add: get_inv_def)
  note fits = fitting_all_iff [of ?a ?ls]
  have "length (concat ?ls) \<le> ?a \<longleftrightarrow> bytes r \<le> Suc (rounds r) * quantum sp"
    using total acc unfolding drr_account_def by auto
  with round(4) snt fits show res: "res = (if bytes r \<le> Suc (rounds r) * quantum sp then DONE else PREEMPTED)"
    by simp
  show "res = PREEMPTED \<longrightarrow> drr_account (quantum sp) r1"
  proof
    assume "res = PREEMPTED"
    then have ne: "fitting True ?a ?ls \<noteq> ?ls" using round(4) snt by auto
    then have off: "byte_offset r1 = byte_offset r + length (concat (fitting True ?a ?ls))"
      and def1: "deficit r1 = ?a - length (concat (fitting True ?a ?ls))"
      using round(2,6) snt no14 allow pol by simp_all
    have "byte_offset r1 + deficit r1 = byte_offset r + ?a" using off def1 le by simp
    moreover have "?a < length (concat ?ls)" using ne fits by simp
    ultimately show "drr_account (quantum sp) r1"
      using acc same(4,6) def1 total by (auto simp: drr_account_def)
  qed
qed

lemma run_get_drr:
  "get_state fs r c data \<Longrightarrow> round_ok c fs r \<Longrightarrow> sp_policy sp = DRR \<Longrightarrow> drr_account (quantum sp) r \<Longrightarrow>
   bytes r + quantum sp \<le> u64_max \<Longrightarrow> run_rounds (Suc n) r c fs sp = (res, r', c', fs', log) \<Longrightarrow>
     res = (if bytes r \<le> (rounds r + Suc n) * quantum sp then DONE else PREEMPTED) \<and>
     (res = DONE \<longrightarrow> bytes r \<le> rounds r' * quantum sp \<and> rounds r < rounds r' \<and>
        (rounds r' = Suc (rounds r) \<or> (rounds r' - 1) * quantum sp < bytes r)) \<and>
     (res = PREEMPTED \<longrightarrow> drr_account (quantum sp) r' \<and> rounds r' = rounds r + Suc n) \<and>
     log = [] \<and> forfeited_bytes r' = forfeited_bytes r"
proof (induction n arbitrary: r c log)
  case 0
  obtain res1 r1 c1 log1 where rd: "serve_get fs r c sp = (res1, r1, c1, log1)" by (cases "serve_get fs r c sp")
  note round = drr_round [OF rd "0.prems"(1-5)] and ok = get_state_ok(1) [OF rd "0.prems"(1,2)]
  have "(res, r', log) = (res1, r1, log1)"
    using "0.prems"(1,6) run_get_Suc [OF _ rd, of 0] by (cases res1) (auto simp: get_state_def)
  with round get_state_round(6) [OF rd "0.prems"(1) ok] show ?case by auto
next
  case (Suc n)
  obtain res1 r1 c1 log1 where rd: "serve_get fs r c sp = (res1, r1, c1, log1)" by (cases "serve_get fs r c sp")
  note round = drr_round [OF rd Suc.prems(1-5)] and ok = get_state_ok [OF rd Suc.prems(1,2)]
  note same = get_state_round [OF rd Suc.prems(1) ok(1)]
  have run: "run_rounds (Suc (Suc n)) r c fs sp =
    (if res1 = PREEMPTED
     then (case run_rounds (Suc n) r1 c1 fs sp of (res2, r2, c2, fs2, log2) \<Rightarrow> (res2, r2, c2, fs2, log1 @ log2))
     else (res1, r1, c1, fs, log1))"
    using Suc.prems(1) by (intro run_get_Suc [OF _ rd]) (simp add: get_state_def)
  show ?case
  proof (cases "bytes r \<le> Suc (rounds r) * quantum sp")
    case True
    then have "(res, r', log) = (DONE, r1, log1)" using Suc.prems(6) run round(1) by simp
    moreover have "bytes r \<le> (rounds r + Suc (Suc n)) * quantum sp"
      using True by (rule order_trans) (intro mult_right_mono; simp)
    ultimately show ?thesis using round same(6) True by simp
  next
    case False
    then have pre: "res1 = PREEMPTED" using round(1) by simp
    obtain log2 where run2: "run_rounds (Suc n) r1 c1 fs sp = (res, r', c', fs', log2)"
      and log: "log = log1 @ log2"
      using Suc.prems(6) run pre by (auto split: prod.splits)
    have acc1: "drr_account (quantum sp) r1" using round(4) pre by simp
    have big1: "bytes r1 + quantum sp \<le> u64_max" using Suc.prems(5) same by simp
    note IH = Suc.IH [OF same(1) ok(2) Suc.prems(3) acc1 big1 run2]
    have "(rounds r' - 1) * quantum sp < bytes r" if "rounds r' = Suc (rounds r1)"
      using that False same(6) by simp
    with IH same round(2,3) log show ?thesis by auto
  qed
qed

section \<open>Properties\<close>

text \<open>A GET as admission leaves it: the file is open, nothing has been sent or accounted.\<close>

definition admitted_get :: "fsys \<Rightarrow> request \<Rightarrow> string \<Rightarrow> bool" where
  "admitted_get fs r data \<longleftrightarrow>
     rop r = OpGET \<and> file_view fs r data \<and> \<not> started r \<and> byte_offset r = 0 \<and> rounds r = 0 \<and>
     deficit r = 0 \<and> forfeited_bytes r = 0"

lemma admitted_get_state: "admitted_get fs r data \<Longrightarrow> wire c = [] \<Longrightarrow> get_state fs r c data"
  by (simp add: admitted_get_def get_state_def get_inv_def answered_def)

text \<open>A sample for the witnesses: a file of three lines behind descriptor 3.\<close>

definition sample_data :: string where
  "sample_data = ''ab'' @ [NL] @ ''longer line'' @ [NL] @ ''c'' @ [NL]"

definition sample_fs :: fsys where
  "sample_fs = empty_fs\<lparr>inode := (\<lambda>_. sample_data), fds := (\<lambda>_. None)(3 := Some 0), next_fd := 4\<rparr>"

definition sample_get :: request where
  "sample_get = new_request\<lparr>rid := 7, filename := ''f'', bytes := 17, file_fd := 3\<rparr>"

definition sample_chan :: chan where
  "sample_chan = \<lparr>out = [], send_script = [Interrupt, Accept 2], send_calls = 0, inbox = []\<rparr>"

lemma sample_admitted: "admitted_get sample_fs sample_get sample_data"
  by (simp add: admitted_get_def sample_get_def sample_fs_def new_request_def file_view_def sample_data_def)

lemma sample_ok: "wire sample_chan = []" "round_ok sample_chan sample_fs sample_get"
  by (simp_all add: wire_def sample_chan_def round_ok_def sends_ok_def reads_ok_def sample_fs_def empty_fs_def)

lemma sample_lines: "split_lines sample_data = [''ab'' @ [NL], ''longer line'' @ [NL], ''c'' @ [NL]]"
proof -
  have "split_lines ([] :: string) = []" by simp
  then show ?thesis unfolding sample_data_def
    by (simp only: append_assoc append_Cons append_Nil split_lines_line [of "''ab''", simplified]
        split_lines_line [of "''longer line''", simplified] split_lines_line [of "''c''", simplified])
qed

lemma sample_get_fields [simp]:
  "rid sample_get = 7" "filename sample_get = ''f''" "bytes sample_get = 17" "file_fd sample_get = 3"
  "started sample_get = False" "byte_offset sample_get = 0" "deficit sample_get = 0" "forfeited_bytes sample_get = 0"
  by (simp_all add: sample_get_def new_request_def)

lemma ceil_rounds:
  fixes b k q :: nat
  assumes "b \<le> k * q" and "k = 1 \<or> (k - 1) * q < b" and "1 \<le> k"
  shows "k = max 1 ((b + q - 1) div q)"
proof (cases "k = 1")
  case True
  with assms(1) have "(b + q - 1) div q < 2" by (cases "q = 0") (auto intro!: div_less_mono simp: div_less_iff_less_mult)
  with True show ?thesis by simp
next
  case False
  with assms(2) have lt: "(k - 1) * q < b" by simp
  then have "0 < q" using assms(1) by (cases q) auto
  obtain m where k: "k = Suc m" using assms(3) by (cases k) auto
  have between: "x + q \<le> b + q - 1 \<and> b + q - 1 < x + q + q" if "x < b" "b \<le> x + q" for x
    using that by arith
  have "q * k \<le> b + q - 1" "b + q - 1 < q * Suc k"
    using between [of "q * m"] lt assms(1) by (simp_all add: k ac_simps)
  then have "(b + q - 1) div q = k" by (intro div_nat_eqI)
  with assms(3) show ?thesis by simp
qed

text \<open>
  C6. Whatever the kernel and the peer do (reads and sends that fail, come up short or are
  interrupted), after any number of rounds under any policy the client of a GET has received a
  prefix of \<open>OK <size>\<close> and the file; if the request is reported done it has received all of it.
  Nothing is read from the connection and the file system is not changed.
\<close>

theorem get_delivers_prefix:
  "admitted_get fs r data \<Longrightarrow> wire c = [] \<Longrightarrow> run_rounds n r c fs sp = (res, r', c', fs', log) \<Longrightarrow>
     prefix (wire c') (response data) \<and> (res = DONE \<longrightarrow> wire c' = response data) \<and>
     inbox c' = inbox c \<and> fs' = fs"
  using run_get_safe [OF admitted_get_state] by blast

theorem get_delivers_prefix_witness:
  "case run_rounds 2 sample_get sample_chan sample_fs \<lparr>sp_policy = RR, quantum = 4, p_lines = 1\<rparr> of
     (res, r', c', fs', log) \<Rightarrow> prefix (wire c') (response sample_data)"
  using get_delivers_prefix [OF sample_admitted sample_ok(1)] by (blast intro: case_prodI2)



text \<open>
  First come first served and shortest job first serve a GET in exactly one round: the whole
  response, no forfeited bytes, no A14 line.
\<close>

lemma get_unbounded_one_round:
  assumes "admitted_get fs r data" and "wire c = []" and "round_ok c fs r" and "sp_policy sp \<in> {FCFS, SJF}"
    and "run_rounds (Suc n) r c fs sp = (res, r', c', fs', log)"
  shows "res = DONE \<and> wire c' = response data \<and> rounds r' = 1 \<and> forfeited_bytes r' = 0 \<and> log = []"
proof -
  have st: "get_state fs r c data" using assms(1,2) by (rule admitted_get_state)
  from assms(4) have "\<not> bounded (sp_policy sp)" by auto
  from run_get_unbounded [OF st assms(3) this assms(5)] run_get_safe [OF st assms(5)] assms(1)
  show ?thesis by (simp add: admitted_get_def)
qed

theorem get_unbounded_one_round_witness:
  "fst (run_rounds 1 sample_get sample_chan sample_fs \<lparr>sp_policy = SJF, quantum = 0, p_lines = 2\<rparr>) = DONE"
proof -
  let ?sp = "\<lparr>sp_policy = SJF, quantum = 0, p_lines = 2\<rparr>"
  obtain res r' c' fs' log where run: "run_rounds (Suc 0) sample_get sample_chan sample_fs ?sp = (res, r', c', fs', log)"
    by (rule prod_cases5)
  from get_unbounded_one_round [OF sample_admitted sample_ok(1,2) _ run] run show ?thesis
    by (simp del: run_rounds.simps)
qed

text \<open>
  C8. Round robin serves every GET to the end within as many rounds as the file has lines (one for
  an empty file), and over the whole request the A14 log is exactly one line for each line of the
  file that is longer than the quantum, in file order.
\<close>

theorem get_rr_run:
  assumes "admitted_get fs r data" and "wire c = []" and "round_ok c fs r" and "sp_policy sp = RR"
    and "max 1 (length (split_lines data)) \<le> n" and "run_rounds n r c fs sp = (res, r', c', fs', log)"
  shows "res = DONE \<and> wire c' = response data \<and> rounds r' \<le> max 1 (length (split_lines data)) \<and>
     log = map (\<lambda>l. log_a14_fire (rid r) (filename r) (length l) (quantum sp))
             (filter (\<lambda>l. quantum sp < length l) (split_lines data))"
proof -
  have st: "get_state fs r c data" using assms(1,2) by (rule admitted_get_state)
  from run_get_rr [OF st assms(3,4) _ _ assms(6)] run_get_safe [OF st assms(6)] assms(1,5)
  show ?thesis by (simp add: admitted_get_def)
qed

theorem get_rr_run_witness:
  "case run_rounds 3 sample_get sample_chan sample_fs \<lparr>sp_policy = RR, quantum = 4, p_lines = 1\<rparr> of
     (res, r', c', fs', log) \<Rightarrow> res = DONE \<and> log = [log_a14_fire 7 ''f'' 12 4]"
proof -
  let ?sp = "\<lparr>sp_policy = RR, quantum = 4, p_lines = 1\<rparr>"
  obtain res r' c' fs' log where run: "run_rounds 3 sample_get sample_chan sample_fs ?sp = (res, r', c', fs', log)"
    by (rule prod_cases5)
  from get_rr_run [OF sample_admitted sample_ok(1,2) _ _ run] show ?thesis
    by (simp add: run sample_lines) (simp add: eval_nat_numeral)
qed

text \<open>
  C9. Deficit round robin: while a GET is preempted, the bytes it has received and the deficit it
  carries add up to one quantum per round; it is done after \<open>n\<close> rounds exactly when \<open>n\<close> quanta cover
  the file, so it takes \<open>max 1 (ceil (size / quantum))\<close> rounds however its lines are cut, and nothing
  is forfeited or logged.
\<close>

theorem get_drr_run:
  assumes "admitted_get fs r data" and "wire c = []" and "round_ok c fs r" and "sp_policy sp = DRR"
    and "bytes r + quantum sp \<le> u64_max" and "run_rounds (Suc n) r c fs sp = (res, r', c', fs', log)"
  shows "res = (if bytes r \<le> Suc n * quantum sp then DONE else PREEMPTED) \<and>
     (res = DONE \<longrightarrow> wire c' = response data \<and>
        rounds r' = max 1 ((bytes r + quantum sp - 1) div quantum sp)) \<and>
     (res = PREEMPTED \<longrightarrow> rounds r' = Suc n \<and> byte_offset r' + deficit r' = Suc n * quantum sp) \<and>
     forfeited_bytes r' = 0 \<and> log = []"
proof -
  have st: "get_state fs r c data" using assms(1,2) by (rule admitted_get_state)
  have "drr_account (quantum sp) r" using assms(1) by (simp add: admitted_get_def drr_account_def)
  note drr = run_get_drr [OF st assms(3,4) this assms(5,6)]
  have r0: "rounds r = 0" "forfeited_bytes r = 0" using assms(1) by (simp_all add: admitted_get_def)
  have "rounds r' = max 1 ((bytes r + quantum sp - 1) div quantum sp)" if "res = DONE"
  proof (rule ceil_rounds)
    show "bytes r \<le> rounds r' * quantum sp" "rounds r' = 1 \<or> (rounds r' - 1) * quantum sp < bytes r"
      using drr that r0 by auto
    show "1 \<le> rounds r'" using drr that by simp
  qed
  with drr r0 run_get_safe [OF st assms(6)] show ?thesis by (simp add: drr_account_def)
qed

theorem get_drr_run_witness:
  "case run_rounds 3 sample_get sample_chan sample_fs \<lparr>sp_policy = DRR, quantum = 5, p_lines = 1\<rparr> of
     (res, r', c', fs', log) \<Rightarrow> res = PREEMPTED \<and> byte_offset r' + deficit r' = 15"
proof -
  let ?sp = "\<lparr>sp_policy = DRR, quantum = 5, p_lines = 1\<rparr>"
  obtain res r' c' fs' log where run: "run_rounds 3 sample_get sample_chan sample_fs ?sp = (res, r', c', fs', log)"
    by (rule prod_cases5)
  from get_drr_run [OF sample_admitted sample_ok(1,2), of ?sp 2 res r' c' fs' log] run show ?thesis
    by (simp add: u64_max_def numeral_3_eq_3 del: run_rounds.simps)
qed

text \<open>
  C10. The bounds on one round of round robin: it sends at most one quantum, or one single line when
  that line is longer; if it is preempted without an A14 line, the bytes it sent and the bytes it
  adds to \<open>forfeited_bytes\<close> are together exactly one quantum; and it always makes progress.
\<close>

theorem rr_round_bounds:
  assumes "serve_get fs r c sp = (res, r', c', log)" and "get_state fs r c data" and "res \<noteq> FAILED"
    and "sp_policy sp = RR" and "forfeited_bytes r + quantum sp \<le> u64_max"
  shows "(byte_offset r' - byte_offset r \<le> quantum sp \<and> log = [] \<or>
      (\<exists>l rest. split_lines (drop (byte_offset r) data) = l # rest \<and> quantum sp < length l \<and>
         byte_offset r' = byte_offset r + length l \<and> forfeited_bytes r' = forfeited_bytes r \<and>
         log = [log_a14_fire (rid r) (filename r) (length l) (quantum sp)])) \<and>
    (res = PREEMPTED \<longrightarrow> log = [] \<longrightarrow>
       (byte_offset r' - byte_offset r) + (forfeited_bytes r' - forfeited_bytes r) = quantum sp) \<and>
    (byte_offset r < bytes r \<longrightarrow> byte_offset r < byte_offset r')"
proof -
  let ?ls = "get_rest r data"
  have inv: "get_inv fs r data" "wire c = answered r data" using assms(2) by (simp_all add: get_state_def)
  note round = serve_get_round [OF assms(1) inv assms(3)]
  have pos: "byte_offset r < byte_offset r'" if "byte_offset r < bytes r"
  proof -
    from that have "?ls \<noteq> []" using get_rest_empty [OF assms(2)] by simp
    with round_lines_RR(1) [OF assms(4)] have "round_lines sp (quantum sp) ?ls \<noteq> []"
      using split_lines_elem by blast
    moreover have "\<forall>l \<in> set (round_lines sp (quantum sp) ?ls). l \<noteq> []"
      using set_mono_prefix [OF round_lines_prefix] split_lines_elem by blast
    ultimately have "length (concat (round_lines sp (quantum sp) ?ls)) \<noteq> 0"
      by (cases "round_lines sp (quantum sp) ?ls") auto
    then show ?thesis using round(2) assms(4) by simp
  qed
  show ?thesis
  proof (cases "a14_round sp ?ls")
    case True
    then obtain l rest where l: "?ls = l # rest" "quantum sp < length l"
      by (cases ?ls) (auto simp: a14_round_def)
    with True round pos show ?thesis by (auto simp: round_lines_def)
  next
    case False
    have "length (concat (fitting True (quantum sp) ?ls)) \<le> quantum sp" by (rule fitting_fits) simp
    with False round(2,4,5,7) pos assms(4,5) show ?thesis
      by (auto simp: round_lines_def u64_add_def)
  qed
qed

theorem rr_round_bounds_witness:
  "case serve_get sample_fs sample_get sample_chan \<lparr>sp_policy = RR, quantum = 4, p_lines = 1\<rparr> of
     (res, r', c', log) \<Rightarrow> 0 < byte_offset r'"
proof -
  let ?sp = "\<lparr>sp_policy = RR, quantum = 4, p_lines = 1\<rparr>"
  obtain res r' c' log where rd: "serve_get sample_fs sample_get sample_chan ?sp = (res, r', c', log)"
    by (rule prod_cases4)
  note st = admitted_get_state [OF sample_admitted sample_ok(1)]
  from rr_round_bounds [OF rd st get_state_ok(1) [OF rd st sample_ok(2)]]
  show ?thesis by (simp add: rd u64_max_def)
qed

text \<open>
  C11. \<open>--p\<close>, the number of lines per send, changes nothing but how the bytes are grouped into
  sends: two runs that differ in it deliver the same bytes in the same rounds with the same
  accounting and the same log.
\<close>

theorem lines_per_send_irrelevant:
  assumes "serve_get fs r c sp = (res, r', c', log)" and "serve_get fs r c (sp\<lparr>p_lines := k\<rparr>) = (res2, r2, c2, log2)"
    and "get_state fs r c data" and "res \<noteq> FAILED" and "res2 \<noteq> FAILED"
  shows "res2 = res \<and> r2 = r' \<and> log2 = log \<and> wire c2 = wire c'"
proof -
  have inv: "get_inv fs r data" "wire c = answered r data" using assms(3) by (simp_all add: get_state_def)
  note a = serve_get_round [OF assms(1) inv assms(4)] and b = serve_get_round [OF assms(2) inv assms(5)]
  have same: "get_allowance (sp\<lparr>p_lines := k\<rparr>) r = get_allowance sp r" "a14_round (sp\<lparr>p_lines := k\<rparr>) = a14_round sp"
    "round_lines (sp\<lparr>p_lines := k\<rparr>) = round_lines sp"
    by (simp_all add: get_allowance_def a14_round_def round_lines_def fun_eq_iff Let_def)
  have res: "resumed (begun r) r'" "resumed (begun r) r2"
    using serve_get_safe(3) [OF assms(1) inv] serve_get_safe(3) [OF assms(2) inv] assms(4,5) by auto
  have "byte_offset r2 = byte_offset r'" "deficit r2 = deficit r'" "forfeited_bytes r2 = forfeited_bytes r'"
    unfolding a(2,6,7) b(2,6,7) same by simp_all
  with res have "r2 = r'" by (auto simp: resumed_def)
  moreover have "res2 = res" "log2 = log" "wire c2 = wire c'"
    unfolding a(1,4,5) b(1,4,5) same by simp_all
  ultimately show ?thesis by simp
qed

theorem lines_per_send_irrelevant_witness:
  "wire (fst (snd (snd (serve_get sample_fs sample_get sample_chan \<lparr>sp_policy = RR, quantum = 4, p_lines = 8\<rparr>)))) =
   wire (fst (snd (snd (serve_get sample_fs sample_get sample_chan \<lparr>sp_policy = RR, quantum = 4, p_lines = 1\<rparr>))))"
proof -
  let ?sp = "\<lparr>sp_policy = RR, quantum = 4, p_lines = 1\<rparr>"
  obtain res r' c' log where rd: "serve_get sample_fs sample_get sample_chan ?sp = (res, r', c', log)"
    by (rule prod_cases4)
  obtain res2 r2 c2 log2 where rd2: "serve_get sample_fs sample_get sample_chan (?sp\<lparr>p_lines := 8\<rparr>) = (res2, r2, c2, log2)"
    by (rule prod_cases4)
  note st = admitted_get_state [OF sample_admitted sample_ok(1)]
  from lines_per_send_irrelevant [OF rd rd2 st get_state_ok(1) [OF rd st sample_ok(2)]
      get_state_ok(1) [OF rd2 st sample_ok(2)]] rd rd2
  show ?thesis by simp
qed

end
