(* ===== verification/Slice_Put.thy ===== *)
theory Slice_Put
  imports Slice_Rounds
begin

text \<open>
  PUT requests: what the rounds of \<open>serve_put\<close> do to the file system and to the client, until
  \<open>release_request\<close>. The abstract contract is an atomic update of the map from names to contents
  (\<open>visible\<close>): the whole body appears under its name, or nothing changes. The body is written to a
  temporary file with an inode of its own, which becomes visible in the one step of \<open>rename\<close>.
\<close>

section \<open>One PUT as a partial update\<close>

definition tmp_name :: "request \<Rightarrow> string" where
  "tmp_name r = path r @ ''.tmp.'' @ nat_str (rid r)"

lemma tmp_name_neq [simp]: "tmp_name r \<noteq> []" "tmp_name r \<noteq> path r" "path r \<noteq> tmp_name r"
  by (simp_all add: tmp_name_def)

text \<open>
  A file system the server can work on: descriptors are handed out upwards, entries and descriptors
  refer to inodes that have been handed out. The steps of one PUT only need the next descriptor to be
  free and the next inode to have no name.
\<close>

definition fs_ok :: "fsys \<Rightarrow> bool" where
  "fs_ok fs \<longleftrightarrow> 0 \<le> next_fd fs \<and> (\<forall>fd \<ge> next_fd fs. fds fs fd = None) \<and>
     (\<forall>p i. dir fs p = Some (Reg i) \<longrightarrow> i < next_ino fs) \<and>
     (\<forall>fd i. fds fs fd = Some i \<longrightarrow> i < next_ino fs)"

definition fs_fresh :: "fsys \<Rightarrow> bool" where
  "fs_fresh fs \<longleftrightarrow> 0 \<le> next_fd fs \<and> fds fs (next_fd fs) = None \<and> (\<forall>p. dir fs p \<noteq> Some (Reg (next_ino fs)))"

lemma fs_ok_fs_fresh: "fs_ok fs \<Longrightarrow> fs_fresh fs"
  by (auto simp: fs_ok_def fs_fresh_def)

lemma fs_fresh_next: "fs_fresh fs \<Longrightarrow> 0 \<le> next_fd fs \<and> fds fs (next_fd fs) = None"
  by (simp add: fs_fresh_def)

lemma fs_fresh_ino: "fs_fresh fs \<Longrightarrow> dir fs p \<noteq> Some (Reg (next_ino fs))"
  by (simp add: fs_fresh_def)

definition admitted_put :: "fsys \<Rightarrow> request \<Rightarrow> bool" where
  "admitted_put fs r \<longleftrightarrow> rop r = OpPUT \<and> \<not> started r \<and> byte_offset r = 0 \<and> tmp_path r = [] \<and>
     file_fd r = -1 \<and> dir fs (tmp_name r) = None"

text \<open>What the peer has sent and the server has not yet taken.\<close>

definition stream :: "request \<Rightarrow> chan \<Rightarrow> string" where
  "stream r c = leftover r @ incoming c"

text \<open>The fields of a request that no PUT round changes.\<close>

definition put_same :: "request \<Rightarrow> request \<Rightarrow> bool" where
  "put_same r0 r \<longleftrightarrow> path r = path r0 \<and> rid r = rid r0 \<and> bytes r = bytes r0 \<and> rop r = rop r0 \<and>
     deficit r = deficit r0 \<and> forfeited_bytes r = forfeited_bytes r0"

text \<open>The temporary file holds \<open>x\<close>, in an inode of its own; everything else is as it was.\<close>

definition put_fs :: "fsys \<Rightarrow> request \<Rightarrow> string \<Rightarrow> fsys \<Rightarrow> bool" where
  "put_fs fs0 r0 x fs \<longleftrightarrow>
     dir fs = (dir fs0)(tmp_name r0 \<mapsto> Reg (next_ino fs0)) \<and> inode fs = (inode fs0)(next_ino fs0 := x)"

definition put_open :: "fsys \<Rightarrow> request \<Rightarrow> fsys \<Rightarrow> bool" where
  "put_open fs0 r fs \<longleftrightarrow> file_fd r = next_fd fs0 \<and> fds fs = (fds fs0)(next_fd fs0 \<mapsto> next_ino fs0)"

definition put_inv :: "fsys \<Rightarrow> request \<Rightarrow> string \<Rightarrow> string \<Rightarrow> request \<Rightarrow> chan \<Rightarrow> fsys \<Rightarrow> bool" where
  "put_inv fs0 r0 s w r c fs \<longleftrightarrow>
     put_same r0 r \<and> started r \<and> tmp_path r = tmp_name r0 \<and> put_open fs0 r fs \<and>
     byte_offset r \<le> bytes r \<and> byte_offset r \<le> length s \<and> put_fs fs0 r0 (take (byte_offset r) s) fs \<and>
     stream r c = drop (byte_offset r) s \<and> wire c = w @ format_ok 0"

text \<open>What a client can have been told by a PUT that is given up.\<close>

definition put_replies :: "string list" where
  "put_replies = [format_ok 0, format_err ''cannot write file'', format_ok 0 @ format_err ''cannot write file'',
     format_ok 0 @ format_err ''body shorter than declared'']"

definition put_failed :: "fsys \<Rightarrow> request \<Rightarrow> string \<Rightarrow> request \<Rightarrow> chan \<Rightarrow> fsys \<Rightarrow> bool" where
  "put_failed fs0 r0 w r c fs \<longleftrightarrow>
     (\<exists>m \<in> set put_replies. prefix (wire c) (w @ m)) \<and>
     (\<not> started r \<and> tmp_path r = [] \<and> file_fd r < 0 \<and> dir fs = dir fs0 \<and> inode fs = inode fs0 \<and> fds fs = fds fs0 \<or>
      tmp_path r = tmp_name r0 \<and> (\<exists>x. put_fs fs0 r0 x fs) \<and>
        (put_open fs0 r fs \<or> file_fd r < 0 \<and> fds fs = fds fs0))"

definition put_installed :: "fsys \<Rightarrow> request \<Rightarrow> string \<Rightarrow> request \<Rightarrow> fsys \<Rightarrow> bool" where
  "put_installed fs0 r0 s r fs \<longleftrightarrow>
     started r \<and> tmp_path r = [] \<and> file_fd r < 0 \<and> fds fs = fds fs0 \<and> bytes r0 \<le> length s \<and>
     dir fs = (dir fs0)(path r0 \<mapsto> Reg (next_ino fs0)) \<and>
     inode fs = (inode fs0)(next_ino fs0 := take (bytes r0) s)"

section \<open>The steps of a round\<close>

lemma write_all_open:
  assumes "write_all fd d fs = (b, fs')" and "fds fs fd = Some i"
  obtains k where "k \<le> length d" "b \<Longrightarrow> k = length d" "dir fs' = dir fs" "fds fs' = fds fs"
    "inode fs' = (inode fs)(i := inode fs i @ take k d)"
proof -
  obtain k where k: "k \<le> length d" "fd_contents fd fs' = fd_contents fd fs @ take k d" "b \<Longrightarrow> k = length d"
    using fwrite.loop_prefix [OF assms(1)] by blast
  note eq = but_contents_eq [OF fwrite.loop_frame [OF assms(1)]]
  have "inode fs' = (inode fs)(i := inode fs i @ take k d)"
    using k(2) eq(2,8) assms(2) by (auto simp: fd_contents_def fun_eq_iff)
  with k eq(1,2) that show thesis by blast
qed

lemma send_error_wire: "prefix (wire (send_error e c)) (wire c @ format_err e)" "inbox (send_error e c) = inbox c"
proof -
  obtain b c' where s: "send_all (format_err e) c = (b, c')" by (cases "send_all (format_err e) c")
  from send_all_prefix [OF s] show "prefix (wire (send_error e c)) (wire c @ format_err e)"
    by (metis s send_error_def snd_conv same_prefix_prefix take_is_prefix)
  show "inbox (send_error e c) = inbox c" using send_all_inbox [OF s] by (simp add: send_error_def s)
qed

lemma send_all_wire_prefix: "send_all d c = (b, c') \<Longrightarrow> prefix (wire c') (wire c @ d)"
  by (metis send_all_prefix same_prefix_prefix take_is_prefix)

lemma put_start_first:
  "\<not> started r \<Longrightarrow> put_start r c fs =
     (case sys_open_trunc (tmp_name r) fs of
        (fd, fs1) \<Rightarrow>
          if fd < 0 then (False, r\<lparr>file_fd := fd, tmp_path := []\<rparr>, send_error ''cannot write file'' c, fs1)
          else
            let r1 = r\<lparr>tmp_path := tmp_name r, file_fd := fd\<rparr> in
            case send_all (format_ok 0) c of
              (False, c1) \<Rightarrow> (False, r1, c1, fs1)
            | (True, c1) \<Rightarrow> (True, r1\<lparr>started := True\<rparr>, c1, fs1))"
  by (simp only: put_start_def tmp_name_def if_False Let_def)

lemma put_start_effect:
  assumes "put_start r c fs0 = (b, r', c', fs)" and "admitted_put fs0 r" and "fs_fresh fs0"
  shows "if b then put_inv fs0 r (stream r c) (wire c) r' c' fs \<and> rounds r' = rounds r
    else put_failed fs0 r (wire c) r' c' fs"
proof -
  let ?i = "next_ino fs0"
  have adm: "\<not> started r" "dir fs0 (tmp_name r) = None" "byte_offset r = 0" "file_fd r = -1"
    using assms(2) by (simp_all add: admitted_put_def)
  note fd = fs_fresh_next [OF assms(3)]
  show ?thesis
  proof (cases "open_script fs0 = [] \<or> hd (open_script fs0)")
    case False
    then have "sys_open_trunc (tmp_name r) fs0 = (-1, fs0\<lparr>open_script := tl (open_script fs0)\<rparr>)"
      by (simp add: sys_open_trunc_def)
    with assms(1) adm(1) have eqs: "b = False" "r' = r\<lparr>file_fd := -1, tmp_path := []\<rparr>"
      "c' = send_error ''cannot write file'' c" "fs = fs0\<lparr>open_script := tl (open_script fs0)\<rparr>"
      by (simp_all add: put_start_first [OF adm(1)])
    then show ?thesis using send_error_wire(1) [of "''cannot write file''" c] adm(1)
      by (simp add: put_failed_def put_replies_def)
  next
    case True
    define fs1 where "fs1 = fs0\<lparr>open_script := tl (open_script fs0), dir := (dir fs0)(tmp_name r \<mapsto> Reg ?i),
      inode := (inode fs0)(?i := []), next_ino := Suc ?i, fds := (fds fs0)(next_fd fs0 \<mapsto> ?i), next_fd := next_fd fs0 + 1\<rparr>"
    have op: "sys_open_trunc (tmp_name r) fs0 = (next_fd fs0, fs1)"
      using True adm(2) by (simp add: sys_open_trunc_def fs1_def Let_def)
    define r1 where "r1 = r\<lparr>tmp_path := tmp_name r, file_fd := next_fd fs0\<rparr>"
    obtain ok c1 where snd: "send_all (format_ok 0) c = (ok, c1)" by (cases "send_all (format_ok 0) c")
    have eqs: "b = ok" "r' = (if ok then r1\<lparr>started := True\<rparr> else r1)" "c' = c1" "fs = fs1"
      using assms(1) adm(1) op fd snd
      by (auto simp: put_start_first [OF adm(1)] r1_def Let_def split: bool.splits)
    have open1: "put_open fs0 r1 fs1" and fs1: "put_fs fs0 r [] fs1"
      by (simp_all add: put_open_def put_fs_def r1_def fs1_def)
    show ?thesis
    proof (cases ok)
      case True
      obtain k where k: "wire c1 = wire c @ take k (format_ok 0)" "k = length (format_ok 0)"
        using send_all_prefix [OF snd] True by blast
      have "incoming c1 = incoming c" using send_all_inbox [OF snd] by (simp add: incoming_def)
      with True k open1 fs1 adm show ?thesis
        by (simp add: eqs put_inv_def put_same_def stream_def put_open_def r1_def)
    next
      case False
      with open1 fs1 send_all_wire_prefix [OF snd] show ?thesis
        by (auto simp: eqs put_failed_def put_replies_def r1_def)
    qed
  qed
qed

lemma put_loop_unfold:
  assumes "dn < tk"
  shows "put_loop tk dn r c fs =
     (let n = min (min tk kChunk) (tk - dn) in
      case read_exact (leftover r) n kBodyChunkTimeoutMs c of
        (ok, buf, lo, c1) \<Rightarrow>
          let r1 = r\<lparr>leftover := lo\<rparr> in
          if \<not> ok then (False, r1, send_error ''body shorter than declared'' c1, fs)
          else (case write_all (file_fd r1) buf fs of
                  (False, fs1) \<Rightarrow> (False, r1, send_error ''cannot write file'' c1, fs1)
                | (True, fs1) \<Rightarrow> put_loop tk (dn + n) (r1\<lparr>byte_offset := byte_offset r1 + n\<rparr>) c1 fs1))"
  using assms by (simp only: put_loop.simps [of tk dn r c fs] if_P)

lemma put_loop_end: "\<not> dn < tk \<Longrightarrow> put_loop tk dn r c fs = (True, r, c, fs)"
  by (simp add: put_loop.simps)

text \<open>One chunk: what is read is the next part of the body, what is written is what was read.\<close>

lemma put_chunk_read:
  assumes "read_exact (leftover r) n t c = (ok, buf, lo, c1)" and "put_inv fs0 r0 s w r c fs"
  shows "stream (r\<lparr>leftover := lo\<rparr>) c1 = drop (length buf) (stream r c)" "buf = take (length buf) (stream r c)"
    "ok \<Longrightarrow> length buf = n" "wire c1 = w @ format_ok 0" "ok \<Longrightarrow> byte_offset r + n \<le> length s"
proof -
  note snd = read_exact_sound [OF assms(1)]
  have st: "buf @ stream (r\<lparr>leftover := lo\<rparr>) c1 = stream r c"
    using snd(1) by (simp add: stream_def)
  then show "stream (r\<lparr>leftover := lo\<rparr>) c1 = drop (length buf) (stream r c)" "buf = take (length buf) (stream r c)"
    by (metis append_eq_conv_conj)+
  show len: "ok \<Longrightarrow> length buf = n" using snd(2) by simp
  show "wire c1 = w @ format_ok 0" using snd(3) assms(2) by (simp add: put_inv_def wire_def)
  show "byte_offset r + n \<le> length s" if ok
  proof -
    have "length buf \<le> length (drop (byte_offset r) s)"
      using arg_cong [OF st, of length] assms(2) by (simp add: put_inv_def)
    with len [OF that] assms(2) show ?thesis by (auto simp: put_inv_def)
  qed
qed

lemma put_inv_step:
  assumes "put_inv fs0 r0 s w r c fs" and "read_exact (leftover r) n t c = (True, buf, lo, c1)"
    and "write_all (file_fd r) buf fs = (True, fs1)" and "byte_offset r + n \<le> bytes r"
  shows "put_inv fs0 r0 s w (r\<lparr>leftover := lo, byte_offset := byte_offset r + n\<rparr>) c1 fs1"
proof -
  note rd = put_chunk_read [OF assms(2,1)]
  have inv: "put_open fs0 r fs" "put_fs fs0 r0 (take (byte_offset r) s) fs" "stream r c = drop (byte_offset r) s"
    "byte_offset r \<le> length s"
    using assms(1) by (simp_all add: put_inv_def)
  have fd: "fds fs (file_fd r) = Some (next_ino fs0)" using inv(1) by (simp add: put_open_def)
  obtain k where k: "k = length buf" "dir fs1 = dir fs" "fds fs1 = fds fs"
    "inode fs1 = (inode fs)(next_ino fs0 := inode fs (next_ino fs0) @ take k buf)"
    using write_all_open [OF assms(3) fd] by metis
  have "buf = take n (drop (byte_offset r) s)" using rd(2,3) inv(3) by simp
  then have "take (byte_offset r) s @ buf = take (byte_offset r + n) s" by (simp add: take_add)
  with k inv have "put_fs fs0 r0 (take (byte_offset r + n) s) fs1" by (simp add: put_fs_def)
  moreover have "stream (r\<lparr>leftover := lo\<rparr>) c1 = drop (byte_offset r + n) s"
    using rd(1,3) inv(3) by (simp add: add.commute)
  ultimately show ?thesis
    using assms(1,4) rd(4,5) k(3) by (simp add: put_inv_def put_same_def put_open_def stream_def)
qed

lemma put_inv_gives_up:
  assumes "put_inv fs0 r0 s w r c fs" and "wire c1 = w @ format_ok 0" and "tmp_path r1 = tmp_path r"
    and "file_fd r1 = file_fd r" and "dir fs1 = dir fs" and "fds fs1 = fds fs"
    and "inode fs1 = (inode fs)(next_ino fs0 := x)"
    and "e = ''body shorter than declared'' \<or> e = ''cannot write file''"
  shows "put_failed fs0 r0 w r1 (send_error e c1) fs1"
proof -
  have "put_fs fs0 r0 x fs1" "put_open fs0 r1 fs1" "tmp_path r1 = tmp_name r0"
    using assms by (simp_all add: put_inv_def put_fs_def put_open_def)
  moreover have "prefix (wire (send_error e c1)) (w @ format_ok 0 @ format_err e)"
    using send_error_wire(1) [of e c1] assms(2) by simp
  ultimately show ?thesis using assms(8) by (auto simp: put_failed_def put_replies_def)
qed

lemma put_loop_effect:
  "put_loop tk dn r c fs = (b, r', c', fs') \<Longrightarrow> put_inv fs0 r0 s w r c fs \<Longrightarrow> dn \<le> tk \<Longrightarrow>
     byte_offset r + (tk - dn) \<le> bytes r \<Longrightarrow>
     rounds r' = rounds r \<and>
     (if b then put_inv fs0 r0 s w r' c' fs' \<and> byte_offset r' = byte_offset r + (tk - dn)
      else put_failed fs0 r0 w r' c' fs')"
proof (induction tk dn r c fs arbitrary: b r' c' fs' rule: put_loop.induct)
  case (1 tk dn r c fs)
  show ?case
  proof (cases "dn < tk")
    case False
    with "1.prems" show ?thesis by (simp add: put_loop_end)
  next
    case True
    define n where "n = min (min tk kChunk) (tk - dn)"
    have n: "dn + n \<le> tk" "byte_offset r + n \<le> bytes r" using True "1.prems"(4) by (simp_all add: n_def)
    obtain ok buf lo c1 where rd: "read_exact (leftover r) n kBodyChunkTimeoutMs c = (ok, buf, lo, c1)"
      by (rule prod_cases4)
    define r1 where "r1 = r\<lparr>leftover := lo\<rparr>"
    note unfold = put_loop_unfold [OF True, of r c fs, folded n_def, unfolded Let_def rd, simplified, folded r1_def]
    note read = put_chunk_read [OF rd "1.prems"(2)]
    have fd: "fds fs (file_fd r) = Some (next_ino fs0)"
      using "1.prems"(2) by (simp add: put_inv_def put_open_def)
    obtain w1 fs1 where wr: "write_all (file_fd r) buf fs = (w1, fs1)" by (cases "write_all (file_fd r) buf fs")
    have same: "inode fs = (inode fs)(next_ino fs0 := inode fs (next_ino fs0))" by simp
    consider (rd_fail) "\<not> ok" | (wr_fail) "ok" "\<not> w1" | (go) "ok" "w1" by blast
    then show ?thesis
    proof cases
      case rd_fail
      with unfold "1.prems"(1) have "b = False" "r' = r1" "c' = send_error ''body shorter than declared'' c1" "fs' = fs"
        by simp_all
      with put_inv_gives_up [OF "1.prems"(2) read(4) _ _ refl refl same, of r1] show ?thesis by (simp add: r1_def)
    next
      case wr_fail
      obtain k where k: "dir fs1 = dir fs" "fds fs1 = fds fs"
        "inode fs1 = (inode fs)(next_ino fs0 := inode fs (next_ino fs0) @ take k buf)"
        using write_all_open [OF wr fd] by metis
      from wr_fail unfold wr "1.prems"(1)
      have "b = False" "r' = r1" "c' = send_error ''cannot write file'' c1" "fs' = fs1"
        by (simp_all add: r1_def)
      with put_inv_gives_up [OF "1.prems"(2) read(4) _ _ k, of r1] show ?thesis by (simp add: r1_def)
    next
      case go
      define r2 where "r2 = r1\<lparr>byte_offset := byte_offset r1 + n\<rparr>"
      have r2: "r2 = r\<lparr>leftover := lo, byte_offset := byte_offset r + n\<rparr>" by (simp add: r2_def r1_def)
      from go unfold wr "1.prems"(1) have rest: "put_loop tk (dn + n) r2 c1 fs1 = (b, r', c', fs')"
        by (simp add: r1_def r2_def)
      have inv: "put_inv fs0 r0 s w r2 c1 fs1"
        unfolding r2 using put_inv_step [OF "1.prems"(2) _ _ n(2)] rd wr go by simp
      have ok: "ok = True" "w1 = True" using go by simp_all
      have wr1: "write_all (file_fd r1) buf fs = (w1, fs1)" using wr by (simp add: r1_def)
      have "byte_offset r2 + (tk - (dn + n)) \<le> bytes r2" using "1.prems"(4) n by (simp add: r2)
      from "1.IH" [OF True n_def rd [symmetric] refl refl r1_def _ wr1 [symmetric] ok(2), folded r2_def, OF _ rest inv n(1) this] ok(1) n
      show ?thesis by (simp add: r2)
    qed
  qed
qed

lemma put_finish_effect:
  assumes "put_finish r c fs = (res, r', c', fs')" and "put_inv fs0 r0 s w r c fs"
    and "byte_offset r = bytes r" and "dir fs0 (tmp_name r0) = None" and "fs_fresh fs0"
  shows "rounds r' = rounds r \<and>
    (res = DONE \<and> put_installed fs0 r0 s r' fs' \<and> wire c' = w @ format_ok 0 @ format_ok 0 \<or>
     res = FAILED \<and> (put_failed fs0 r0 w r' c' fs' \<or>
       put_installed fs0 r0 s r' fs' \<and> prefix (wire c') (w @ format_ok 0 @ format_ok 0)))"
proof -
  let ?i = "next_ino fs0" and ?t = "tmp_name r0"
  define fs1 where "fs1 = sys_close (file_fd r) fs"
  define r1 where "r1 = r\<lparr>file_fd := -1\<rparr>"
  have inv: "file_fd r = next_fd fs0" "fds fs = (fds fs0)(next_fd fs0 \<mapsto> ?i)" "tmp_path r = ?t"
    "dir fs = (dir fs0)(?t \<mapsto> Reg ?i)" "inode fs = (inode fs0)(?i := take (bytes r0) s)" "path r = path r0"
    "bytes r0 \<le> length s" "wire c = w @ format_ok 0" "started r"
    using assms(2,3) by (auto simp: put_inv_def put_open_def put_fs_def put_same_def)
  have fs1: "fds fs1 = fds fs0" "dir fs1 = dir fs" "inode fs1 = inode fs"
    using inv(1,2) fs_fresh_next [OF assms(5)] by (auto simp: fs1_def sys_close_def)
  obtain ok fs2 where rn: "sys_rename ?t (path r0) fs1 = (ok, fs2)" by (cases "sys_rename ?t (path r0) fs1")
  have eq: "put_finish r c fs =
      (case (ok, fs2) of
         (False, fs2) \<Rightarrow> (FAILED, r1, send_error ''cannot write file'' c, fs2)
       | (True, fs2) \<Rightarrow>
           (case send_all (format_ok 0) c of
              (ok, c1) \<Rightarrow> (if ok then DONE else FAILED, r1\<lparr>tmp_path := []\<rparr>, c1, fs2)))"
    unfolding put_finish_def Let_def using inv rn by (cases ok) (simp_all add: fs1_def r1_def)
  show ?thesis
  proof (cases ok)
    case False
    with rn have "dir fs2 = dir fs" "inode fs2 = inode fs" "fds fs2 = fds fs0"
      using fs1 by (auto simp: sys_rename_def Let_def split: if_splits option.splits dirent.splits)
    moreover have "prefix (wire (send_error ''cannot write file'' c)) (w @ format_ok 0 @ format_err ''cannot write file'')"
      using send_error_wire(1) [of "''cannot write file''" c] inv(8) by simp
    ultimately show ?thesis using False assms(1) inv
      by (auto simp: eq put_failed_def put_replies_def put_fs_def r1_def)
  next
    case True
    have d: "(dir fs0)(?t := None) = dir fs0" using assms(4) by (simp add: fun_upd_idem)
    have "dir fs2 = (dir fs0)(path r0 \<mapsto> Reg ?i)" "inode fs2 = inode fs" "fds fs2 = fds fs0"
      using True rn fs1 inv(4) d
      by (auto simp: sys_rename_def Let_def split: if_splits option.splits dirent.splits)
    then have inst: "put_installed fs0 r0 s (r1\<lparr>tmp_path := []\<rparr>) fs2"
      using inv by (simp add: put_installed_def r1_def)
    obtain b c1 where snd: "send_all (format_ok 0) c = (b, c1)" by (cases "send_all (format_ok 0) c")
    have r: "res = (if b then DONE else FAILED)" "r' = r1\<lparr>tmp_path := []\<rparr>" "c' = c1" "fs' = fs2"
      using True snd assms(1) by (auto simp: eq)
    have "b \<Longrightarrow> wire c1 = wire c @ format_ok 0" using send_all_prefix [OF snd] by (metis order_refl take_all)
    with r inst inv(8) send_all_wire_prefix [OF snd] show ?thesis by (auto simp: r1_def)
  qed
qed

text \<open>A request as it is between two rounds: not begun, or in the middle of its body.\<close>

definition put_state :: "fsys \<Rightarrow> request \<Rightarrow> string \<Rightarrow> string \<Rightarrow> request \<Rightarrow> chan \<Rightarrow> fsys \<Rightarrow> bool" where
  "put_state fs0 r0 s w r c fs \<longleftrightarrow> fs_fresh fs0 \<and> dir fs0 (tmp_name r0) = None \<and>
     (admitted_put fs r \<and> fs = fs0 \<and> r = r0 \<and> s = stream r c \<and> wire c = w \<or> put_inv fs0 r0 s w r c fs)"

definition put_take :: "slice_params \<Rightarrow> request \<Rightarrow> nat" where
  "put_take sp r = (let remaining = bytes r - byte_offset r in
     if bounded (sp_policy sp) then min (quantum sp) remaining else remaining)"

lemma put_take_le: "byte_offset r \<le> bytes r \<Longrightarrow> byte_offset r + put_take sp r \<le> bytes r"
  by (auto simp: put_take_def Let_def min_def)

text \<open>The beginning of a round, and the round cut into its parts.\<close>

lemma put_begin_effect:
  assumes "put_start (r\<lparr>rounds := rounds r + 1\<rparr>) c fs = (b, r2, c2, fs2)" and "put_state fs0 r0 s w r c fs"
  shows "rounds r2 = rounds r + 1 \<and>
      (if b then put_inv fs0 r0 s w r2 c2 fs2 \<and> byte_offset r2 = byte_offset r \<and> bytes r2 = bytes r
       else put_failed fs0 r0 w r2 c2 fs2)"
proof -
  define r1 where "r1 = r\<lparr>rounds := rounds r + 1\<rparr>"
  have start: "put_start r1 c fs = (b, r2, c2, fs2)" using assms(1) by (simp add: r1_def)
  have ok: "fs_fresh fs0" "dir fs0 (tmp_name r0) = None" using assms(2) by (simp_all add: put_state_def)
  have keep: "rounds r2 = rounds r1 \<and> byte_offset r2 = byte_offset r1 \<and> bytes r2 = bytes r1"
    using start by (auto simp: put_start_def Let_def split: prod.splits if_splits bool.splits)
  show ?thesis
  proof (cases "started r")
    case True
    with assms(2) have inv: "put_inv fs0 r0 s w r c fs" by (auto simp: put_state_def admitted_put_def)
    with True start have "b" "r2 = r1" "c2 = c" "fs2 = fs" by (simp_all add: put_start_def r1_def)
    with inv show ?thesis
      by (simp add: put_inv_def put_same_def put_open_def stream_def r1_def)
  next
    case False
    then have adm: "admitted_put fs r" "fs = fs0" "r = r0" "s = stream r c" "wire c = w"
      using assms(2) by (auto simp: put_state_def put_inv_def)
    then have adm1: "admitted_put fs0 r1" by (simp add: admitted_put_def tmp_name_def r1_def)
    have tn: "tmp_name r1 = tmp_name r0" using adm(3) by (simp add: tmp_name_def r1_def)
    have eff: "if b then put_inv fs0 r1 (stream r1 c) w r2 c2 fs2 \<and> rounds r2 = rounds r1
        else put_failed fs0 r1 w r2 c2 fs2"
      using put_start_effect [OF _ adm1 ok(1), of c b r2 c2 fs2] start adm(2,5) by (cases b) simp_all
    have r1: "stream r1 c = s" "put_same r1 = put_same r0" "put_fs fs0 r1 = put_fs fs0 r0" "byte_offset r1 = byte_offset r"
      "bytes r1 = bytes r" "rounds r1 = rounds r + 1"
      using adm tn by (simp_all add: stream_def put_same_def put_fs_def r1_def fun_eq_iff)
    with eff keep tn show ?thesis by (simp add: put_inv_def put_failed_def split: if_splits)
  qed
qed

lemma serve_put_parts:
  obtains b r2 c2 fs2 b2 r3 c3 fs3
  where "put_start (r\<lparr>rounds := rounds r + 1\<rparr>) c fs = (b, r2, c2, fs2)"
    and "put_loop (put_take sp r2) 0 r2 c2 fs2 = (b2, r3, c3, fs3)"
    and "serve_put r c fs sp =
      (if \<not> b then (FAILED, r2, c2, fs2)
       else if \<not> b2 then (FAILED, r3, c3, fs3)
       else if byte_offset r3 < bytes r3 then (PREEMPTED, r3, c3, fs3) else put_finish r3 c3 fs3)"
proof -
  obtain b r2 c2 fs2 where start: "put_start (r\<lparr>rounds := rounds r + 1\<rparr>) c fs = (b, r2, c2, fs2)"
    by (rule prod_cases4)
  obtain b2 r3 c3 fs3 where loop: "put_loop (put_take sp r2) 0 r2 c2 fs2 = (b2, r3, c3, fs3)"
    by (rule prod_cases4)
  have "serve_put r c fs sp =
      (if \<not> b then (FAILED, r2, c2, fs2)
       else if \<not> b2 then (FAILED, r3, c3, fs3)
       else if byte_offset r3 < bytes r3 then (PREEMPTED, r3, c3, fs3) else put_finish r3 c3 fs3)"
    using loop unfolding serve_put_def start by (simp only: prod.case put_take_def Let_def) (cases b; cases b2; simp)
  with start loop show thesis by (rule that)
qed

text \<open>One round, whatever the environment does.\<close>

lemma serve_put_effect:
  assumes "serve_put r c fs sp = (res, r', c', fs')" and "put_state fs0 r0 s w r c fs"
  shows "rounds r' = rounds r + 1 \<and>
    (case res of
       PREEMPTED \<Rightarrow> put_inv fs0 r0 s w r' c' fs' \<and> byte_offset r' = byte_offset r + put_take sp r \<and>
         byte_offset r' < bytes r'
     | DONE \<Rightarrow> put_installed fs0 r0 s r' fs' \<and> wire c' = w @ format_ok 0 @ format_ok 0 \<and>
         byte_offset r + put_take sp r = bytes r
     | FAILED \<Rightarrow> put_failed fs0 r0 w r' c' fs' \<or>
         put_installed fs0 r0 s r' fs' \<and> prefix (wire c') (w @ format_ok 0 @ format_ok 0))"
proof -
  obtain b r2 c2 fs2 b2 r3 c3 fs3 where start: "put_start (r\<lparr>rounds := rounds r + 1\<rparr>) c fs = (b, r2, c2, fs2)"
    and loop: "put_loop (put_take sp r2) 0 r2 c2 fs2 = (b2, r3, c3, fs3)"
    and eq: "serve_put r c fs sp =
      (if \<not> b then (FAILED, r2, c2, fs2)
       else if \<not> b2 then (FAILED, r3, c3, fs3)
       else if byte_offset r3 < bytes r3 then (PREEMPTED, r3, c3, fs3) else put_finish r3 c3 fs3)"
    by (rule serve_put_parts)
  have ok: "fs_fresh fs0" "dir fs0 (tmp_name r0) = None" using assms(2) by (simp_all add: put_state_def)
  note begun = put_begin_effect [OF start assms(2)]
  show ?thesis
  proof (cases b)
    case False
    with begun eq assms(1) show ?thesis by simp
  next
    case True
    with begun have inv: "put_inv fs0 r0 s w r2 c2 fs2" and off: "byte_offset r2 = byte_offset r" "bytes r2 = bytes r"
      and rn: "rounds r2 = rounds r + 1" by simp_all
    have take: "put_take sp r2 = put_take sp r" using off by (simp add: put_take_def)
    have le: "byte_offset r2 \<le> bytes r2" using inv by (simp add: put_inv_def)
    have eff: "rounds r3 = rounds r2 \<and>
        (if b2 then put_inv fs0 r0 s w r3 c3 fs3 \<and> byte_offset r3 = byte_offset r2 + put_take sp r
         else put_failed fs0 r0 w r3 c3 fs3)"
      using put_loop_effect [OF loop inv] put_take_le [OF le, of sp] take by simp
    consider (stop) "\<not> b2" | (more) "b2" "byte_offset r3 < bytes r3" | (fin) "b2" "\<not> byte_offset r3 < bytes r3" by blast
    then show ?thesis
    proof cases
      case stop with True eq eff assms(1) rn show ?thesis by simp
    next
      case more with True eq eff assms(1) rn off show ?thesis by simp
    next
      case fin
      with eff have inv3: "put_inv fs0 r0 s w r3 c3 fs3" by simp
      then have e: "byte_offset r3 = bytes r3" using fin(2) by (simp add: put_inv_def)
      have "bytes r3 = bytes r" using inv inv3 off by (simp add: put_inv_def put_same_def)
      with put_finish_effect [OF _ inv3 e ok(2,1), of res r' c' fs'] True fin eq eff assms(1) rn e off show ?thesis by auto
    qed
  qed
qed

section \<open>A run of rounds\<close>

lemma put_inv_state: "put_inv fs0 r0 s w r c fs \<Longrightarrow> fs_fresh fs0 \<Longrightarrow> dir fs0 (tmp_name r0) = None \<Longrightarrow> put_state fs0 r0 s w r c fs"
  by (simp add: put_state_def)

lemma put_state_op: "put_state fs0 r0 s w r c fs \<Longrightarrow> rop r0 = OpPUT \<Longrightarrow> rop r = OpPUT"
  by (auto simp: put_state_def put_inv_def put_same_def)

lemma run_put_Suc:
  "rop r = OpPUT \<Longrightarrow> run_rounds (Suc n) r c fs sp =
     (case serve_put r c fs sp of
        (PREEMPTED, r1, c1, fs1) \<Rightarrow> run_rounds n r1 c1 fs1 sp
      | (res, r1, c1, fs1) \<Rightarrow> (res, r1, c1, fs1, []))"
  by (cases "serve_put r c fs sp"; cases "fst (serve_put r c fs sp)") (simp_all add: serve_slice_def split: prod.splits)

definition put_outcome ::
  "fsys \<Rightarrow> request \<Rightarrow> string \<Rightarrow> string \<Rightarrow> slice_result \<Rightarrow> request \<Rightarrow> chan \<Rightarrow> fsys \<Rightarrow> bool" where
  "put_outcome fs0 r0 s w res r c fs \<longleftrightarrow>
     (case res of
        PREEMPTED \<Rightarrow> put_state fs0 r0 s w r c fs
      | DONE \<Rightarrow> put_installed fs0 r0 s r fs \<and> wire c = w @ format_ok 0 @ format_ok 0
      | FAILED \<Rightarrow> put_failed fs0 r0 w r c fs \<or>
          put_installed fs0 r0 s r fs \<and> prefix (wire c) (w @ format_ok 0 @ format_ok 0))"

lemma run_put_outcome:
  "run_rounds n r c fs sp = (res, r', c', fs', lines) \<Longrightarrow> put_state fs0 r0 s w r c fs \<Longrightarrow> rop r0 = OpPUT \<Longrightarrow>
     put_outcome fs0 r0 s w res r' c' fs' \<and> lines = []"
proof (induction n arbitrary: r c fs)
  case 0
  then show ?case by (simp add: put_outcome_def)
next
  case (Suc n)
  obtain res1 r1 c1 fs1 where rd: "serve_put r c fs sp = (res1, r1, c1, fs1)" by (rule prod_cases4)
  note eff = serve_put_effect [OF rd Suc.prems(2)]
  note run = Suc.prems(1) [unfolded run_put_Suc [OF put_state_op [OF Suc.prems(2,3)]] rd]
  show ?case
  proof (cases res1)
    case PREEMPTED
    with eff Suc.prems(2) have "put_state fs0 r0 s w r1 c1 fs1" by (simp add: put_state_def)
    from Suc.IH [OF _ this Suc.prems(3)] run PREEMPTED show ?thesis by simp
  qed (use run eff in \<open>simp_all add: put_outcome_def\<close>)
qed

section \<open>After the request is released\<close>

lemma visible_update:
  assumes "dir fs = (dir fs0)(p \<mapsto> Reg i)" and "inode fs = (inode fs0)(i := x)" and "\<And>q. dir fs0 q \<noteq> Some (Reg i)"
  shows "visible fs = (visible fs0)(p \<mapsto> x)"
  using assms by (auto simp: visible_def fun_eq_iff split: option.splits dirent.splits)

lemma visible_same:
  assumes "dir fs = dir fs0" and "inode fs = (inode fs0)(i := x)" and "\<And>q. dir fs0 q \<noteq> Some (Reg i)"
  shows "visible fs = visible fs0"
  using assms by (auto simp: visible_def fun_eq_iff split: option.splits dirent.splits)

lemma release_installed_eq:
  "put_installed fs0 r0 s r fs \<Longrightarrow> release_request r fs = (r', fs') \<Longrightarrow> fs' = fs"
  by (simp add: release_request_def put_installed_def Let_def)

lemma release_failed_eq:
  assumes "put_failed fs0 r0 w r c fs" and "release_request r fs = (r', fs')" and "fs_fresh fs0"
    and "dir fs0 (tmp_name r0) = None"
  obtains x where "dir fs' = dir fs0" "inode fs' = (inode fs0)(next_ino fs0 := x)" "fds fs' = fds fs0"
proof -
  let ?t = "tmp_name r0" and ?i = "next_ino fs0"
  have d: "(dir fs0)(?t := None) = dir fs0" using assms(4) by (simp add: fun_upd_idem)
  note next0 = fs_fresh_next [OF assms(3)]
  have f: "(fds fs0)(next_fd fs0 := None) = fds fs0" using next0 by (simp add: fun_upd_idem)
  consider (none) "tmp_path r = []" "file_fd r < 0" "dir fs = dir fs0" "inode fs = inode fs0" "fds fs = fds fs0"
    | (left) x where "tmp_path r = ?t" "put_fs fs0 r0 x fs" "put_open fs0 r fs \<or> file_fd r < 0 \<and> fds fs = fds fs0"
    using assms(1) by (auto simp: put_failed_def)
  then show thesis
  proof cases
    case none
    then have "fs' = fs" using assms(2) by (simp add: release_request_def Let_def)
    with none that [of "inode fs0 ?i"] show thesis by simp
  next
    case left
    show thesis
    proof (cases "file_fd r < 0")
      case True
      with left next0 have "fds fs = fds fs0" by (auto simp: put_open_def)
      with True left assms(2) d that [of x] show thesis
        by (auto simp: release_request_def Let_def sys_unlink_def put_fs_def)
    next
      case False
      with left have "put_open fs0 r fs" by simp
      with False left assms(2) d f that [of x] show thesis
        by (auto simp: release_request_def Let_def sys_unlink_def sys_close_def put_fs_def put_open_def)
    qed
  qed
qed

lemma release_installed:
  assumes "put_installed fs0 r0 s r fs" and "release_request r fs = (r', fs')" and "fs_fresh fs0"
  shows "visible fs' = (visible fs0)(path r0 \<mapsto> take (bytes r0) s)" and "fds fs' = fds fs0"
  using release_installed_eq [OF assms(1,2)] assms(1) visible_update [of fs fs0] fs_fresh_ino [OF assms(3)]
  by (simp_all add: put_installed_def)

lemma release_failed:
  assumes "put_failed fs0 r0 w r c fs" and "release_request r fs = (r', fs')" and "fs_fresh fs0"
    and "dir fs0 (tmp_name r0) = None"
  shows "visible fs' = visible fs0" and "fds fs' = fds fs0"
  using release_failed_eq [OF assms] visible_same [of fs' fs0] fs_fresh_ino [OF assms(3)] by metis+

text \<open>The client can tell: two confirmations arrive only for a file that is in place.\<close>

lemma put_failed_unconfirmed: "put_failed fs0 r0 w r c fs \<Longrightarrow> wire c \<noteq> w @ format_ok 0 @ format_ok 0"
proof
  assume "put_failed fs0 r0 w r c fs" "wire c = w @ format_ok 0 @ format_ok 0"
  then obtain m where "m \<in> set put_replies" "prefix (format_ok 0 @ format_ok 0) m"
    by (auto simp: put_failed_def)
  then show False by (auto simp: put_replies_def format_ok_def format_err_def nat_str.simps [of 0] prefix_def)
qed

section \<open>A healthy environment\<close>

definition put_env_ok :: "chan \<Rightarrow> fsys \<Rightarrow> bool" where
  "put_env_ok c fs \<longleftrightarrow> sends_ok c \<and> recvs_ok c \<and> list_all io_event_ok (write_script fs) \<and>
     list_all id (open_script fs) \<and> list_all id (rename_script fs)"

lemma recvs_ok_frame: "inbox c' = inbox c \<Longrightarrow> recvs_ok c' = recvs_ok c"
  by (simp add: recvs_ok_def)

lemma list_all_id_hd: "list_all id bs \<Longrightarrow> (bs = [] \<or> hd bs) \<and> list_all id (tl bs)"
  by (cases bs) auto

lemma send_all_env:
  assumes "send_all d c = (b, c')" and "put_env_ok c fs"
  shows "b \<and> put_env_ok c' fs"
  using send_all_ok [OF _ assms(1)] assms(2) recvs_ok_frame [of c' c] by (simp add: put_env_ok_def)

lemma put_start_ok:
  assumes "put_start r c fs = (b, r', c', fs')" and "put_env_ok c fs"
    and "started r \<or> dir fs (tmp_name r) = None \<and> 0 \<le> next_fd fs"
  shows "b \<and> put_env_ok c' fs'"
proof (cases "started r")
  case True
  with assms show ?thesis by (simp add: put_start_def)
next
  case False
  obtain b1 c1 where snd: "send_all (format_ok 0) c = (b1, c1)" by (cases "send_all (format_ok 0) c")
  have scripts: "open_script fs = [] \<or> hd (open_script fs)" "list_all id (tl (open_script fs))"
    using assms(2) list_all_id_hd [of "open_script fs"] by (simp_all add: put_env_ok_def)
  show ?thesis
    using assms(1,3) False snd scripts send_all_env [OF snd assms(2)]
    by (auto simp: put_start_first sys_open_trunc_def Let_def put_env_ok_def)
qed

lemma put_loop_ok:
  "put_loop tk dn r c fs = (b, r', c', fs') \<Longrightarrow> put_env_ok c fs \<Longrightarrow> fds fs (file_fd r) \<noteq> None \<Longrightarrow>
     tk - dn \<le> length (stream r c) \<Longrightarrow> b \<and> put_env_ok c' fs'"
proof (induction tk dn r c fs arbitrary: b r' c' fs' rule: put_loop.induct)
  case (1 tk dn r c fs)
  show ?case
  proof (cases "dn < tk")
    case False
    with "1.prems" show ?thesis by (simp add: put_loop_end)
  next
    case True
    define n where "n = min (min tk kChunk) (tk - dn)"
    obtain ok buf lo c1 where rd: "read_exact (leftover r) n kBodyChunkTimeoutMs c = (ok, buf, lo, c1)"
      by (rule prod_cases4)
    have "n \<le> length (leftover r) + length (incoming c)" using "1.prems"(4) by (simp add: n_def stream_def)
    with read_exact_complete [of c n "leftover r" kBodyChunkTimeoutMs] rd "1.prems"(2)
    have ok: "ok = True" "recvs_ok c1" by (auto simp: put_env_ok_def)
    note snd = read_exact_sound [OF rd]
    define r1 where "r1 = r\<lparr>leftover := lo\<rparr>"
    obtain w1 fs1 where wr: "write_all (file_fd r1) buf fs = (w1, fs1)" by (cases "write_all (file_fd r1) buf fs")
    have fd: "writes_ok (file_fd r1) fs" using "1.prems"(2,3) by (simp add: writes_ok_def put_env_ok_def r1_def)
    note wok = fwrite.loop_ok [OF fd wr]
    note eq = but_contents_eq [OF fwrite.loop_frame [OF wr]]
    have w1: "w1 = True" using wok(1) by simp
    define r2 where "r2 = r1\<lparr>byte_offset := byte_offset r1 + n\<rparr>"
    have env: "put_env_ok c1 fs1"
      using "1.prems"(2) ok snd wok(3) eq by (simp add: put_env_ok_def sends_ok_def writes_ok_def)
    have rest: "put_loop tk (dn + n) r2 c1 fs1 = (b, r', c', fs')"
      using "1.prems"(1) rd ok wr w1
      by (simp add: put_loop_unfold [OF True] n_def [symmetric] Let_def r1_def r2_def)
    have "length buf + length (stream r2 c1) = length (stream r c)"
      using arg_cong [OF snd(1), of length] by (simp add: stream_def r2_def r1_def)
    then have len: "tk - (dn + n) \<le> length (stream r2 c1)" using snd(2) ok "1.prems"(4) by simp
    have "fds fs1 (file_fd r2) \<noteq> None" using "1.prems"(3) eq(2) by (simp add: r2_def r1_def)
    from "1.IH" [OF True n_def rd [symmetric] refl refl r1_def _ wr [symmetric] w1, folded r2_def, OF _ rest env this len] ok
    show ?thesis by simp
  qed
qed

lemma put_finish_ok:
  assumes "put_finish r c fs = (res, r', c', fs')" and "put_env_ok c fs"
    and "dir fs (tmp_path r) = Some (Reg i)" and "dir fs (path r) \<noteq> Some Other"
  shows "res = DONE"
proof -
  have "rename_script fs = [] \<or> hd (rename_script fs)"
    using assms(2) list_all_id_hd [of "rename_script fs"] by (simp add: put_env_ok_def)
  moreover obtain b c1 where snd: "send_all (format_ok 0) c = (b, c1)" by (cases "send_all (format_ok 0) c")
  ultimately show ?thesis
    using assms(1,3,4) send_all_env [OF snd assms(2)]
    by (auto simp: put_finish_def sys_rename_def sys_close_def Let_def split: option.splits dirent.splits)
qed

text \<open>
  One round in a healthy environment whose peer delivers the whole body does not fail, and leaves
  the environment healthy when there are rounds to come.
\<close>

lemma serve_put_ok:
  assumes "serve_put r c fs sp = (res, r', c', fs')" and "put_state fs0 r0 s w r c fs"
    and "put_env_ok c fs" and "bytes r0 \<le> length s" and "dir fs0 (path r0) \<noteq> Some Other"
  shows "res \<noteq> FAILED \<and> (res = PREEMPTED \<longrightarrow> put_env_ok c' fs')"
proof -
  obtain b r2 c2 fs2 b2 r3 c3 fs3 where start: "put_start (r\<lparr>rounds := rounds r + 1\<rparr>) c fs = (b, r2, c2, fs2)"
    and loop: "put_loop (put_take sp r2) 0 r2 c2 fs2 = (b2, r3, c3, fs3)"
    and eq: "serve_put r c fs sp =
      (if \<not> b then (FAILED, r2, c2, fs2)
       else if \<not> b2 then (FAILED, r3, c3, fs3)
       else if byte_offset r3 < bytes r3 then (PREEMPTED, r3, c3, fs3) else put_finish r3 c3 fs3)"
    by (rule serve_put_parts)
  have "started (r\<lparr>rounds := rounds r + 1\<rparr>) \<or> dir fs (tmp_name (r\<lparr>rounds := rounds r + 1\<rparr>)) = None \<and> 0 \<le> next_fd fs"
    using assms(2) by (auto simp: put_state_def put_inv_def fs_fresh_def tmp_name_def)
  note b = put_start_ok [OF start assms(3) this]
  then have inv: "put_inv fs0 r0 s w r2 c2 fs2" using put_begin_effect [OF start assms(2)] by simp
  have le: "byte_offset r2 \<le> bytes r2" using inv by (simp add: put_inv_def)
  note tk = put_take_le [OF le, of sp]
  have "bytes r2 - byte_offset r2 \<le> length (stream r2 c2)" using inv assms(4) by (simp add: put_inv_def put_same_def diff_le_mono)
  with tk have len: "put_take sp r2 - 0 \<le> length (stream r2 c2)" by linarith
  have "fds fs2 (file_fd r2) \<noteq> None" using inv by (simp add: put_inv_def put_open_def)
  note b2 = put_loop_ok [OF loop conjunct2 [OF b] this len]
  show ?thesis
  proof (cases "byte_offset r3 < bytes r3")
    case True
    with eq b b2 assms(1) show ?thesis by simp
  next
    case False
    have inv3: "put_inv fs0 r0 s w r3 c3 fs3" using put_loop_effect [OF loop inv] b2 tk by simp
    then have t: "dir fs3 (tmp_path r3) = Some (Reg (next_ino fs0))" "dir fs3 (path r3) \<noteq> Some Other"
      using assms(5) by (auto simp: put_inv_def put_fs_def put_same_def)
    have "put_finish r3 c3 fs3 = (res, r', c', fs')" using False eq b b2 assms(1) by simp
    from put_finish_ok [OF this conjunct2 [OF b2] t] show ?thesis by simp
  qed
qed

section \<open>Rounds\<close>

text \<open>
  A healthy run: under a quantum each round but the last takes exactly one quantum of the body.
\<close>

lemma run_put_rounds:
  "run_rounds n r c fs sp = (res, r', c', fs', lines) \<Longrightarrow> put_state fs0 r0 s w r c fs \<Longrightarrow> rop r0 = OpPUT \<Longrightarrow>
     put_env_ok c fs \<Longrightarrow> bytes r0 \<le> length s \<Longrightarrow> dir fs0 (path r0) \<noteq> Some Other \<Longrightarrow> bytes r = bytes r0 \<Longrightarrow>
     byte_offset r \<le> bytes r \<Longrightarrow> 0 < n \<Longrightarrow>
     (bounded (sp_policy sp) \<longrightarrow>
        (if bytes r0 \<le> byte_offset r + n * quantum sp
         then res = DONE \<and> rounds r < rounds r' \<and>
           bytes r0 \<le> byte_offset r + (rounds r' - rounds r) * quantum sp \<and>
           (rounds r' = Suc (rounds r) \<or> byte_offset r + (rounds r' - rounds r - 1) * quantum sp < bytes r0)
         else res = PREEMPTED \<and> rounds r' = rounds r + n \<and> byte_offset r' = byte_offset r + n * quantum sp)) \<and>
     (\<not> bounded (sp_policy sp) \<longrightarrow> res = DONE \<and> rounds r' = Suc (rounds r))"
proof (induction n arbitrary: r c fs)
  case 0
  then show ?case by simp
next
  case (Suc n)
  let ?q = "quantum sp"
  obtain res1 r1 c1 fs1 where rd: "serve_put r c fs sp = (res1, r1, c1, fs1)" by (rule prod_cases4)
  note eff = serve_put_effect [OF rd Suc.prems(2)]
  note okr = serve_put_ok [OF rd Suc.prems(2,4,5,6)]
  note run = Suc.prems(1) [unfolded run_put_Suc [OF put_state_op [OF Suc.prems(2,3)]] rd]
  show ?case
  proof (cases res1)
    case FAILED
    with okr show ?thesis by simp
  next
    case DONE
    with run eff have r': "res = DONE" "rounds r' = Suc (rounds r)" "byte_offset r + put_take sp r = bytes r" by simp_all
    have "bytes r \<le> byte_offset r + ?q" if "bounded (sp_policy sp)"
      using r'(3) that by (simp add: put_take_def Let_def min_def split: if_splits)
    with r' Suc.prems(7) show ?thesis by (simp add: trans_le_add1 add.assoc [symmetric])
  next
    case PREEMPTED
    with eff have inv: "put_inv fs0 r0 s w r1 c1 fs1" and off: "byte_offset r1 = byte_offset r + put_take sp r"
      and lt: "byte_offset r1 < bytes r1" and rn: "rounds r1 = rounds r + 1" by simp_all
    have b1: "bytes r1 = bytes r0" using inv by (simp add: put_inv_def put_same_def)
    have tk: "put_take sp r = ?q" "bounded (sp_policy sp)"
      using off lt b1 Suc.prems(7,8) by (auto simp: put_take_def Let_def min_def split: if_splits)
    have st: "put_state fs0 r0 s w r1 c1 fs1" using inv Suc.prems(2) by (simp add: put_state_def)
    have rest: "run_rounds n r1 c1 fs1 sp = (res, r', c', fs', lines)" using run PREEMPTED by simp
    show ?thesis
    proof (cases n)
      case 0
      with rest tk off lt b1 rn Suc.prems(7) show ?thesis by simp
    next
      case (Suc m)
      note ih = Suc.IH [OF rest st Suc.prems(3) conjunct2 [OF okr, rule_format, OF PREEMPTED] Suc.prems(5,6) b1 less_imp_le [OF lt],
          unfolded off tk(1) rn, simplified tk(2) simp_thms]
      have sum: "byte_offset r + ?q + n * ?q = byte_offset r + Suc n * ?q" by simp
      show ?thesis
      proof (cases "bytes r0 \<le> byte_offset r + Suc n * ?q")
        case True
        with ih sum \<open>n = Suc m\<close> have fin: "res = DONE" "rounds r + 1 < rounds r'"
          "bytes r0 \<le> byte_offset r + ?q + (rounds r' - (rounds r + 1)) * ?q"
          "rounds r' = Suc (rounds r + 1) \<or> byte_offset r + ?q + (rounds r' - (rounds r + 1) - 1) * ?q < bytes r0"
          by auto
        from fin(2) obtain k where k: "rounds r' = rounds r + 1 + Suc k" using less_imp_Suc_add [of "rounds r + 1"] by auto
        have "byte_offset r + ?q < bytes r0" using lt off tk(1) b1 by simp
        with fin True tk(2) show ?thesis by (auto simp: k)
      next
        case False
        with ih sum \<open>n = Suc m\<close> tk(2) show ?thesis by auto
      qed
    qed
  qed
qed

section \<open>Properties\<close>

lemma admitted_put_state:
  "admitted_put fs r \<Longrightarrow> fs_ok fs \<Longrightarrow> put_state fs r (stream r c) (wire c) r c fs"
  by (simp add: put_state_def admitted_put_def fs_ok_fs_fresh)

definition sample_put :: request where
  "sample_put = new_request\<lparr>rid := 9, rop := OpPUT, filename := ''f'', path := ''d/f'', bytes := 5, leftover := ''ab''\<rparr>"

definition sample_put_chan :: chan where
  "sample_put_chan = \<lparr>out = [], send_script = [Accept 1], send_calls = 0, inbox = [Data ''cd'', Data ''efg'']\<rparr>"

lemma sample_put_facts:
  "admitted_put empty_fs sample_put" "fs_ok empty_fs" "put_env_ok sample_put_chan empty_fs"
  "stream sample_put sample_put_chan = ''abcdefg''" "bytes sample_put = 5" "path sample_put = ''d/f''" "rounds sample_put = 0"
  by (simp_all add: admitted_put_def fs_ok_def put_env_ok_def sample_put_def sample_put_chan_def empty_fs_def
      new_request_def stream_def incoming_def sends_ok_def recvs_ok_def)

text \<open>
  C12. A PUT is an atomic update, whatever the kernel and the peer do: once the request is released,
  the map from names to file contents is either what it was, or it has changed at the destination
  only, to exactly the first \<open>bytes\<close> bytes the peer sent after the header. It has changed if the
  request is done, and if the client has received its second confirmation; and no descriptor is left
  open and no temporary file left behind.
\<close>

theorem put_atomic:
  assumes "admitted_put fs r" and "fs_ok fs" and "run_rounds n r c fs sp = (res, r', c', fs', lines)"
    and "res \<noteq> PREEMPTED" and "release_request r' fs' = (r'', fs'')"
  shows "let new = (visible fs)(path r \<mapsto> take (bytes r) (stream r c)) in
     (visible fs'' = visible fs \<or> visible fs'' = new \<and> bytes r \<le> length (stream r c)) \<and>
     (res = DONE \<longrightarrow> visible fs'' = new \<and> wire c' = wire c @ format_ok 0 @ format_ok 0) \<and>
     (wire c' = wire c @ format_ok 0 @ format_ok 0 \<longrightarrow> visible fs'' = new) \<and>
     fds fs'' = fds fs"
proof -
  have op: "rop r = OpPUT" "dir fs (tmp_name r) = None" using assms(1) by (simp_all add: admitted_put_def)
  have oc: "put_outcome fs r (stream r c) (wire c) res r' c' fs'"
    using run_put_outcome [OF assms(3) admitted_put_state [OF assms(1,2)] op(1)] by simp
  consider (inst) "put_installed fs r (stream r c) r' fs'" "res = DONE \<longrightarrow> wire c' = wire c @ format_ok 0 @ format_ok 0"
    | (fail) "put_failed fs r (wire c) r' c' fs'" "res = FAILED"
    using oc assms(4) by (cases res) (auto simp: put_outcome_def)
  then show ?thesis
  proof cases
    case inst
    from release_installed [OF inst(1) assms(5) fs_ok_fs_fresh [OF assms(2)]] inst show ?thesis by (simp add: Let_def put_installed_def)
  next
    case fail
    from release_failed [OF fail(1) assms(5) fs_ok_fs_fresh [OF assms(2)] op(2)] put_failed_unconfirmed [OF fail(1)] fail(2)
    show ?thesis by (simp add: Let_def)
  qed
qed

text \<open>
  C13. Under a quantum a PUT whose peer delivers the body takes exactly \<open>ceil (bytes / quantum)\<close>
  rounds (one for an empty body), every round but the last taking one quantum; without a quantum it
  takes one round. Nothing is forfeited and no deficit is kept.
\<close>

theorem put_rounds:
  assumes "admitted_put fs r" and "fs_ok fs" and "put_env_ok c fs" and "bytes r \<le> length (stream r c)"
    and "dir fs (path r) \<noteq> Some Other" and "rounds r = 0"
    and "run_rounds (Suc n) r c fs sp = (res, r', c', fs', lines)"
  shows "(bounded (sp_policy sp) \<longrightarrow>
       (if bytes r \<le> Suc n * quantum sp
        then res = DONE \<and> rounds r' = max 1 ((bytes r + quantum sp - 1) div quantum sp)
        else res = PREEMPTED \<and> byte_offset r' = Suc n * quantum sp)) \<and>
     (\<not> bounded (sp_policy sp) \<longrightarrow> res = DONE \<and> rounds r' = 1)"
proof -
  have op: "rop r = OpPUT" "byte_offset r = 0" using assms(1) by (simp_all add: admitted_put_def)
  note run = run_put_rounds [OF assms(7) admitted_put_state [OF assms(1,2)] op(1) assms(3,4,5) refl _ zero_less_Suc,
      unfolded op(2) assms(6), simplified]
  have "rounds r' = max 1 ((bytes r + quantum sp - 1) div quantum sp)"
    if "bounded (sp_policy sp)" "bytes r \<le> Suc n * quantum sp"
  proof (rule ceil_rounds)
    show "bytes r \<le> rounds r' * quantum sp" "rounds r' = 1 \<or> (rounds r' - 1) * quantum sp < bytes r" "1 \<le> rounds r'"
      using run that by auto
  qed
  with run show ?thesis by auto
qed

theorem put_atomic_witness:
  "case run_rounds 3 sample_put sample_put_chan empty_fs \<lparr>sp_policy = RR, quantum = 2, p_lines = 1\<rparr> of
     (res, r', c', fs', lines) \<Rightarrow> visible (snd (release_request r' fs')) = (visible empty_fs)(''d/f'' \<mapsto> ''abcde'')"
proof -
  let ?sp = "\<lparr>sp_policy = RR, quantum = 2, p_lines = 1\<rparr>"
  obtain res r' c' fs' lines where run: "run_rounds (Suc 2) sample_put sample_put_chan empty_fs ?sp = (res, r', c', fs', lines)"
    by (rule prod_cases5)
  have fin: "res = DONE"
    using run_put_rounds [OF run admitted_put_state [OF sample_put_facts(1,2)]] sample_put_facts
    by (simp add: admitted_put_def empty_fs_def)
  obtain r'' fs'' where rel: "release_request r' fs' = (r'', fs'')" by (cases "release_request r' fs'")
  from put_atomic [OF sample_put_facts(1,2) run _ rel] fin run rel show ?thesis
    by (simp add: sample_put_facts Let_def numeral_3_eq_3 numeral_2_eq_2 del: run_rounds.simps)
qed

theorem put_rounds_witness:
  "case run_rounds 3 sample_put sample_put_chan empty_fs \<lparr>sp_policy = DRR, quantum = 2, p_lines = 1\<rparr> of
     (res, r', c', fs', lines) \<Rightarrow> res = DONE \<and> rounds r' = 3"
proof -
  let ?sp = "\<lparr>sp_policy = DRR, quantum = 2, p_lines = 1\<rparr>"
  obtain res r' c' fs' lines where run: "run_rounds 3 sample_put sample_put_chan empty_fs ?sp = (res, r', c', fs', lines)"
    by (rule prod_cases5)
  from put_rounds [OF sample_put_facts(1-3), of 2 ?sp res r' c' fs' lines] run show ?thesis
    by (simp add: sample_put_facts empty_fs_def numeral_3_eq_3 del: run_rounds.simps)
qed

text \<open>
  C14. While a PUT is in progress nobody can see it: after any number of rounds every name but that of
  the temporary file shows what it showed before, and a download that was admitted earlier still has
  its own version of its file, also after the PUT has replaced that file.
\<close>

theorem put_in_progress_invisible:
  assumes "admitted_put fs r" and "fs_ok fs" and "run_rounds n r c fs sp = (res, r', c', fs', lines)"
  shows "(res = PREEMPTED \<longrightarrow> p \<noteq> tmp_name r \<longrightarrow> visible fs' p = visible fs p) \<and>
    (file_view fs g data \<longrightarrow> file_view fs' g data)"
proof -
  let ?i = "next_ino fs"
  have op: "rop r = OpPUT" using assms(1) by (simp add: admitted_put_def)
  have oc: "put_outcome fs r (stream r c) (wire c) res r' c' fs'"
    using run_put_outcome [OF assms(3) admitted_put_state [OF assms(1,2)] op] by simp
  have inode: "\<exists>x. inode fs' = (inode fs)(?i := x)"
  proof -
    from oc show ?thesis
      by (cases res) (auto intro: exI [of _ "inode fs ?i"]
          simp: put_outcome_def put_state_def put_inv_def put_failed_def put_installed_def put_fs_def)
  qed
  have fds: "fds fs' = fds fs \<or> fds fs' = (fds fs)(next_fd fs \<mapsto> ?i)"
    using oc by (cases res) (auto simp: put_outcome_def put_state_def put_inv_def put_failed_def put_installed_def put_open_def)
  have "file_view fs' g data" if "file_view fs g data"
  proof -
    from that obtain j where j: "fds fs (file_fd g) = Some j" "data = take (bytes g) (inode fs j)" "length data = bytes g"
      by (auto simp: file_view_def)
    have "j \<noteq> ?i" "file_fd g \<noteq> next_fd fs" using j(1) assms(2) by (auto simp: fs_ok_def)
    with j inode fds show ?thesis by (auto simp: file_view_def)
  qed
  moreover have "visible fs' p = visible fs p" if "res = PREEMPTED" "p \<noteq> tmp_name r"
  proof -
    have "dir fs' p = dir fs p"
      using oc that by (auto simp: put_outcome_def put_state_def put_inv_def put_fs_def)
    with inode fs_fresh_ino [OF fs_ok_fs_fresh [OF assms(2)], of p] show ?thesis
      by (auto simp: visible_def split: option.splits dirent.splits)
  qed
  ultimately show ?thesis by blast
qed

theorem put_in_progress_invisible_witness:
  "case run_rounds 2 sample_put sample_put_chan empty_fs \<lparr>sp_policy = RR, quantum = 2, p_lines = 1\<rparr> of
     (res, r', c', fs', lines) \<Rightarrow> visible fs' ''d/f'' = None"
proof -
  let ?sp = "\<lparr>sp_policy = RR, quantum = 2, p_lines = 1\<rparr>"
  obtain res r' c' fs' lines where run: "run_rounds (Suc 1) sample_put sample_put_chan empty_fs ?sp = (res, r', c', fs', lines)"
    by (rule prod_cases5)
  have "res = PREEMPTED"
    using run_put_rounds [OF run admitted_put_state [OF sample_put_facts(1,2)]] sample_put_facts
    by (simp add: admitted_put_def empty_fs_def)
  moreover have "''d/f'' \<noteq> tmp_name sample_put" using tmp_name_neq(3) [of sample_put] by (simp add: sample_put_facts)
  ultimately show ?thesis
    using put_in_progress_invisible [OF sample_put_facts(1,2) run, of "''d/f''"] run
    by (simp add: visible_def empty_fs_def numeral_2_eq_2 del: run_rounds.simps)
qed

end
