(* ===== verification/Csv_Writer.thy ===== *)
theory Csv_Writer
  imports Request
begin

text \<open>
  \<open>CsvWriter\<close> of \<open>src/common/csv_writer.h\<close> and \<open>csv_writer.cpp\<close>: the per-request metrics file. Each
  operation runs under the writer's mutex, so it is one step; an output stream that has been closed
  ignores what is written to it.
\<close>

record csv_writer =
  out_text :: string
  out_open :: bool

definition kHeader :: string where
  "kHeader = ''request_id,op,filename,bytes,rounds,forfeited_bytes,arrival_ns,start_ns,finish_ns''"

definition csv_row :: "request \<Rightarrow> string" where
  "csv_row req =
     nat_str (rid req) @ '','' @ op_to_string (rop req) @ '','' @ filename req @ '','' @
     nat_str (bytes req) @ '','' @ nat_str (rounds req) @ '','' @ nat_str (forfeited_bytes req) @ '','' @
     nat_str (arrival_ns req) @ '','' @ nat_str (start_ns req) @ '','' @ nat_str (finish_ns req) @ [NL]"

definition csv_open :: csv_writer where
  "csv_open = \<lparr>out_text = kHeader @ [NL], out_open = True\<rparr>"

definition write_row :: "request \<Rightarrow> csv_writer \<Rightarrow> csv_writer" where
  "write_row req w = (if out_open w then w\<lparr>out_text := out_text w @ csv_row req\<rparr> else w)"

definition csv_close :: "csv_writer \<Rightarrow> csv_writer" where
  "csv_close w = w\<lparr>out_open := False\<rparr>"

lemma fold_write_row:
  "out_open w \<Longrightarrow> fold write_row reqs w = w\<lparr>out_text := out_text w @ concat (map csv_row reqs)\<rparr>"
  by (induction reqs arbitrary: w) (auto simp: write_row_def)

end
