(* ===== verification/C_Numbers.thy ===== *)
theory C_Numbers
  imports Prelude
begin

text \<open>
  \<open>strtoull\<close> and \<open>strtol\<close> of the C library, and the narrowing cast, as the command lines of the server
  and of the client use them.
\<close>

section \<open>strtoull and strtol\<close>

text \<open>
  Base 10: white space, a sign, digits. \<open>None\<close> means that no digit was found, so \<open>end\<close> is the start
  of the text; otherwise the value and the unread rest. The value saturates; \<open>strtoull\<close> negates
  modulo \<open>2 ^ 64\<close>.
\<close>

definition strto_parts :: "string \<Rightarrow> (bool \<times> nat \<times> string) option" where
  "strto_parts s =
     (let t = dropWhile is_space s;
          (neg, d) = (case t of c # r \<Rightarrow> if c = CHR ''-'' then (True, r)
                        else if c = CHR ''+'' then (False, r) else (False, t) | [] \<Rightarrow> (False, []));
          ds = takeWhile is_digit d in
      if ds = [] then None else Some (neg, dec_val ds, dropWhile is_digit d))"

definition strtoull :: "string \<Rightarrow> (nat \<times> string) option" where
  "strtoull s =
     (case strto_parts s of
        None \<Rightarrow> None
      | Some (neg, v, rest) \<Rightarrow>
          Some (if v > u64_max then u64_max
                else if neg then (u64_max + 1 - v) mod (u64_max + 1) else v, rest))"

definition long_max :: int where "long_max = 9223372036854775807"

definition strtol :: "string \<Rightarrow> (int \<times> string) option" where
  "strtol s =
     (case strto_parts s of
        None \<Rightarrow> None
      | Some (neg, v, rest) \<Rightarrow>
          Some (if neg then max (- long_max - 1) (- int v) else min long_max (int v), rest))"

text \<open>\<open>static_cast<int>\<close> of a \<open>long\<close> keeps the low 32 bits.\<close>

definition to_int32 :: "int \<Rightarrow> int" where
  "to_int32 n = (n + 2147483648) mod 4294967296 - 2147483648"

lemma strto_parts_digits:
  assumes "s \<noteq> []" and "list_all is_digit s"
  shows "strto_parts s = Some (False, dec_val s, [])"
proof -
  obtain c r where s: "s = c # r" using assms(1) by (cases s) auto
  with assms(2) have c: "is_digit c" by simp
  have "dropWhile is_space s = s" using is_digit_not_space [OF c] by (simp add: s)
  moreover have "c \<noteq> CHR ''-''" "c \<noteq> CHR ''+''" using is_digit_neq(8,9) [OF c] by simp_all
  ultimately show ?thesis
    using s takeWhile_all [OF assms(2)] dropWhile_all [OF assms(2)] by (simp add: strto_parts_def)
qed

lemma strtoull_nat_str: "n \<le> u64_max \<Longrightarrow> strtoull (nat_str n) = Some (n, [])"
  using strto_parts_digits [of "nat_str n"] by (simp add: strtoull_def)

lemma to_int32_range: "- 2147483648 \<le> to_int32 n" "to_int32 n \<le> 2147483647"
proof -
  have "0 \<le> (n + 2147483648) mod 4294967296" "(n + 2147483648) mod 4294967296 < 4294967296" by simp_all
  then show "- 2147483648 \<le> to_int32 n" "to_int32 n \<le> 2147483647" by (simp_all add: to_int32_def)
qed

end
