(* ===== verification/Server_Args.thy ===== *)
theory Server_Args
  imports Scheduler C_Numbers
begin

text \<open>
  The server's command line: \<open>Args\<close> and \<open>parse_args\<close> of \<open>src/server/main.cpp\<close>. \<open>usage_error\<close> prints
  its message and exits, which is \<open>Inl\<close> of the message; whether a path is a directory is asked of
  the argument \<open>is_dir\<close>.
\<close>

section \<open>parse_args\<close>

record args =
  a_sched :: string
  a_has_quantum :: bool
  a_quantum :: nat
  a_file_dir :: string
  a_p_lines :: int
  a_config_path :: string
  a_metrics_out :: string

definition default_args :: args where
  "default_args =
     \<lparr>a_sched = [], a_has_quantum = False, a_quantum = 0, a_file_dir = [], a_p_lines = 1,
      a_config_path = ''config.json'', a_metrics_out = ''metrics.csv''\<rparr>"

definition parse_quantum :: "string \<Rightarrow> nat option" where
  "parse_quantum v =
     (case strtoull v of
        None \<Rightarrow> None
      | Some (q, rest) \<Rightarrow> if rest \<noteq> [] \<or> q = 0 \<or> hd v = CHR ''-'' then None else Some q)"

definition parse_p :: "string \<Rightarrow> int option" where
  "parse_p v =
     (case strtol v of
        None \<Rightarrow> None
      | Some (n, rest) \<Rightarrow> if rest \<noteq> [] \<or> n < 1 then None else Some (to_int32 n))"

text \<open>The loop over \<open>argv\<close>; the booleans are \<open>have_sched\<close> and \<open>have_file\<close>.\<close>

fun args_loop :: "string list \<Rightarrow> args \<Rightarrow> bool \<Rightarrow> bool \<Rightarrow> string + (args \<times> bool \<times> bool)" where
  "args_loop [] args have_sched have_file = Inr (args, have_sched, have_file)"
| "args_loop [a] args have_sched have_file =
     (if a \<in> {''--sched'', ''--quantum'', ''--file'', ''--p'', ''--config'', ''--metrics-out''}
      then Inl (''missing value for '' @ a)
      else Inl (''unknown flag '' @ [CHR 0x27] @ a @ [CHR 0x27]))"
| "args_loop (a # v # rest) args have_sched have_file =
     (if a = ''--sched'' then args_loop rest (args\<lparr>a_sched := v\<rparr>) True have_file
      else if a = ''--quantum'' then
        (case parse_quantum v of
           None \<Rightarrow> Inl ''--quantum must be a positive integer (bytes per round)''
         | Some q \<Rightarrow> args_loop rest (args\<lparr>a_quantum := q, a_has_quantum := True\<rparr>) have_sched have_file)
      else if a = ''--file'' then args_loop rest (args\<lparr>a_file_dir := v\<rparr>) have_sched True
      else if a = ''--p'' then
        (case parse_p v of
           None \<Rightarrow> Inl ''--p must be a positive integer (lines per write)''
         | Some n \<Rightarrow> args_loop rest (args\<lparr>a_p_lines := n\<rparr>) have_sched have_file)
      else if a = ''--config'' then args_loop rest (args\<lparr>a_config_path := v\<rparr>) have_sched have_file
      else if a = ''--metrics-out'' then args_loop rest (args\<lparr>a_metrics_out := v\<rparr>) have_sched have_file
      else Inl (''unknown flag '' @ [CHR 0x27] @ a @ [CHR 0x27]))"

definition check_args :: "(string \<Rightarrow> bool) \<Rightarrow> args \<Rightarrow> bool \<Rightarrow> bool \<Rightarrow> string + args" where
  "check_args is_dir args have_sched have_file =
     (let needs_quantum = (a_sched args = ''rr'' \<or> a_sched args = ''drr'') in
      if \<not> have_sched then Inl ''missing required flag --sched''
      else if a_sched args \<noteq> ''fcfs'' \<and> a_sched args \<noteq> ''sjf'' \<and> a_sched args \<noteq> ''rr'' \<and> a_sched args \<noteq> ''drr''
      then Inl ''--sched must be one of fcfs, sjf, rr, drr''
      else if \<not> have_file then Inl ''missing required flag --file''
      else if needs_quantum \<and> \<not> a_has_quantum args
      then Inl ''--quantum is required when --sched is rr or drr''
      else if \<not> needs_quantum \<and> a_has_quantum args
      then Inl ''--quantum is not allowed with --sched fcfs or sjf''
      else if \<not> is_dir (a_file_dir args)
      then Inl (''--file '' @ [CHR 0x27] @ a_file_dir args @ [CHR 0x27] @ '' is not an existing directory'')
      else Inr args)"

definition parse_args :: "(string \<Rightarrow> bool) \<Rightarrow> string list \<Rightarrow> string + args" where
  "parse_args is_dir argv =
     (case args_loop argv default_args False False of
        Inl e \<Rightarrow> Inl e
      | Inr (args, have_sched, have_file) \<Rightarrow> check_args is_dir args have_sched have_file)"

section \<open>Numbers on the command line\<close>

lemma parse_quantum_nat_str:
  assumes "1 \<le> n" and "n \<le> u64_max"
  shows "parse_quantum (nat_str n) = Some n"
proof -
  have "hd (nat_str n) \<noteq> CHR ''-''" using is_digit_neq(8) [OF hd_nat_str_digit] .
  with strto_parts_digits [of "nat_str n"] assms show ?thesis
    by (simp add: parse_quantum_def strtoull_def)
qed

lemma parse_p_nat_str:
  assumes "1 \<le> n" and "n < 2147483648"
  shows "parse_p (nat_str n) = Some (int n)"
  using strto_parts_digits [of "nat_str n"] assms
  by (simp add: parse_p_def strtol_def long_max_def to_int32_def)

lemma parse_quantum_range: "parse_quantum v = Some q \<Longrightarrow> 1 \<le> q \<and> q \<le> u64_max"
proof -
  assume "parse_quantum v = Some q"
  then obtain r where r: "strtoull v = Some (q, r)" "q \<noteq> 0"
    by (auto simp: parse_quantum_def split: option.splits if_splits)
  have "a mod (u64_max + 1) \<le> u64_max" for a by (simp add: less_Suc_eq_le [symmetric])
  with r show ?thesis by (auto simp: strtoull_def split: option.splits if_splits)
qed

section \<open>Properties\<close>

lemma args_loop_quantum:
  "args_loop argv a hs hf = Inr (a', hs', hf') \<Longrightarrow> (a_has_quantum a \<longrightarrow> 1 \<le> a_quantum a \<and> a_quantum a \<le> u64_max) \<Longrightarrow>
     (a_has_quantum a' \<longrightarrow> 1 \<le> a_quantum a' \<and> a_quantum a' \<le> u64_max)"
proof (induction argv a hs hf rule: args_loop.induct)
  case (3 a v rest args hs hf)
  then show ?case
    by (auto dest: parse_quantum_range split: if_splits option.splits)
qed (auto split: if_splits)

lemma parse_args_accepted:
  assumes "parse_args is_dir argv = Inr a"
  shows "a_sched a \<in> {''fcfs'', ''sjf'', ''rr'', ''drr''} \<and> make_scheduler (a_sched a) = parse_policy (a_sched a) \<and>
    is_dir (a_file_dir a) \<and>
    (a_has_quantum a \<longleftrightarrow> parse_policy (a_sched a) \<in> {RR, DRR}) \<and>
    (a_has_quantum a \<longrightarrow> 1 \<le> a_quantum a \<and> a_quantum a \<le> u64_max)"
proof -
  from assms obtain hs hf where loop: "args_loop argv default_args False False = Inr (a, hs, hf)"
    and check: "check_args is_dir a hs hf = Inr a"
    by (auto simp: parse_args_def check_args_def Let_def split: sum.splits if_splits)
  from args_loop_quantum [OF loop] have "a_has_quantum a \<longrightarrow> 1 \<le> a_quantum a \<and> a_quantum a \<le> u64_max"
    by (simp add: default_args_def)
  with check show ?thesis
    by (auto simp: check_args_def make_scheduler_def parse_policy_def Let_def split: if_splits)
qed



text \<open>
  The checks on the two numbers are weaker than their messages: a negative quantum passes when
  a space precedes its sign, and a number of lines that is a multiple of \<open>2 ^ 32\<close> passes and becomes
  0 when it is narrowed to \<open>int\<close> (\<open>serve_get\<close> then takes it for 1).
\<close>

lemma parse_args_loopholes:
  "parse_quantum '' -5'' = Some 18446744073709551611 \<and> parse_quantum ''-5'' = None \<and>
   parse_p ''4294967296'' = Some 0 \<and> parse_p ''0'' = None"
  by (simp add: parse_quantum_def parse_p_def strtoull_def strtol_def strto_parts_def is_space_def is_digit_def
      ord_def digit_val_def dec_val_def u64_max_def long_max_def to_int32_def)

end
