(* ===== verification/Server.thy ===== *)
theory Server
  imports Slice_Put Csv_Writer Server_Args
begin

text \<open>
  The server of \<open>src/server/main.cpp\<close>: admission of a connection, the worker loop, accepting and
  shutting down. The handlers are functions on the server's state; threads are the step relation
  \<open>server_step\<close>, whose steps interleave in any order. A step is what a thread does between two points
  where it touches state that other threads use: taking an id and opening the file, entering the
  queue, taking a request from the queue, one round of service with what follows it.

  Descriptors of connections and of files are numbered separately. Exceptions other than the failed
  start of a thread (an allocation that fails inside a round) are not modelled.
\<close>

section \<open>State\<close>

datatype worker = Idle | Serving request | Exited

text \<open>
  \<open>Accepting\<close> until the acceptor has been joined, \<open>Joined\<close> until \<open>sched->shutdown\<close>, then \<open>Draining\<close>
  until the workers have been joined and the file of metrics is closed.
\<close>

datatype phase = Accepting | Joined | Draining | Ended

text \<open>
  \<open>sv_admitting\<close> are the connections whose admission thread has not begun, \<open>sv_pending\<close> the requests
  an admission thread has built and not yet enqueued. The fields from \<open>sv_ids\<close> on are histories, which
  the code does not have and which no step reads: how many ids were taken, the ids of the requests
  that were admitted, what the peer of a connection sends in all, what file an admitted GET has open,
  and the requests that were finished, with their results and with what their clients had received.
\<close>

record finished =
  fin_result :: slice_result
  fin_request :: request
  fin_sent :: string
  fin_wire :: string

record server =
  sv_fs :: fsys
  sv_chans :: "int \<Rightarrow> chan"
  sv_open :: "int \<Rightarrow> bool"
  sv_next_id :: nat
  sv_admissions :: nat
  sv_admitting :: "int list"
  sv_pending :: "request list"
  sv_queue :: request_queue
  sv_workers :: "worker list"
  sv_csv :: csv_writer
  sv_served :: nat
  sv_bytes :: nat
  sv_log :: string
  sv_phase :: phase
  sv_ids :: nat
  sv_admitted :: "nat list"
  sv_sent :: "int \<Rightarrow> string"
  sv_snaps :: "nat \<Rightarrow> (string \<times> string) option"
  sv_done :: "finished list"

definition kHeaderTimeoutMs :: int where "kHeaderTimeoutMs = 5000"
definition kMaxPutBytes :: nat where "kMaxPutBytes = 2 ^ 30"

definition no_chan :: chan where
  "no_chan = \<lparr>out = [], send_script = [], send_calls = 0, inbox = []\<rparr>"

text \<open>\<open>main\<close> up to the start of the threads.\<close>

definition slice_params_of :: "args \<Rightarrow> slice_params" where
  "slice_params_of a = \<lparr>sp_policy = parse_policy (a_sched a), quantum = a_quantum a, p_lines = a_p_lines a\<rparr>"

definition server_init :: "fsys \<Rightarrow> nat \<Rightarrow> server" where
  "server_init fs server_threads =
     \<lparr>sv_fs = fs, sv_chans = (\<lambda>_. no_chan), sv_open = (\<lambda>_. False), sv_next_id = 1, sv_admissions = 0,
      sv_admitting = [], sv_pending = [], sv_queue = empty_queue,
      sv_workers = replicate server_threads Idle, sv_csv = csv_open, sv_served = 0, sv_bytes = 0,
      sv_log = [], sv_phase = Accepting, sv_ids = 0, sv_admitted = [], sv_sent = (\<lambda>_. []),
      sv_snaps = (\<lambda>_. None), sv_done = []\<rparr>"

section \<open>Admission\<close>

definition close_conn :: "int \<Rightarrow> server \<Rightarrow> server" where
  "close_conn fd st = st\<lparr>sv_open := (sv_open st)(fd := False)\<rparr>"

definition send_on :: "int \<Rightarrow> string \<Rightarrow> server \<Rightarrow> server" where
  "send_on fd data st = st\<lparr>sv_chans := (sv_chans st)(fd := snd (send_all data (sv_chans st fd)))\<rparr>"

definition send_err_and_close :: "int \<Rightarrow> string \<Rightarrow> server \<Rightarrow> server" where
  "send_err_and_close fd reason st = close_conn fd (send_on fd (format_err reason) st)"

text \<open>Lines 198 to 223: the request of a well-formed GET or PUT line, or the refusal of a GET.\<close>

definition build_request ::
  "args \<Rightarrow> nat \<Rightarrow> int \<Rightarrow> parsed_request_line \<Rightarrow> string \<Rightarrow> server \<Rightarrow> request option \<times> server" where
  "build_request a now fd parsed lo st =
     (let full_path = a_file_dir a @ ''/'' @ req_filename parsed;
          req = new_request\<lparr>rid := sv_next_id st, client_fd := fd, filename := req_filename parsed,
                  path := full_path, leftover := lo, arrival_ns := now\<rparr>;
          st = st\<lparr>sv_next_id := u64_add (sv_next_id st) 1, sv_ids := sv_ids st + 1\<rparr> in
      if req_type parsed = GET then
        (case sys_open_read full_path (sv_fs st) of
           (ffd, fs1) \<Rightarrow>
             (case (if ffd < 0 then None else fstat_reg ffd fs1) of
                None \<Rightarrow>
                  (None, send_err_and_close fd ''file not found''
                     (st\<lparr>sv_fs := (if ffd \<ge> 0 then sys_close ffd fs1 else fs1)\<rparr>))
              | Some sz \<Rightarrow>
                  (Some (req\<lparr>rop := OpGET, file_fd := ffd, bytes := sz mod (u64_max + 1)\<rparr>), st\<lparr>sv_fs := fs1\<rparr>)))
      else (Some (req\<lparr>rop := OpPUT, bytes := req_byte_count parsed\<rparr>), st))"

text \<open>\<open>admit_connection\<close> before \<open>sched->enqueue\<close>; \<open>None\<close> when it returns earlier.\<close>

definition admit_request :: "args \<Rightarrow> nat \<Rightarrow> int \<Rightarrow> server \<Rightarrow> request option \<times> server" where
  "admit_request a now fd st =
     (case read_header_line kHeaderTimeoutMs (sv_chans st fd) of
        (hdr, c1) \<Rightarrow>
          let st = st\<lparr>sv_chans := (sv_chans st)(fd := c1)\<rparr> in
          if \<not> hdr_ok hdr then
            (None, send_err_and_close fd (if hdr_error hdr = [] then ''header read timeout'' else hdr_error hdr) st)
          else
            let parsed = parse_request_line (hdr_line hdr) in
            if req_type parsed = MALFORMED then (None, send_err_and_close fd (req_error parsed) st)
            else if req_type parsed = HEALTH then
              (None, close_conn fd (send_on fd (format_ok (queue_depth (sv_queue st))) st))
            else if \<not> is_filename_safe (req_filename parsed) then
              (None, send_err_and_close fd ''unsafe filename'' st)
            else if req_type parsed = PUT \<and> req_byte_count parsed > kMaxPutBytes then
              (None, send_err_and_close fd ''declared size too large'' st)
            else build_request a now fd parsed (hdr_leftover hdr) st)"

text \<open>The end of the admission thread: the \<open>AdmissionGuard\<close>.\<close>

definition guard_exit :: "server \<Rightarrow> server" where
  "guard_exit st = st\<lparr>sv_admissions := sv_admissions st - 1\<rparr>"

definition admit_connection :: "args \<Rightarrow> nat \<Rightarrow> int \<Rightarrow> server \<Rightarrow> server" where
  "admit_connection a now fd st =
     (case admit_request a now fd st of
        (None, st1) \<Rightarrow> guard_exit st1
      | (Some req, st1) \<Rightarrow> guard_exit (st1\<lparr>sv_queue := enqueue req (sv_queue st1)\<rparr>))"

text \<open>
  The same thread in two steps: up to the call of \<open>enqueue\<close> or its end, and the rest.
\<close>

definition note_admitted :: "request \<Rightarrow> server \<Rightarrow> server" where
  "note_admitted req st =
     st\<lparr>sv_admitted := sv_admitted st @ [rid req],
        sv_snaps := (if rop req = OpGET
          then (sv_snaps st)(rid req \<mapsto> (path req, take (bytes req) (fd_contents (file_fd req) (sv_fs st)))) else sv_snaps st)\<rparr>"

definition admission_start :: "args \<Rightarrow> nat \<Rightarrow> int \<Rightarrow> server \<Rightarrow> server" where
  "admission_start a now fd st =
     (case admit_request a now fd (st\<lparr>sv_admitting := remove1 fd (sv_admitting st)\<rparr>) of
        (None, st1) \<Rightarrow> guard_exit st1
      | (Some req, st1) \<Rightarrow> note_admitted req (st1\<lparr>sv_pending := sv_pending st1 @ [req]\<rparr>))"

definition admission_enqueue :: "request \<Rightarrow> server \<Rightarrow> server" where
  "admission_enqueue req st =
     guard_exit (st\<lparr>sv_queue := enqueue req (sv_queue st), sv_pending := remove1 req (sv_pending st)\<rparr>)"

section \<open>The acceptor\<close>

definition accept_conn :: "int \<Rightarrow> chan \<Rightarrow> server \<Rightarrow> server" where
  "accept_conn fd c st =
     st\<lparr>sv_chans := (sv_chans st)(fd := c), sv_open := (sv_open st)(fd := True),
        sv_sent := (sv_sent st)(fd := incoming c)\<rparr>"

text \<open>Lines 237 to 243; \<open>started\<close> is false when \<open>std::thread\<close> throws.\<close>

definition acceptor_turn :: "int \<Rightarrow> chan \<Rightarrow> bool \<Rightarrow> server \<Rightarrow> server" where
  "acceptor_turn fd c thread_started st =
     (let st1 = accept_conn fd c st;
          st2 = st1\<lparr>sv_admissions := sv_admissions st1 + 1\<rparr> in
      if thread_started then st2\<lparr>sv_admitting := sv_admitting st2 @ [fd]\<rparr>
      else send_err_and_close fd ''server busy'' (guard_exit st2))"

section \<open>Workers\<close>

text \<open>\<open>sched->next\<close> in worker \<open>w\<close>; \<open>None\<close> while it waits.\<close>

definition worker_next :: "policy \<Rightarrow> nat \<Rightarrow> nat \<Rightarrow> server \<Rightarrow> server option" where
  "worker_next p now w st =
     (case sched_next p now (sv_queue st) of
        Wait \<Rightarrow> None
      | Null \<Rightarrow> Some (st\<lparr>sv_workers := (sv_workers st)[w := Exited]\<rparr>)
      | Popped r q \<Rightarrow> Some (st\<lparr>sv_queue := q, sv_workers := (sv_workers st)[w := Serving r]\<rparr>))"

text \<open>Lines 265 to 274: the end of a request.\<close>

definition finish_request :: "slice_result \<Rightarrow> nat \<Rightarrow> request \<Rightarrow> server \<Rightarrow> server" where
  "finish_request res now r st =
     (let r1 = r\<lparr>finish_ns := now\<rparr>;
          st1 = (if res = DONE then
                   st\<lparr>sv_csv := write_row r1 (sv_csv st), sv_served := u64_add (sv_served st) 1,
                      sv_bytes := u64_add (sv_bytes st) (bytes r1)\<rparr>
                 else st);
          (r2, fs2) = release_request r1 (sv_fs st1) in
      close_conn (client_fd r2) (st1\<lparr>sv_fs := fs2, sv_done := sv_done st1 @
          [\<lparr>fin_result = res, fin_request = r1, fin_sent = sv_sent st1 (client_fd r1),
            fin_wire = wire (sv_chans st1 (client_fd r1))\<rparr>]\<rparr>))"

text \<open>Lines 252 to 274 for the request the worker has taken.\<close>

definition worker_serve :: "slice_params \<Rightarrow> nat \<Rightarrow> nat \<Rightarrow> request \<Rightarrow> server \<Rightarrow> server" where
  "worker_serve sp now w r st =
     (case serve_slice r (sv_chans st (client_fd r)) (sv_fs st) sp of
        (res, r1, c1, fs1, log) \<Rightarrow>
          let st1 = st\<lparr>sv_chans := (sv_chans st)(client_fd r := c1), sv_fs := fs1, sv_log := sv_log st @ concat log,
                       sv_workers := (sv_workers st)[w := Idle]\<rparr> in
          if res = PREEMPTED then st1\<lparr>sv_queue := requeue r1 (sv_queue st1)\<rparr>
          else finish_request res now r1 st1)"

section \<open>The server\<close>

text \<open>\<open>main\<close> after the signal: join the acceptor, wait for the admissions, stop the queue, join the workers.\<close>

definition stop_accepting :: "server \<Rightarrow> server" where
  "stop_accepting st = st\<lparr>sv_phase := Joined\<rparr>"

definition begin_drain :: "server \<Rightarrow> server" where
  "begin_drain st = st\<lparr>sv_phase := Draining, sv_queue := queue_shutdown (sv_queue st)\<rparr>"

definition end_server :: "nat \<Rightarrow> server \<Rightarrow> server" where
  "end_server send_calls_total st =
     st\<lparr>sv_phase := Ended, sv_csv := csv_close (sv_csv st),
        sv_log := sv_log st @ ''server: shutting down. requests_served='' @ nat_str (sv_served st) @
          '' bytes_served='' @ nat_str (sv_bytes st) @ '' send_calls='' @ nat_str send_calls_total @ [NL]\<rparr>"

inductive server_step :: "args \<Rightarrow> server \<Rightarrow> server \<Rightarrow> bool" for a where
  step_accept: "sv_phase st = Accepting \<Longrightarrow> \<not> sv_open st fd \<Longrightarrow> wire c = [] \<Longrightarrow>
    server_step a st (acceptor_turn fd c thread_started st)"
| step_admit: "fd \<in> set (sv_admitting st) \<Longrightarrow> server_step a st (admission_start a now fd st)"
| step_enqueue: "r \<in> set (sv_pending st) \<Longrightarrow> server_step a st (admission_enqueue r st)"
| step_next: "w < length (sv_workers st) \<Longrightarrow> sv_workers st ! w = Idle \<Longrightarrow>
    worker_next (make_scheduler (a_sched a)) now w st = Some st' \<Longrightarrow> server_step a st st'"
| step_serve: "w < length (sv_workers st) \<Longrightarrow> sv_workers st ! w = Serving r \<Longrightarrow>
    server_step a st (worker_serve (slice_params_of a) now w r st)"
| step_stop: "sv_phase st = Accepting \<Longrightarrow> server_step a st (stop_accepting st)"
| step_drain: "sv_phase st = Joined \<Longrightarrow> sv_admissions st = 0 \<Longrightarrow> server_step a st (begin_drain st)"
| step_end: "sv_phase st = Draining \<Longrightarrow> set (sv_workers st) \<subseteq> {Exited} \<Longrightarrow> server_step a st (end_server k st)"

end
