(* ===== verification/Transition.thy ===== *)
theory Transition
  imports Main
begin

text \<open>
  Reachability in a step relation, the rule by which an invariant is proved once for all steps, and
  refinement: a simulation carries reachability from a detailed system to an abstract one. The server
  interprets both locales.
\<close>

inductive reach :: "('s \<Rightarrow> bool) \<Rightarrow> ('s \<Rightarrow> 's \<Rightarrow> bool) \<Rightarrow> 's \<Rightarrow> bool" for init step where
  reach_init: "init s \<Longrightarrow> reach init step s"
| reach_step: "reach init step s \<Longrightarrow> step s s' \<Longrightarrow> reach init step s'"

lemma reach_mono:
  assumes "reach init step s" and "\<And>s s'. step s s' \<Longrightarrow> step' s s'"
  shows "reach init step' s"
  using assms(1) by induction (auto intro: reach.intros assms(2))

locale invariance =
  fixes init :: "'s \<Rightarrow> bool" and step :: "'s \<Rightarrow> 's \<Rightarrow> bool" and inv :: "'s \<Rightarrow> bool"
  assumes inv_init: "init s \<Longrightarrow> inv s"
    and inv_step: "reach init step s \<Longrightarrow> inv s \<Longrightarrow> step s s' \<Longrightarrow> inv s'"
begin

lemma inv_reach: "reach init step s \<Longrightarrow> inv s"
  by (induction rule: reach.induct) (auto intro: inv_init inv_step)

end

text \<open>Every step is an abstract step or leaves the abstract state alone.\<close>

locale simulation =
  fixes init :: "'s \<Rightarrow> bool" and step :: "'s \<Rightarrow> 's \<Rightarrow> bool"
    and ainit :: "'a \<Rightarrow> bool" and astep :: "'a \<Rightarrow> 'a \<Rightarrow> bool" and abs :: "'s \<Rightarrow> 'a"
  assumes sim_init: "init s \<Longrightarrow> ainit (abs s)"
    and sim_step: "reach init step s \<Longrightarrow> step s s' \<Longrightarrow> abs s' = abs s \<or> astep (abs s) (abs s')"
begin

lemma sim_reach: "reach init step s \<Longrightarrow> reach ainit astep (abs s)"
proof (induction rule: reach.induct)
  case (reach_init s)
  then show ?case by (intro reach.reach_init sim_init)
next
  case (reach_step s s')
  with sim_step [OF reach_step.hyps] show ?case by (auto intro: reach.reach_step)
qed

lemma abstract_invariant:
  assumes "reach init step s" and "invariance ainit astep P"
  shows "P (abs s)"
  using invariance.inv_reach [OF assms(2) sim_reach [OF assms(1)]] .

end

text \<open>
  A system all of whose steps decrease a measure ends: from a state of measure \<open>m\<close> no run has more
  than \<open>m\<close> steps, and one that can always step until it is done gets there.
\<close>

locale progress =
  fixes step :: "'s \<Rightarrow> 's \<Rightarrow> bool" and ready :: "'s \<Rightarrow> bool" and fin :: "'s \<Rightarrow> bool" and work :: "'s \<Rightarrow> nat"
  assumes step_ready: "ready s \<Longrightarrow> \<not> fin s \<Longrightarrow> step s s' \<Longrightarrow> ready s'"
    and step_work: "ready s \<Longrightarrow> \<not> fin s \<Longrightarrow> step s s' \<Longrightarrow> work s' < work s"
    and step_exists: "ready s \<Longrightarrow> \<not> fin s \<Longrightarrow> \<exists>s'. step s s'"
begin

lemma reaches_fin: "ready s \<Longrightarrow> \<exists>s'. step\<^sup>*\<^sup>* s s' \<and> fin s' \<and> ready s'"
proof (induction "work s" arbitrary: s rule: less_induct)
  case less
  show ?case
  proof (cases "fin s")
    case False
    with step_exists less.prems obtain s1 where s1: "step s s1" by blast
    with less.hyps [OF step_work step_ready] less.prems False show ?thesis
      by (meson converse_rtranclp_into_rtranclp)
  qed (use less.prems in blast)
qed

text \<open>Whatever the order of the steps: a run that has not reached the end has at most \<open>work\<close> steps.\<close>

lemma run_bounded:
  "((\<lambda>s s'. \<not> fin s \<and> step s s') ^^ n) s s' \<Longrightarrow> ready s \<Longrightarrow> ready s' \<and> work s' + n \<le> work s"
proof (induction n arbitrary: s')
  case (Suc n)
  then obtain t where t: "((\<lambda>s s'. \<not> fin s \<and> step s s') ^^ n) s t" "\<not> fin t" "step t s'" by auto
  from Suc.IH [OF t(1) Suc.prems(2)] have "ready t" "work t + n \<le> work s" by auto
  with step_ready [OF _ t(2,3)] step_work [OF _ t(2,3)] show ?case by fastforce
qed simp

end

end
