(* ===== verification/Round_Progress.thy ===== *)
theory Round_Progress
  imports Slice_Put
begin

text \<open>
  What a round does to the fields of its request in any environment, and that a preempted round is a
  step towards the end: \<open>work_left\<close> decreases. Under round robin the offset grows; under deficit
  round robin the offset or the deficit does, and a deficit never exceeds the line it waits for.
\<close>

section \<open>GET\<close>

lemma scan_line_le:
  "off \<le> pos \<Longrightarrow> pos \<le> sz \<Longrightarrow> scan_line fs fd off sz pos \<le> sz - off"
proof (induction fs fd off sz pos rule: scan_line.induct)
  case (1 fs fd off sz pos)
  show ?case
  proof (cases "pos < sz")
    case False
    then show ?thesis by (simp add: scan_line.simps [of fs fd off sz pos])
  next
    case True
    show ?thesis
    proof (cases "sys_pread fs fd pos (min kLineBuf (sz - pos))")
      case None
      with True show ?thesis by (simp add: scan_line.simps [of fs fd off sz pos])
    next
      case (Some buf)
      have len: "length buf \<le> sz - pos"
        using Some by (auto simp: sys_pread_def split: option.splits)
      have nl: "length (until_nl buf) + 1 \<le> length buf" if "NL \<in> set buf"
        using arg_cong [OF until_nl_split [OF that], of length] by simp
      have ih: "scan_line fs fd off sz (pos + length buf) \<le> sz - off" if "buf \<noteq> []" "NL \<notin> set buf"
        using "1.IH" [OF True Some that] "1.prems" len True by simp
      have eq: "scan_line fs fd off sz pos =
          (if buf = [] then 0 else if NL \<in> set buf then pos - off + length (until_nl buf) + 1
           else scan_line fs fd off sz (pos + length buf))"
        using True by (simp add: scan_line.simps [of fs fd off sz pos] Some)
      show ?thesis using ih nl len "1.prems" True by (auto simp: eq)
    qed
  qed
qed

lemma next_len_le: "byte_offset r < bytes r \<Longrightarrow> byte_offset r + next_len fs r \<le> bytes r"
  using scan_line_le [of "byte_offset r" "byte_offset r" "bytes r" fs "file_fd r"]
  by (simp add: line_length_at_def)

text \<open>
  A preempted round has sent a line, or it is deficit round robin and keeps what is left: the offset
  and the deficit then add up to what the round was given.
\<close>

lemma get_loop_fields:
  "get_loop fs sp p r c b sent left = (res, r', c', log) \<Longrightarrow>
     resumed r r' \<and> byte_offset r \<le> byte_offset r' \<and>
     (res = PREEMPTED \<longrightarrow> bounded (sp_policy sp) \<and> byte_offset r' < bytes r \<and>
        (if sp_policy sp = RR then byte_offset r < byte_offset r' \<or> sent \<noteq> 0 \<or> left < quantum sp
         else byte_offset r' + deficit r' = byte_offset r + left \<and> byte_offset r' + deficit r' < bytes r))"
proof (induction fs sp p r c b sent left arbitrary: res r' c' log rule: get_loop.induct)
  case (1 fs sp p r c b sent left)
  let ?len = "next_len fs r"
  obtain fok fb c1 where fl: "flush b c = (fok, fb, c1)" by (rule prod_cases3)
  consider (fin) "\<not> byte_offset r < bytes r"
    | (zero) "byte_offset r < bytes r" "?len = 0"
    | (a14) "byte_offset r < bytes r" "?len \<noteq> 0" "a14_due sp sent ?len"
    | (stop) "byte_offset r < bytes r" "?len \<noteq> 0" "\<not> a14_due sp sent ?len" "bounded (sp_policy sp) \<and> ?len > left"
    | (line) "byte_offset r < bytes r" "?len \<noteq> 0" "\<not> a14_due sp sent ?len" "\<not> (bounded (sp_policy sp) \<and> ?len > left)"
    by blast
  then show ?case
  proof cases
    case fin
    with "1.prems" show ?thesis by (cases fok) (auto simp: get_loop_fin [OF fin fl])
  next
    case zero
    with "1.prems" show ?thesis by (simp add: get_loop_zero)
  next
    case a14
    obtain sok c2 where st: "stream_range fs (file_fd r) (byte_offset r) ?len c1 = (sok, c2)"
      by (cases "stream_range fs (file_fd r) (byte_offset r) ?len c1")
    from "1.prems" [unfolded get_loop_a14 [OF a14 fl st]] a14(2,3) show ?thesis
      by (cases fok; cases sok) (auto split: if_splits)
  next
    case stop
    have "?len \<le> bytes r - byte_offset r" using next_len_le [OF stop(1), of fs] by simp
    with "1.prems" stop show ?thesis
      by (cases fok) (auto simp: get_loop_stop [OF stop fl] bounded_def split: if_splits)
  next
    case line
    obtain eok b1 c1 where em: "emit_line fs (file_fd r) (byte_offset r) ?len p b c = (eok, b1, c1)"
      by (rule prod_cases3)
    show ?thesis
    proof (cases "eok = True")
      case False
      with "1.prems" show ?thesis by (simp add: get_loop_line [OF line em])
    next
      case True
      define r1 where "r1 = r\<lparr>byte_offset := byte_offset r + ?len\<rparr>"
      have "get_loop fs sp p r1 c1 b1 (sent + ?len) (if bounded (sp_policy sp) then left - ?len else left) = (res, r', c', log)"
        using "1.prems" True by (simp add: get_loop_line [OF line em] r1_def)
      note ih = "1.IH" [OF line(1) refl line(2,3,4) em [symmetric] True refl, folded r1_def, OF this]
      have "resumed r r'" using resumed_trans [of r r1 r'] ih by (simp add: r1_def)
      moreover have "byte_offset r < byte_offset r1" using line(2) by (simp add: r1_def)
      ultimately show ?thesis using ih line(4) by (auto simp: r1_def split: if_splits)
    qed
  qed
qed

lemma serve_get_fields:
  assumes "serve_get fs r c sp = (res, r', c', log)"
  shows "resumed (begun r) r' \<or> r' = r\<lparr>rounds := Suc (rounds r)\<rparr> \<and> res = FAILED"
    and "res = PREEMPTED \<Longrightarrow> bounded (sp_policy sp) \<and> byte_offset r' < bytes r \<and>
      (if sp_policy sp = RR then byte_offset r < byte_offset r'
       else byte_offset r' + deficit r' = byte_offset r + get_allowance sp r \<and> byte_offset r' + deficit r' < bytes r)"
proof -
  have "(resumed (begun r) r' \<or> r' = r\<lparr>rounds := Suc (rounds r)\<rparr> \<and> res = FAILED) \<and>
    (res = PREEMPTED \<longrightarrow> bounded (sp_policy sp) \<and> byte_offset r' < bytes r \<and>
      (if sp_policy sp = RR then byte_offset r < byte_offset r'
       else byte_offset r' + deficit r' = byte_offset r + get_allowance sp r \<and> byte_offset r' + deficit r' < bytes r))"
    using assms
  proof (cases rule: serve_get_cases)
    case header
    with assms show ?thesis by (auto simp: serve_get_def Let_def)
  next
    case (loop c1)
    show ?thesis using get_loop_fields [OF loop(2)] by (auto split: if_splits)
  qed
  then show "resumed (begun r) r' \<or> r' = r\<lparr>rounds := Suc (rounds r)\<rparr> \<and> res = FAILED"
    "res = PREEMPTED \<Longrightarrow> bounded (sp_policy sp) \<and> byte_offset r' < bytes r \<and>
      (if sp_policy sp = RR then byte_offset r < byte_offset r'
       else byte_offset r' + deficit r' = byte_offset r + get_allowance sp r \<and> byte_offset r' + deficit r' < bytes r)"
    by blast+
qed

section \<open>PUT\<close>

lemma put_loop_fields:
  "put_loop tk dn r c fs = (b, r', c', fs') \<Longrightarrow> dn \<le> tk \<Longrightarrow>
     \<exists>lo k. r' = r\<lparr>leftover := lo, byte_offset := byte_offset r + k\<rparr> \<and> (b \<longrightarrow> k = tk - dn)"
proof (induction tk dn r c fs arbitrary: b r' c' fs' rule: put_loop.induct)
  case (1 tk dn r c fs)
  show ?case
  proof (cases "dn < tk")
    case False
    with "1.prems" have "r' = r\<lparr>leftover := leftover r, byte_offset := byte_offset r + 0\<rparr>" "tk - dn = 0"
      by (simp_all add: put_loop_end)
    then show ?thesis by metis
  next
    case True
    define n where "n = min (min tk kChunk) (tk - dn)"
    have n: "dn + n \<le> tk" using True by (simp add: n_def)
    obtain ok buf lo c1 where rd: "read_exact (leftover r) n kBodyChunkTimeoutMs c = (ok, buf, lo, c1)"
      by (rule prod_cases4)
    define r1 where "r1 = r\<lparr>leftover := lo\<rparr>"
    obtain w1 fs1 where wr: "write_all (file_fd r1) buf fs = (w1, fs1)" by (cases "write_all (file_fd r1) buf fs")
    note unfold = put_loop_unfold [OF True, of r c fs, folded n_def, unfolded Let_def rd, simplified, folded r1_def]
    show ?thesis
    proof (cases "ok \<and> w1")
      case True
      then have go: "ok = True" "w1 = True" by simp_all
      have rest: "put_loop tk (dn + n) (r1\<lparr>byte_offset := byte_offset r1 + n\<rparr>) c1 fs1 = (b, r', c', fs')"
        using unfold wr go "1.prems"(1) by (simp add: r1_def)
      from "1.IH" [OF \<open>dn < tk\<close> n_def rd [symmetric] refl refl r1_def _ wr [symmetric] go(2) rest n] go(1)
      obtain lo2 k where k: "r' = r1\<lparr>byte_offset := byte_offset r1 + n, leftover := lo2, byte_offset := byte_offset r1 + n + k\<rparr>"
        "b \<longrightarrow> k = tk - (dn + n)" by auto
      have "r' = r\<lparr>leftover := lo2, byte_offset := byte_offset r + (n + k)\<rparr>" by (simp add: k(1) r1_def add.assoc)
      moreover have "b \<longrightarrow> n + k = tk - dn" using k(2) n by auto
      ultimately show ?thesis by blast
    next
      case False
      with unfold wr "1.prems"(1) have "r' = r\<lparr>leftover := lo, byte_offset := byte_offset r + 0\<rparr>" "\<not> b"
        by (cases ok; cases w1; simp add: r1_def)+
      then show ?thesis by metis
    qed
  qed
qed

section \<open>What no round changes, and what is left to do\<close>

definition kept :: "request \<Rightarrow> request \<Rightarrow> bool" where
  "kept r r' \<longleftrightarrow> rid r' = rid r \<and> rop r' = rop r \<and> filename r' = filename r \<and> bytes r' = bytes r \<and> path r' = path r \<and>
     client_fd r' = client_fd r \<and> arrival_ns r' = arrival_ns r \<and> start_ns r' = start_ns r \<and> finish_ns r' = finish_ns r"

lemma kept_refl [simp]: "kept r r"
  by (simp add: kept_def)

lemma kept_trans: "kept r r1 \<Longrightarrow> kept r1 r2 \<Longrightarrow> kept r r2"
  by (simp add: kept_def)

lemma put_start_fields:
  "put_start r c fs = (b, r', c', fs') \<Longrightarrow>
     kept r r' \<and> rounds r' = rounds r \<and> byte_offset r' = byte_offset r \<and> forfeited_bytes r' = forfeited_bytes r \<and> deficit r' = deficit r"
  by (auto simp: put_start_def kept_def Let_def split: prod.splits if_splits bool.splits)

lemma put_finish_fields:
  "put_finish r c fs = (res, r', c', fs') \<Longrightarrow>
     kept r r' \<and> rounds r' = rounds r \<and> forfeited_bytes r' = forfeited_bytes r \<and> deficit r' = deficit r \<and> res \<noteq> PREEMPTED"
  by (auto simp: put_finish_def kept_def Let_def split: prod.splits if_splits bool.splits)

lemma serve_put_fields:
  assumes "serve_put r c fs sp = (res, r', c', fs')"
  shows "kept r r' \<and> rounds r' = rounds r + 1 \<and> forfeited_bytes r' = forfeited_bytes r \<and> deficit r' = deficit r \<and>
    (res = PREEMPTED \<longrightarrow> bounded (sp_policy sp) \<and> byte_offset r' = byte_offset r + quantum sp \<and> byte_offset r' < bytes r)"
proof -
  obtain b r2 c2 fs2 b2 r3 c3 fs3 where start: "put_start (r\<lparr>rounds := rounds r + 1\<rparr>) c fs = (b, r2, c2, fs2)"
    and loop: "put_loop (put_take sp r2) 0 r2 c2 fs2 = (b2, r3, c3, fs3)"
    and eq: "serve_put r c fs sp =
      (if \<not> b then (FAILED, r2, c2, fs2)
       else if \<not> b2 then (FAILED, r3, c3, fs3)
       else if byte_offset r3 < bytes r3 then (PREEMPTED, r3, c3, fs3) else put_finish r3 c3 fs3)"
    by (rule serve_put_parts)
  have s: "kept r r2 \<and> rounds r2 = rounds r + 1 \<and> byte_offset r2 = byte_offset r \<and> forfeited_bytes r2 = forfeited_bytes r \<and> deficit r2 = deficit r"
    using put_start_fields [OF start] by (simp add: kept_def)
  from put_loop_fields [OF loop] obtain lo k where r3: "r3 = r2\<lparr>leftover := lo, byte_offset := byte_offset r2 + k\<rparr>"
    and k: "b2 \<longrightarrow> k = put_take sp r2" by auto
  have l: "kept r2 r3" "rounds r3 = rounds r2" "forfeited_bytes r3 = forfeited_bytes r2" "deficit r3 = deficit r2"
    "byte_offset r3 = byte_offset r2 + k" "bytes r3 = bytes r2"
    by (simp_all add: r3 kept_def)
  have tk: "bounded (sp_policy sp) \<and> put_take sp r2 = quantum sp" if "byte_offset r2 + put_take sp r2 < bytes r2"
    using that by (auto simp: put_take_def Let_def min_def split: if_splits)
  consider (start) "\<not> b" | (loop) "b" "\<not> b2" | (more) "b" "b2" "byte_offset r3 < bytes r3"
    | (fin) "b" "b2" "\<not> byte_offset r3 < bytes r3" by blast
  then show ?thesis
  proof cases
    case start with eq assms s show ?thesis by auto
  next
    case loop with eq assms s l kept_trans [of r r2 r3] show ?thesis by auto
  next
    case more
    then have "bounded (sp_policy sp) \<and> k = quantum sp" using tk k l(5,6) by simp
    with more eq assms s l kept_trans [of r r2 r3] show ?thesis by (auto simp: kept_def)
  next
    case fin
    then have "put_finish r3 c3 fs3 = (res, r', c', fs')" using eq assms by simp
    from put_finish_fields [OF this] s l kept_trans [of r r2 r3] kept_trans [of r r3 r'] show ?thesis by auto
  qed
qed

lemma serve_slice_fields:
  assumes "serve_slice r c fs sp = (res, r', c', fs', lines)"
  shows "kept r r'" and "rounds r' = rounds r + 1"
proof -
  have "kept r r' \<and> rounds r' = rounds r + 1"
  proof (cases "rop r")
    case OpGET
    with assms obtain log where "serve_get fs r c sp = (res, r', c', log)"
      by (auto simp: serve_slice_def split: prod.splits)
    from serve_get_fields(1) [OF this] resumed_fields [of "begun r" r'] show ?thesis by (auto simp: kept_def)
  next
    case OpPUT
    with assms have "serve_put r c fs sp = (res, r', c', fs')" by (auto simp: serve_slice_def split: prod.splits)
    from serve_put_fields [OF this] show ?thesis by simp
  qed
  then show "kept r r'" "rounds r' = rounds r + 1" by simp_all
qed

text \<open>The bytes to go, less the allowance a download under deficit round robin has saved up.\<close>

definition work_left :: "policy \<Rightarrow> request \<Rightarrow> nat" where
  "work_left p r = bytes r - (byte_offset r + (if p = DRR \<and> rop r = OpGET then deficit r else 0))"

text \<open>A request whose size is a 64-bit number makes progress in every round with a quantum.\<close>

lemma preempted_progress:
  assumes "serve_slice r c fs sp = (PREEMPTED, r', c', fs', lines)" and "0 < quantum sp" and "bytes r \<le> u64_max"
  shows "work_left (sp_policy sp) r' < work_left (sp_policy sp) r"
proof (cases "rop r")
  case OpPUT
  with assms have "serve_put r c fs sp = (PREEMPTED, r', c', fs')" by (auto simp: serve_slice_def split: prod.splits)
  from serve_put_fields [OF this] assms(2) OpPUT show ?thesis by (auto simp: work_left_def kept_def)
next
  case OpGET
  with assms obtain log where g: "serve_get fs r c sp = (PREEMPTED, r', c', log)"
    by (auto simp: serve_slice_def split: prod.splits)
  note f = serve_get_fields(2) [OF g refl]
  have same: "bytes r' = bytes r" "rop r' = OpGET" using serve_slice_fields(1) [OF assms(1)] OpGET by (simp_all add: kept_def)
  show ?thesis
  proof (cases "sp_policy sp = RR")
    case True
    with f same OpGET show ?thesis by (auto simp: work_left_def)
  next
    case False
    then have p: "sp_policy sp = DRR" using f by (simp add: bounded_def)
    then have "get_allowance sp r = (if deficit r > kUnbounded - quantum sp then kUnbounded else deficit r + quantum sp)"
      by (simp add: get_allowance_def)
    with f p same OpGET assms(2,3) show ?thesis
      by (auto simp: work_left_def kUnbounded_def split: if_splits)
  qed
qed

end
