(* ===== verification/Server_Book.thy ===== *)
theory Server_Book
  imports Server Transition Round_Progress
begin

text \<open>
  What the server keeps count of: which requests it holds, the ids it has handed out, the rows it has
  written, the counters it reports, and the phases of its shutdown. The invariant is proved one
  operation at a time and holds in every reachable state, whatever the order of the steps.
\<close>

section \<open>The requests the server holds\<close>

fun of_worker :: "worker \<Rightarrow> request list" where
  "of_worker (Serving r) = [r]"
| "of_worker _ = []"

definition in_service :: "worker list \<Rightarrow> request list" where
  "in_service ws = concat (map of_worker ws)"

definition live :: "server \<Rightarrow> request list" where
  "live st = sv_pending st @ items (sv_queue st) @ in_service (sv_workers st)"

lemma in_service_update:
  assumes "w < length ws"
  shows "mset (in_service (ws[w := x])) + mset (of_worker (ws ! w)) = mset (in_service ws) + mset (of_worker x)"
proof -
  have "in_service (ws[w := x]) = in_service (take w ws) @ of_worker x @ in_service (drop (Suc w) ws)"
    using assms by (simp add: upd_conv_take_nth_drop in_service_def)
  moreover have "in_service ws = in_service (take w ws) @ of_worker (ws ! w) @ in_service (drop (Suc w) ws)"
    using assms by (subst id_take_nth_drop [OF assms]) (simp add: in_service_def)
  ultimately show ?thesis by simp
qed

lemma in_service_take:
  "w < length ws \<Longrightarrow> ws ! w = Idle \<Longrightarrow> mset (in_service (ws[w := Serving r])) = add_mset r (mset (in_service ws))"
  using in_service_update [of w ws "Serving r"] by simp

lemma in_service_drop:
  "w < length ws \<Longrightarrow> ws ! w = Serving r \<Longrightarrow> add_mset r (mset (in_service (ws[w := Idle]))) = mset (in_service ws)"
  using in_service_update [of w ws Idle] by simp

lemma in_service_exit:
  "w < length ws \<Longrightarrow> ws ! w = Idle \<Longrightarrow> mset (in_service (ws[w := Exited])) = mset (in_service ws)"
  using in_service_update [of w ws Exited] by simp

lemma in_service_idle: "set ws \<subseteq> {Exited} \<Longrightarrow> in_service ws = []"
  by (induction ws) (auto simp: in_service_def)

section \<open>What each operation does to the books\<close>

lemma length_remove1_Suc: "x \<in> set xs \<Longrightarrow> length xs = Suc (length (remove1 x xs))"
  by (induction xs) auto

lemma refuse_or_pass:
  "x = (if c1 then refuse m1 else if c2 then refuse m2 else if c3 then refuse m3 else if c4 then refuse m4
        else if c5 then refuse m5 else y) \<Longrightarrow>
     (\<exists>m. x = refuse m) \<or> \<not> c1 \<and> \<not> c2 \<and> \<not> c3 \<and> \<not> c4 \<and> \<not> c5 \<and> x = y"
  by (auto split: if_splits)

text \<open>
  Admission up to the queue ends with a message and a closed connection, or it builds a request; it
  touches only the connection, the files and the id counter.
\<close>

lemma admit_request_cases:
  assumes "admit_request a now fd st = (ro, st1)"
  obtains hdr c1 msg where "read_header_line kHeaderTimeoutMs (sv_chans st fd) = (hdr, c1)" "ro = None"
      "st1 = close_conn fd (send_on fd msg (st\<lparr>sv_chans := (sv_chans st)(fd := c1)\<rparr>))"
  | hdr c1 p where "read_header_line kHeaderTimeoutMs (sv_chans st fd) = (hdr, c1)" "hdr_ok hdr"
      "p = parse_request_line (hdr_line hdr)" "req_type p = GET \<or> req_type p = PUT"
      "is_filename_safe (req_filename p)" "req_type p = PUT \<longrightarrow> req_byte_count p \<le> kMaxPutBytes"
      "build_request a now fd p (hdr_leftover hdr) (st\<lparr>sv_chans := (sv_chans st)(fd := c1)\<rparr>) = (ro, st1)"
proof -
  obtain hdr c1 where h: "read_header_line kHeaderTimeoutMs (sv_chans st fd) = (hdr, c1)"
    by (cases "read_header_line kHeaderTimeoutMs (sv_chans st fd)")
  define st0 where "st0 = st\<lparr>sv_chans := (sv_chans st)(fd := c1)\<rparr>"
  define p where "p = parse_request_line (hdr_line hdr)"
  define refuse where "refuse = (\<lambda>msg. (None :: request option, close_conn fd (send_on fd msg st0)))"
  have eq: "admit_request a now fd st =
      (if \<not> hdr_ok hdr then
         refuse (format_err (if hdr_error hdr = [] then ''header read timeout'' else hdr_error hdr))
       else if req_type p = MALFORMED then refuse (format_err (req_error p))
       else if req_type p = HEALTH then refuse (format_ok (queue_depth (sv_queue st0)))
       else if \<not> is_filename_safe (req_filename p) then refuse (format_err ''unsafe filename'')
       else if req_type p = PUT \<and> req_byte_count p > kMaxPutBytes then refuse (format_err ''declared size too large'')
       else build_request a now fd p (hdr_leftover hdr) st0)"
    by (simp only: admit_request_def h prod.case Let_def st0_def p_def refuse_def send_err_and_close_def)
  consider (refused) msg where "admit_request a now fd st = (None, close_conn fd (send_on fd msg st0))"
    | (build) "hdr_ok hdr" "req_type p \<noteq> MALFORMED" "req_type p \<noteq> HEALTH" "is_filename_safe (req_filename p)"
        "req_type p = PUT \<longrightarrow> req_byte_count p \<le> kMaxPutBytes"
        "admit_request a now fd st = build_request a now fd p (hdr_leftover hdr) st0"
    using refuse_or_pass [where refuse = refuse, OF eq] by (auto simp: refuse_def)
  then show thesis
  proof cases
    case refused
    with assms h show thesis by (intro that(1) [of hdr c1 msg]) (simp_all add: st0_def)
  next
    case build
    then have "req_type p = GET \<or> req_type p = PUT" by (cases "req_type p") auto
    with build assms h show thesis by (intro that(2) [of hdr c1 p]) (simp_all add: st0_def p_def)
  qed
qed

lemma build_request_frame:
  assumes "build_request a now fd p lo st = (ro, st1)"
  shows "st1 = st\<lparr>sv_fs := sv_fs st1, sv_chans := sv_chans st1, sv_open := sv_open st1,
        sv_next_id := u64_add (sv_next_id st) 1, sv_ids := sv_ids st + 1\<rparr>" (is ?frame)
    and "ro = Some r \<Longrightarrow> rid r = sv_next_id st" (is "_ \<Longrightarrow> ?id")
proof -
  obtain ffd fs1 where op: "sys_open_read (a_file_dir a @ ''/'' @ req_filename p) (sv_fs st) = (ffd, fs1)"
    by (cases "sys_open_read (a_file_dir a @ ''/'' @ req_filename p) (sv_fs st)")
  have "?frame \<and> (ro = Some r \<longrightarrow> ?id)"
    using assms op
    by (cases "req_type p = GET"; cases "if ffd < 0 then None else fstat_reg ffd fs1")
      (auto simp: build_request_def Let_def send_err_and_close_def send_on_def close_conn_def new_request_def)
  then show ?frame "ro = Some r \<Longrightarrow> ?id" by blast+
qed

lemma admit_request_frame:
  assumes "admit_request a now fd st = (ro, st1)"
  obtains (plain) fs ch op where "st1 = st\<lparr>sv_fs := fs, sv_chans := ch, sv_open := op\<rparr>" "ro = None"
  | (taken) fs ch op where "st1 = st\<lparr>sv_fs := fs, sv_chans := ch, sv_open := op,
      sv_next_id := u64_add (sv_next_id st) 1, sv_ids := sv_ids st + 1\<rparr>" "\<And>r. ro = Some r \<Longrightarrow> rid r = sv_next_id st"
  using assms
proof (cases rule: admit_request_cases)
  case (1 hdr c1 msg)
  then have "st1 = st\<lparr>sv_fs := sv_fs st1, sv_chans := sv_chans st1, sv_open := sv_open st1\<rparr>"
    by (simp add: close_conn_def send_on_def)
  with 1(2) show ?thesis by (rule plain [rotated 1])
next
  case (2 hdr c1 p)
  from build_request_frame [OF 2(7)] have
    "st1 = st\<lparr>sv_fs := sv_fs st1, sv_chans := sv_chans st1, sv_open := sv_open st1,
      sv_next_id := u64_add (sv_next_id st) 1, sv_ids := sv_ids st + 1\<rparr>" "\<And>r. ro = Some r \<Longrightarrow> rid r = sv_next_id st"
    by simp_all
  then show ?thesis by (rule taken)
qed

section \<open>The invariant\<close>

definition rows_of :: "finished list \<Rightarrow> string" where
  "rows_of ds = concat (map (csv_row \<circ> fin_request) (filter (\<lambda>d. fin_result d = DONE) ds))"

definition no_wrap :: "server \<Rightarrow> bool" where
  "no_wrap st \<longleftrightarrow> sv_ids st < u64_max"

definition ids_ok :: "server \<Rightarrow> bool" where
  "ids_ok st \<longleftrightarrow> (no_wrap st \<longrightarrow> sv_next_id st = Suc (sv_ids st) \<and> distinct (sv_admitted st) \<and>
     (\<forall>i \<in> set (sv_admitted st). 1 \<le> i \<and> i < sv_next_id st))"

definition held_ok :: "server \<Rightarrow> bool" where
  "held_ok st \<longleftrightarrow> mset (map rid (live st)) + mset (map (rid \<circ> fin_request) (sv_done st)) = mset (sv_admitted st)"

definition counts_ok :: "server \<Rightarrow> bool" where
  "counts_ok st \<longleftrightarrow>
     (let served = filter (\<lambda>d. fin_result d = DONE) (sv_done st) in
      sv_served st = length served mod (u64_max + 1) \<and>
      sv_bytes st = sum_list (map (bytes \<circ> fin_request) served) mod (u64_max + 1) \<and>
      out_text (sv_csv st) = kHeader @ [NL] @ rows_of (sv_done st) \<and>
      (out_open (sv_csv st) \<longleftrightarrow> sv_phase st \<noteq> Ended))"

definition phase_ok :: "nat \<Rightarrow> server \<Rightarrow> bool" where
  "phase_ok n st \<longleftrightarrow>
     length (sv_workers st) = n \<and> sv_admissions st = length (sv_admitting st) + length (sv_pending st) \<and>
     (shutting_down (sv_queue st) \<longleftrightarrow> sv_phase st \<in> {Draining, Ended}) \<and>
     (sv_phase st \<in> {Draining, Ended} \<longrightarrow> sv_admissions st = 0) \<and>
     (sv_phase st = Ended \<longrightarrow> set (sv_workers st) \<subseteq> {Exited}) \<and>
     (Exited \<in> set (sv_workers st) \<longrightarrow> sv_phase st \<in> {Draining, Ended}) \<and>
     (Exited \<in> set (sv_workers st) \<and> set (sv_workers st) \<subseteq> {Exited} \<longrightarrow> items (sv_queue st) = [])"

definition books :: "nat \<Rightarrow> server \<Rightarrow> bool" where
  "books n st \<longleftrightarrow> ids_ok st \<and> held_ok st \<and> counts_ok st \<and> phase_ok n st"

lemmas books_defs = books_def ids_ok_def held_ok_def counts_ok_def phase_ok_def live_def no_wrap_def

lemma books_init: "books n (server_init fs n)"
  by (auto simp: books_defs server_init_def empty_queue_def csv_open_def in_service_def rows_of_def concat_replicate_trivial)

text \<open>Each part looks at some fields only.\<close>

lemma ids_ok_cong:
  "ids_ok st \<Longrightarrow> sv_next_id st' = sv_next_id st \<Longrightarrow> sv_ids st' = sv_ids st \<Longrightarrow> sv_admitted st' = sv_admitted st \<Longrightarrow>
     ids_ok st'"
  by (simp only: ids_ok_def no_wrap_def)

lemma held_ok_cong:
  "held_ok st \<Longrightarrow> image_mset rid (mset (live st')) = image_mset rid (mset (live st)) \<Longrightarrow>
     sv_done st' = sv_done st \<Longrightarrow> sv_admitted st' = sv_admitted st \<Longrightarrow> held_ok st'"
  by (simp add: held_ok_def)

lemma counts_ok_cong:
  "counts_ok st \<Longrightarrow> sv_served st' = sv_served st \<Longrightarrow> sv_bytes st' = sv_bytes st \<Longrightarrow> sv_csv st' = sv_csv st \<Longrightarrow>
     sv_phase st' = sv_phase st \<Longrightarrow> sv_done st' = sv_done st \<Longrightarrow> counts_ok st'"
  by (simp add: counts_ok_def)

lemma booksI:
  assumes "books n st" and "ids_ok st \<Longrightarrow> ids_ok st'" and "held_ok st \<Longrightarrow> held_ok st'"
    and "counts_ok st \<Longrightarrow> counts_ok st'" and "phase_ok n st \<Longrightarrow> phase_ok n st'"
  shows "books n st'"
  using assms by (simp add: books_def)

lemmas step_defs = acceptor_turn_def accept_conn_def send_err_and_close_def close_conn_def send_on_def guard_exit_def
  note_admitted_def admission_enqueue_def enqueue_def requeue_def push_def stop_accepting_def begin_drain_def
  queue_shutdown_def end_server_def csv_close_def

lemma books_accept:
  assumes "books n st" and "sv_phase st = Accepting"
  shows "books n (acceptor_turn fd c thr st)"
  using assms(1)
proof (rule booksI)
  show "phase_ok n st \<Longrightarrow> phase_ok n (acceptor_turn fd c thr st)"
    using assms(2) by (simp add: step_defs Let_def phase_ok_def)
qed (auto elim!: ids_ok_cong held_ok_cong counts_ok_cong simp: step_defs Let_def live_def)

lemma u64_add_Suc: "n < u64_max \<Longrightarrow> u64_add n (Suc 0) = Suc n"
  using u64_add_exact [of n 1] by simp

lemma ids_ok_taken:
  assumes "ids_ok st" and "sv_next_id st' = u64_add (sv_next_id st) 1" and "sv_ids st' = sv_ids st + 1"
    and "sv_admitted st' = sv_admitted st \<or> sv_admitted st' = sv_admitted st @ [sv_next_id st]"
  shows "ids_ok st'"
  using assms u64_add_Suc [of "sv_next_id st"] by (auto simp: ids_ok_def no_wrap_def less_Suc_eq)

lemma admitting_phase: "books n st \<Longrightarrow> sv_admitting st \<noteq> [] \<or> sv_pending st \<noteq> [] \<Longrightarrow> sv_phase st \<notin> {Draining, Ended}"
  by (auto simp: books_def phase_ok_def)

lemma books_admit:
  assumes "books n st" and "fd \<in> set (sv_admitting st)"
  shows "books n (admission_start a now fd st)"
proof -
  define st0 where "st0 = st\<lparr>sv_admitting := remove1 fd (sv_admitting st)\<rparr>"
  define st2 where "st2 = admission_start a now fd st"
  obtain ro st1 where adm: "admit_request a now fd st0 = (ro, st1)" by (cases "admit_request a now fd st0")
  have st2: "st2 = (case ro of None \<Rightarrow> guard_exit st1
      | Some r \<Rightarrow> note_admitted r (st1\<lparr>sv_pending := sv_pending st1 @ [r]\<rparr>))"
    using adm by (simp add: st2_def admission_start_def st0_def)
  have len: "length (sv_admitting st) = Suc (length (remove1 fd (sv_admitting st)))"
    using assms(2) by (rule length_remove1_Suc)
  have phase: "sv_phase st \<notin> {Draining, Ended}"
    using admitting_phase [OF assms(1)] assms(2) by (cases "sv_admitting st") auto
  from adm have "books n st2"
  proof (cases rule: admit_request_frame)
    case (plain fs ch op)
    then have eq: "st2 = guard_exit st1" by (simp add: st2)
    show ?thesis using assms(1)
    proof (rule booksI)
      show "phase_ok n st \<Longrightarrow> phase_ok n st2" using phase len by (simp add: eq plain st0_def step_defs phase_ok_def)
    qed (auto elim!: ids_ok_cong held_ok_cong counts_ok_cong simp: eq plain step_defs live_def st0_def)
  next
    case (taken fs ch op)
    show ?thesis
    proof (cases ro)
      case None
      then have eq: "st2 = guard_exit st1" by (simp add: st2)
      show ?thesis using assms(1)
      proof (rule booksI)
        show "phase_ok n st \<Longrightarrow> phase_ok n st2" using phase len by (simp add: eq taken st0_def step_defs phase_ok_def)
        show "ids_ok st \<Longrightarrow> ids_ok st2" by (erule ids_ok_taken) (simp_all add: eq taken st0_def step_defs)
      qed (auto elim!: held_ok_cong counts_ok_cong simp: eq taken step_defs live_def st0_def)
    next
      case (Some r)
      then have eq: "st2 = note_admitted r (st1\<lparr>sv_pending := sv_pending st1 @ [r]\<rparr>)" by (simp add: st2)
      note id = taken(2) [OF Some]
      show ?thesis using assms(1)
      proof (rule booksI)
        show "phase_ok n st \<Longrightarrow> phase_ok n st2"
          using phase len by (simp add: eq taken(1) st0_def step_defs phase_ok_def)
        show "ids_ok st \<Longrightarrow> ids_ok st2"
          using id by (elim ids_ok_taken) (simp_all add: eq taken(1) st0_def step_defs)
        show "held_ok st \<Longrightarrow> held_ok st2"
          using id by (simp add: held_ok_def live_def eq taken(1) st0_def step_defs)
      qed (auto elim!: counts_ok_cong simp: eq taken(1) step_defs st0_def)
    qed
  qed
  then show ?thesis by (simp add: st2_def)
qed

lemma books_enqueue:
  assumes "books n st" and "r \<in> set (sv_pending st)"
  shows "books n (admission_enqueue r st)"
proof -
  have len: "length (sv_pending st) = Suc (length (remove1 r (sv_pending st)))"
    using assms(2) by (rule length_remove1_Suc)
  have pend: "mset (sv_pending st) = add_mset r (mset (remove1 r (sv_pending st)))" using assms(2) by simp
  have phase: "sv_phase st \<notin> {Draining, Ended}"
    using admitting_phase [OF assms(1)] assms(2) by (cases "sv_pending st") auto
  show ?thesis using assms(1)
  proof (rule booksI)
    show "phase_ok n st \<Longrightarrow> phase_ok n (admission_enqueue r st)"
      using phase len by (auto simp: step_defs phase_ok_def)
    show "held_ok st \<Longrightarrow> held_ok (admission_enqueue r st)"
      by (erule held_ok_cong) (simp_all add: step_defs live_def pend del: mset_remove1)
  qed (auto elim!: ids_ok_cong counts_ok_cong simp: step_defs)
qed

lemma set_update_subset: "w < length xs \<Longrightarrow> x \<noteq> y \<Longrightarrow> \<not> set (xs[w := x]) \<subseteq> {y}"
  using set_update_memI [of w xs x] by auto

lemma idle_not_exited: "w < length xs \<Longrightarrow> xs ! w \<noteq> y \<Longrightarrow> y \<in> set (xs[w := x]) \<Longrightarrow> y = x \<or> y \<in> set xs"
  using set_update_subset_insert [of xs w x] by auto

lemma books_next:
  assumes "books n st" and w: "w < length (sv_workers st)" "sv_workers st ! w = Idle"
    and "worker_next p now w st = Some st'"
  shows "books n st'"
proof (cases "sched_next p now (sv_queue st)")
  case Wait
  with assms(4) show ?thesis by (simp add: worker_next_def)
next
  case Null
  then have q: "items (sv_queue st) = []" "shutting_down (sv_queue st)"
    using sched_next_Popped_iff [of p now "sv_queue st"] sched_next_empty [of "sv_queue st" p now] by (auto split: if_splits)
  from Null assms(4) have eq: "st' = st\<lparr>sv_workers := (sv_workers st)[w := Exited]\<rparr>" by (simp add: worker_next_def)
  show ?thesis using assms(1)
  proof (rule booksI)
    show "phase_ok n st \<Longrightarrow> phase_ok n st'"
      using q w set_update_subset_insert [of "sv_workers st" w Exited] by (auto simp: eq phase_ok_def)
    show "held_ok st \<Longrightarrow> held_ok st'"
      using in_service_exit [OF w] by (elim held_ok_cong) (simp_all add: eq live_def)
  qed (auto elim!: ids_ok_cong counts_ok_cong simp: eq)
next
  case (Popped r q)
  from sched_next_conserves [OF Popped] obtain r0
    where q: "rid r = rid r0" "mset (items (sv_queue st)) = add_mset r0 (mset (items q))"
      "shutting_down q = shutting_down (sv_queue st)" by auto
  from Popped assms(4) have eq: "st' = st\<lparr>sv_queue := q, sv_workers := (sv_workers st)[w := Serving r]\<rparr>"
    by (simp add: worker_next_def)
  show ?thesis using assms(1)
  proof (rule booksI)
    assume ok: "phase_ok n st"
    have "sv_phase st \<noteq> Ended" using ok w nth_mem [OF w(1)] by (auto simp: phase_ok_def)
    moreover have "Exited \<in> set ((sv_workers st)[w := Serving r]) \<Longrightarrow> Exited \<in> set (sv_workers st)"
      using set_update_subset_insert [of "sv_workers st" w "Serving r"] by auto
    ultimately show "phase_ok n st'"
      using ok q(3) set_update_subset [OF w(1), of "Serving r" Exited] by (auto simp: eq phase_ok_def)
  next
    show "held_ok st \<Longrightarrow> held_ok st'"
      using in_service_take [OF w, of r] q by (elim held_ok_cong) (simp_all add: eq live_def)
  qed (auto elim!: ids_ok_cong counts_ok_cong simp: eq)
qed

text \<open>A round of service: the request goes back to the queue, or it is finished and accounted for.\<close>

lemma rows_of_snoc: "rows_of (ds @ [d]) = rows_of ds @ (if fin_result d = DONE then csv_row (fin_request d) else [])"
  by (simp add: rows_of_def)

lemma u64_add_mod: "u64_add (a mod (u64_max + 1)) b = (a + b) mod (u64_max + 1)"
  by (simp add: u64_add_def mod_add_left_eq)

lemma release_keeps: "release_request r fs = (r', fs') \<Longrightarrow> client_fd r' = client_fd r"
  by (auto simp: release_request_def Let_def split: if_splits)

lemma finish_request_eq:
  "finish_request res now r st =
     (let r1 = r\<lparr>finish_ns := now\<rparr> in
      st\<lparr>sv_csv := (if res = DONE then write_row r1 (sv_csv st) else sv_csv st),
         sv_served := (if res = DONE then u64_add (sv_served st) 1 else sv_served st),
         sv_bytes := (if res = DONE then u64_add (sv_bytes st) (bytes r) else sv_bytes st),
         sv_fs := snd (release_request r1 (sv_fs st)),
         sv_done := sv_done st @ [\<lparr>fin_result = res, fin_request = r1, fin_sent = sv_sent st (client_fd r),
            fin_wire = wire (sv_chans st (client_fd r))\<rparr>],
         sv_open := (sv_open st)(client_fd r := False)\<rparr>)"
proof -
  obtain r2 fs2 where rel: "release_request (r\<lparr>finish_ns := now\<rparr>) (sv_fs st) = (r2, fs2)"
    by (cases "release_request (r\<lparr>finish_ns := now\<rparr>) (sv_fs st)")
  from release_keeps [OF rel] show ?thesis
    by (cases res) (simp_all add: finish_request_def Let_def rel close_conn_def)
qed

lemma counts_ok_finish:
  assumes "counts_ok st" and "sv_phase st \<noteq> Ended"
  shows "counts_ok (finish_request res now r st)"
  using assms
  by (auto simp: counts_ok_def finish_request_eq Let_def rows_of_snoc write_row_def u64_add_mod [simplified])

lemma phase_ok_idle:
  assumes ok: "phase_ok n st" and w: "w < length (sv_workers st)" "sv_workers st ! w = Serving r"
    and "sv_workers st' = (sv_workers st)[w := Idle]" and "sv_admitting st' = sv_admitting st"
    and "sv_pending st' = sv_pending st" and "sv_admissions st' = sv_admissions st" and "sv_phase st' = sv_phase st"
    and "shutting_down (sv_queue st') = shutting_down (sv_queue st)"
  shows "phase_ok n st'"
proof -
  have "sv_phase st \<noteq> Ended" using ok w nth_mem [OF w(1)] by (auto simp: phase_ok_def)
  moreover have "Exited \<in> set (sv_workers st') \<Longrightarrow> Exited \<in> set (sv_workers st)"
    using set_update_subset_insert [of "sv_workers st" w Idle] assms(4) by auto
  moreover have "\<not> set (sv_workers st') \<subseteq> {Exited}"
    using set_update_subset [OF w(1), of Idle Exited] assms(4) by simp
  ultimately show ?thesis using ok assms(4-9) unfolding phase_ok_def by (intro conjI impI; simp)
qed

lemma books_serve:
  assumes "books n st" and w: "w < length (sv_workers st)" "sv_workers st ! w = Serving r"
  shows "books n (worker_serve sp now w r st)"
proof -
  obtain res r1 c1 fs1 lines where rd: "serve_slice r (sv_chans st (client_fd r)) (sv_fs st) sp = (res, r1, c1, fs1, lines)"
    by (rule prod_cases5)
  define st1 where "st1 = st\<lparr>sv_chans := (sv_chans st)(client_fd r := c1), sv_fs := fs1,
      sv_log := sv_log st @ concat lines, sv_workers := (sv_workers st)[w := Idle]\<rparr>"
  have eq: "worker_serve sp now w r st =
      (if res = PREEMPTED then st1\<lparr>sv_queue := requeue r1 (sv_queue st1)\<rparr> else finish_request res now r1 st1)"
    by (simp add: worker_serve_def rd st1_def)
  have rid: "rid r1 = rid r" using serve_slice_fields(1) [OF rd] by (simp add: kept_def)
  note drop = in_service_drop [OF w]
  have ended: "phase_ok n st \<Longrightarrow> sv_phase st \<noteq> Ended" using w nth_mem [OF w(1)] by (auto simp: phase_ok_def)
  show ?thesis
  proof (cases "res = PREEMPTED")
    case True
    have eq: "worker_serve sp now w r st = st1\<lparr>sv_queue := requeue r1 (sv_queue st1)\<rparr>" using True by (simp add: eq)
    show ?thesis unfolding eq using assms(1)
    proof (rule booksI)
      show "phase_ok n st \<Longrightarrow> phase_ok n (st1\<lparr>sv_queue := requeue r1 (sv_queue st1)\<rparr>)"
        by (erule phase_ok_idle [OF _ w]) (simp_all add: st1_def step_defs)
      show "held_ok st \<Longrightarrow> held_ok (st1\<lparr>sv_queue := requeue r1 (sv_queue st1)\<rparr>)"
        by (erule held_ok_cong) (simp_all add: live_def st1_def step_defs rid flip: drop)
    qed (auto elim!: ids_ok_cong counts_ok_cong simp: st1_def)
  next
    case False
    have eq: "worker_serve sp now w r st = finish_request res now r1 st1" using False by (simp add: eq)
    have ph: "phase_ok n st" using assms(1) by (simp add: books_def)
    show ?thesis unfolding eq using assms(1)
    proof (rule booksI)
      show "phase_ok n st \<Longrightarrow> phase_ok n (finish_request res now r1 st1)"
        by (erule phase_ok_idle [OF _ w]) (simp_all add: st1_def finish_request_eq Let_def)
      show "held_ok st \<Longrightarrow> held_ok (finish_request res now r1 st1)"
        by (simp add: held_ok_def live_def st1_def finish_request_eq Let_def rid flip: drop)
      show "counts_ok (finish_request res now r1 st1)" if "counts_ok st"
      proof (rule counts_ok_finish)
        show "counts_ok st1" using that by (elim counts_ok_cong) (simp_all add: st1_def)
        show "sv_phase st1 \<noteq> Ended" using ended [OF ph] by (simp add: st1_def)
      qed
      show "ids_ok st \<Longrightarrow> ids_ok (finish_request res now r1 st1)"
        by (erule ids_ok_cong) (simp_all add: st1_def finish_request_eq Let_def)
    qed
  qed
qed

lemma books_phases:
  assumes "books n st"
  shows "sv_phase st = Accepting \<Longrightarrow> books n (stop_accepting st)"
    and "sv_phase st = Joined \<Longrightarrow> sv_admissions st = 0 \<Longrightarrow> books n (begin_drain st)"
    and "sv_phase st = Draining \<Longrightarrow> set (sv_workers st) \<subseteq> {Exited} \<Longrightarrow> books n (end_server k st)"
  using assms
  by (auto simp: books_def ids_ok_def no_wrap_def held_ok_def counts_ok_def phase_ok_def live_def step_defs Let_def)

text \<open>The books are right in every reachable state.\<close>

definition server_start :: "fsys \<Rightarrow> nat \<Rightarrow> server \<Rightarrow> bool" where
  "server_start fs n st \<longleftrightarrow> st = server_init fs n"

lemma books_step: "server_step a st st' \<Longrightarrow> books n st \<Longrightarrow> books n st'"
proof (induction rule: server_step.induct)
  case (step_next w st now st')
  then show ?case by (blast intro: books_next)
qed (simp_all add: books_accept books_admit books_enqueue books_serve books_phases)

interpretation bk: invariance "server_start fs n" "server_step a" "books n" for fs n a
  by unfold_locales (auto simp: server_start_def intro: books_init books_step)

end
