(* ===== verification/Server_Drain.thy ===== *)
theory Server_Drain
  imports Server_Book
begin

text \<open>
  What the books say of the server: no request is lost or served twice, the file of metrics and the
  reported totals describe exactly the finished requests, and a server that has been told to stop
  always stops: every step of the drain does work, and there is a step until it has ended.
\<close>

section \<open>The steps and the requests held\<close>

lemma live_enqueue: "r \<in> set (sv_pending st) \<Longrightarrow> mset (live (admission_enqueue r st)) = mset (live st)"
  by (simp add: live_def step_defs)

lemma live_next:
  assumes "w < length (sv_workers st)" and "sv_workers st ! w = Idle" and "worker_next p now w st = Some st'"
  shows "mset (live st') = mset (live st) \<or>
    (\<exists>r. r \<in> set (live st) \<and> mset (live st') = add_mset (stamp_start now r) (mset (live st) - {#r#}))"
proof (cases "sched_next p now (sv_queue st)")
  case (Popped r q)
  from sched_next_conserves [OF Popped] obtain r0
    where "r = stamp_start now r0" "mset (items (sv_queue st)) = add_mset r0 (mset (items q))" by auto
  moreover from this(2) have "r0 \<in> set (items (sv_queue st))" by (metis set_mset_mset union_single_eq_member)
  ultimately show ?thesis
    using Popped assms in_service_take [OF assms(1,2), of r]
    by (intro disjI2 exI [of _ r0]) (auto simp: worker_next_def live_def)
qed (use assms in_service_exit [OF assms(1,2)] in \<open>auto simp: worker_next_def live_def\<close>)

lemma live_serve:
  assumes w: "w < length (sv_workers st)" "sv_workers st ! w = Serving r"
    and "serve_slice r (sv_chans st (client_fd r)) (sv_fs st) sp = (res, r1, c1, fs1, lines)"
  shows "r \<in> set (live st)"
    and "mset (live (worker_serve sp now w r st)) = (if res = PREEMPTED then {#r1#} else {#}) + (mset (live st) - {#r#})"
proof -
  note drop = in_service_drop [OF w]
  show "r \<in> set (live st)" using w nth_mem [OF w(1)] by (force simp: live_def in_service_def)
  show "mset (live (worker_serve sp now w r st)) = (if res = PREEMPTED then {#r1#} else {#}) + (mset (live st) - {#r#})"
    by (simp add: worker_serve_def assms(3) live_def step_defs finish_request_eq Let_def flip: drop)
qed

lemma live_admit:
  assumes "admit_request a now fd (st\<lparr>sv_admitting := remove1 fd (sv_admitting st)\<rparr>) = (ro, st1)"
  shows "mset (live (admission_start a now fd st)) = mset (case ro of None \<Rightarrow> [] | Some r \<Rightarrow> [r]) + mset (live st)"
  using assms
proof (cases rule: admit_request_frame)
  case (plain fs ch op)
  with assms show ?thesis by (simp add: admission_start_def live_def step_defs)
next
  case (taken fs ch op)
  with assms show ?thesis by (cases ro) (simp_all add: admission_start_def live_def step_defs)
qed

lemma mset_set: "mset xs = M \<Longrightarrow> set xs = set_mset M"
  by (metis set_mset_mset)

lemma in_mset_diff: "x \<in># mset xs - M \<Longrightarrow> x \<in> set xs"
  by (metis in_diffD set_mset_mset)

lemma live_next_mem:
  assumes "w < length (sv_workers st)" and "sv_workers st ! w = Idle" and "worker_next p now w st = Some st'"
    and "r' \<in> set (live st')"
  shows "\<exists>r \<in> set (live st). r' = r \<or> r' = stamp_start now r"
proof -
  from live_next [OF assms(1-3)] consider "set (live st') = set (live st)"
    | r where "r \<in> set (live st)" "set (live st') = insert (stamp_start now r) (set_mset (mset (live st) - {#r#}))"
    using mset_set by (metis set_mset_add_mset_insert set_mset_mset)
  then show ?thesis using assms(4) by cases (auto dest: in_mset_diff)
qed

lemma live_serve_mem:
  assumes "w < length (sv_workers st)" and "sv_workers st ! w = Serving r"
    and "serve_slice r (sv_chans st (client_fd r)) (sv_fs st) sp = (res, r1, c1, fs1, lines)"
    and "r' \<in> set (live (worker_serve sp now w r st))"
  shows "res = PREEMPTED \<and> r' = r1 \<or> r' \<in> set (live st)"
  using mset_set [OF live_serve(2) [OF assms(1-3), of now]] assms(4) by (auto dest: in_mset_diff split: if_splits)

text \<open>What an admitted request looks like.\<close>

lemma build_request_some:
  assumes "build_request a now fd p lo st = (Some r, st1)"
  shows "bytes r \<le> u64_max \<or> req_type p \<noteq> GET \<and> bytes r = req_byte_count p" and "client_fd r = fd"
    and "path r = a_file_dir a @ ''/'' @ req_filename p" and "filename r = req_filename p" and "leftover r = lo"
    and "rop r = (if req_type p = GET then OpGET else OpPUT)" and "arrival_ns r = now"
    and "\<not> started r" "byte_offset r = 0" "rounds r = 0" "deficit r = 0" "forfeited_bytes r = 0" "tmp_path r = []"
      "start_ns r = 0" "finish_ns r = 0"
proof -
  obtain ffd fs1 where op: "sys_open_read (a_file_dir a @ ''/'' @ req_filename p) (sv_fs st) = (ffd, fs1)"
    by (cases "sys_open_read (a_file_dir a @ ''/'' @ req_filename p) (sv_fs st)")
  define req where "req = new_request\<lparr>rid := sv_next_id st, client_fd := fd, filename := req_filename p,
      path := a_file_dir a @ ''/'' @ req_filename p, leftover := lo, arrival_ns := now\<rparr>"
  consider (get) sz where "req_type p = GET" "r = req\<lparr>rop := OpGET, file_fd := ffd, bytes := sz mod (u64_max + 1)\<rparr>"
    | (put) "req_type p \<noteq> GET" "r = req\<lparr>rop := OpPUT, bytes := req_byte_count p\<rparr>"
    using assms op by (auto simp: build_request_def Let_def req_def split: if_splits option.splits)
  then have "(bytes r \<le> u64_max \<or> req_type p \<noteq> GET \<and> bytes r = req_byte_count p) \<and> client_fd r = fd \<and>
      path r = a_file_dir a @ ''/'' @ req_filename p \<and> filename r = req_filename p \<and> leftover r = lo \<and>
      rop r = (if req_type p = GET then OpGET else OpPUT) \<and> arrival_ns r = now \<and> \<not> started r \<and> byte_offset r = 0 \<and>
      rounds r = 0 \<and> deficit r = 0 \<and> forfeited_bytes r = 0 \<and> tmp_path r = [] \<and> start_ns r = 0 \<and> finish_ns r = 0"
  proof cases
    case get
    have "sz mod (u64_max + 1) \<le> u64_max" using mod_less_divisor [of "u64_max + 1" sz] by linarith
    with get show ?thesis by (simp add: req_def new_request_def)
  qed (simp add: req_def new_request_def)
  then show "bytes r \<le> u64_max \<or> req_type p \<noteq> GET \<and> bytes r = req_byte_count p" "client_fd r = fd"
    "path r = a_file_dir a @ ''/'' @ req_filename p" "filename r = req_filename p" "leftover r = lo"
    "rop r = (if req_type p = GET then OpGET else OpPUT)" "arrival_ns r = now"
    "\<not> started r" "byte_offset r = 0" "rounds r = 0" "deficit r = 0" "forfeited_bytes r = 0" "tmp_path r = []"
    "start_ns r = 0" "finish_ns r = 0" by auto
qed

section \<open>Sizes are 64-bit numbers\<close>

definition sizes_ok :: "server \<Rightarrow> bool" where
  "sizes_ok st \<longleftrightarrow> (\<forall>r \<in># mset (live st). bytes r \<le> u64_max)"

lemma sizes_ok_mset: "mset (live st') = mset (live st) \<Longrightarrow> sizes_ok st' = sizes_ok st"
  by (simp add: sizes_ok_def)

lemma sizes_step:
  assumes "server_step a st st'" and "sizes_ok st"
  shows "sizes_ok st'"
  using assms
proof (induction rule: server_step.induct)
  case (step_accept st fd c thr)
  have "live (acceptor_turn fd c thr st) = live st" by (simp add: live_def step_defs Let_def)
  with step_accept.prems show ?case by (simp add: sizes_ok_def)
next
  case (step_admit fd st now)
  obtain ro st1 where adm: "admit_request a now fd (st\<lparr>sv_admitting := remove1 fd (sv_admitting st)\<rparr>) = (ro, st1)"
    by (cases "admit_request a now fd (st\<lparr>sv_admitting := remove1 fd (sv_admitting st)\<rparr>)")
  have "bytes r \<le> u64_max" if "ro = Some r" for r
    using adm
  proof (cases rule: admit_request_cases)
    case (2 hdr c1 p)
    from build_request_some(1) [OF 2(7) [unfolded that]] 2(4,6) show ?thesis
      by (auto simp: kMaxPutBytes_def u64_max_def)
  qed (use that in simp)
  with live_admit [OF adm] step_admit.prems show ?case by (auto simp: sizes_ok_def split: option.splits)
next
  case (step_enqueue r st)
  with live_enqueue [of r st] sizes_ok_mset show ?case by blast
next
  case (step_next w st now st')
  from live_next_mem [OF step_next.hyps] step_next.prems show ?case by (fastforce simp: sizes_ok_def)
next
  case (step_serve w st r now)
  let ?sp = "slice_params_of a"
  obtain res r1 c1 fs1 lines where rd: "serve_slice r (sv_chans st (client_fd r)) (sv_fs st) ?sp = (res, r1, c1, fs1, lines)"
    by (rule prod_cases5)
  have "bytes r1 = bytes r" using serve_slice_fields(1) [OF rd] by (simp add: kept_def)
  with live_serve(1) [OF step_serve.hyps rd] live_serve_mem [OF step_serve.hyps rd] step_serve.prems
  show ?case by (fastforce simp: sizes_ok_def)
qed (simp_all add: sizes_ok_def live_def step_defs)

interpretation sz: invariance "server_start fs n" "server_step a" sizes_ok for fs n a
proof
  fix s assume "server_start fs n s"
  then show "sizes_ok s"
    by (simp add: server_start_def sizes_ok_def server_init_def live_def empty_queue_def in_service_def)
qed (rule sizes_step)

section \<open>The drain\<close>

definition request_cost :: "policy \<Rightarrow> request \<Rightarrow> nat" where
  "request_cost p r = 2 * work_left p r + 2"

fun worker_cost :: "policy \<Rightarrow> worker \<Rightarrow> nat" where
  "worker_cost p Idle = 1"
| "worker_cost p (Serving r) = request_cost p r"
| "worker_cost p Exited = 0"

text \<open>An upper bound on the steps from here to the end.\<close>

definition drain_work :: "policy \<Rightarrow> server \<Rightarrow> nat" where
  "drain_work p st = sum_list (map (request_cost p) (items (sv_queue st))) + sum_list (map (worker_cost p) (sv_workers st)) +
     (if sv_phase st = Ended then 0 else 1)"

definition draining :: "args \<Rightarrow> nat \<Rightarrow> server \<Rightarrow> bool" where
  "draining a n st \<longleftrightarrow> books n st \<and> sizes_ok st \<and> sv_phase st \<in> {Draining, Ended} \<and>
     (bounded (parse_policy (a_sched a)) \<longrightarrow> 0 < a_quantum a)"

abbreviation has_ended :: "server \<Rightarrow> bool" where
  "has_ended st \<equiv> sv_phase st = Ended"

lemma sum_worker_update:
  "w < length ws \<Longrightarrow> sum_list (map (worker_cost p) (ws[w := x])) + worker_cost p (ws ! w) =
     sum_list (map (worker_cost p) ws) + worker_cost p x"
  using sum_list_update [of w "map (worker_cost p) ws" "worker_cost p x"] elem_le_sum_list [of w "map (worker_cost p) ws"]
  by (simp add: map_update)

lemma sum_request_mset: "mset xs = add_mset r (mset ys) \<Longrightarrow>
     sum_list (map (request_cost p) xs) = request_cost p r + sum_list (map (request_cost p) ys)"
  by (metis image_mset_add_mset mset_map sum_mset.add_mset sum_mset_sum_list)

lemma request_cost_stamp [simp]: "request_cost p (stamp_start now r) = request_cost p r"
  by (auto simp: request_cost_def work_left_def stamp_start_def)

lemma drain_next_work:
  assumes "w < length (sv_workers st)" and "sv_workers st ! w = Idle" and "worker_next q now w st = Some st'"
  shows "drain_work p st' < drain_work p st"
proof (cases "sched_next q now (sv_queue st)")
  case Wait
  with assms(3) show ?thesis by (simp add: worker_next_def)
next
  case Null
  with assms sum_worker_update [OF assms(1), of p Exited] show ?thesis
    by (auto simp: worker_next_def drain_work_def)
next
  case (Popped r qu)
  from sched_next_conserves [OF Popped] obtain r0 where r0: "r = stamp_start now r0"
    "mset (items (sv_queue st)) = add_mset r0 (mset (items qu))" by auto
  from Popped assms sum_worker_update [OF assms(1), of p "Serving r"] sum_request_mset [OF r0(2), of p] r0(1)
  show ?thesis by (auto simp: worker_next_def drain_work_def)
qed

lemma preempted_bounded:
  assumes "serve_slice r c fs sp = (PREEMPTED, r', c', fs', lines)"
  shows "bounded (sp_policy sp)"
proof (cases "rop r")
  case OpPUT
  with assms have "serve_put r c fs sp = (PREEMPTED, r', c', fs')" by (auto simp: serve_slice_def split: prod.splits)
  from serve_put_fields [OF this] show ?thesis by simp
next
  case OpGET
  with assms obtain log where g: "serve_get fs r c sp = (PREEMPTED, r', c', log)"
    by (auto simp: serve_slice_def split: prod.splits)
  from serve_get_fields(2) [OF g refl] show ?thesis by simp
qed

lemma drain_serve_work:
  assumes w: "w < length (sv_workers st)" "sv_workers st ! w = Serving r" and "sizes_ok st"
    and "bounded (sp_policy sp) \<longrightarrow> 0 < quantum sp"
  shows "drain_work (sp_policy sp) (worker_serve sp now w r st) < drain_work (sp_policy sp) st"
proof -
  let ?p = "sp_policy sp"
  obtain res r1 c1 fs1 lines where rd: "serve_slice r (sv_chans st (client_fd r)) (sv_fs st) sp = (res, r1, c1, fs1, lines)"
    by (rule prod_cases5)
  note upd = sum_worker_update [OF w(1), of ?p Idle]
  have pos: "2 \<le> request_cost ?p r" by (simp add: request_cost_def)
  show ?thesis
  proof (cases "res = PREEMPTED")
    case True
    have "bytes r \<le> u64_max" using live_serve(1) [OF w rd] assms(3) by (auto simp: sizes_ok_def)
    then have "work_left ?p r1 < work_left ?p r"
      using preempted_progress [OF rd [unfolded True]] preempted_bounded [OF rd [unfolded True]] assms(4) by simp
    with upd w(2) rd True show ?thesis
      by (simp add: drain_work_def worker_serve_def step_defs request_cost_def)
  next
    case False
    with upd w(2) rd pos show ?thesis
      by (simp add: drain_work_def worker_serve_def finish_request_eq Let_def)
  qed
qed

lemma draining_step:
  assumes "draining a n st" and "\<not> has_ended st" and "server_step a st st'"
  shows "draining a n st' \<and> drain_work (parse_policy (a_sched a)) st' < drain_work (parse_policy (a_sched a)) st"
proof -
  have ph: "sv_phase st = Draining" and bk: "books n st" and sz: "sizes_ok st"
    and q: "bounded (parse_policy (a_sched a)) \<longrightarrow> 0 < a_quantum a"
    using assms(1,2) by (auto simp: draining_def)
  have empty: "sv_admitting st = []" "sv_pending st = []" using admitting_phase [OF bk] ph by auto
  have sp: "sp_policy (slice_params_of a) = parse_policy (a_sched a)" "quantum (slice_params_of a) = a_quantum a"
    by (simp_all add: slice_params_of_def)
  have "sv_phase st' \<in> {Draining, Ended} \<and>
      drain_work (parse_policy (a_sched a)) st' < drain_work (parse_policy (a_sched a)) st"
    using assms(3) ph empty
  proof (cases rule: server_step.cases)
    case (step_next w now)
    from drain_next_work [OF step_next] have "drain_work (parse_policy (a_sched a)) st' < drain_work (parse_policy (a_sched a)) st" .
    moreover have "sv_phase st' = sv_phase st"
      using step_next(3) by (auto simp: worker_next_def split: popped.splits)
    ultimately show ?thesis using ph by simp
  next
    case (step_serve w r now)
    have "sv_phase st' = sv_phase st"
      by (simp add: step_serve(1) worker_serve_def step_defs finish_request_eq Let_def split: prod.split)
    with drain_serve_work [OF step_serve(2,3) sz, of "slice_params_of a" now] q ph show ?thesis
      by (simp add: sp step_serve(1))
  qed (auto simp: step_defs drain_work_def)
  then show ?thesis using books_step [OF assms(3) bk] sizes_step [OF assms(3) sz] q by (simp add: draining_def)
qed

text \<open>There is always a step: a worker that is not done can take a request, exit, or serve its round.\<close>

lemma draining_can_step:
  assumes "draining a n st" and "\<not> has_ended st"
  shows "\<exists>st'. server_step a st st'"
proof (cases "set (sv_workers st) \<subseteq> {Exited}")
  case True
  with step_end [of st a] assms show ?thesis by (auto simp: draining_def)
next
  case False
  then obtain w where w: "w < length (sv_workers st)" "sv_workers st ! w \<noteq> Exited"
    by (auto simp: subset_iff in_set_conv_nth)
  show ?thesis
  proof (cases "sv_workers st ! w")
    case (Serving r)
    from step_serve [OF w(1) this] show ?thesis by blast
  next
    case Idle
    have "shutting_down (sv_queue st)" using assms by (auto simp: draining_def books_def phase_ok_def)
    then have "worker_next (make_scheduler (a_sched a)) 0 w st \<noteq> None"
      using sched_next_Popped_iff [of "make_scheduler (a_sched a)" 0 "sv_queue st"]
        sched_next_empty [of "sv_queue st" "make_scheduler (a_sched a)" 0]
      by (cases "items (sv_queue st) = []") (auto simp: worker_next_def split: popped.split)
    with step_next [OF w(1) Idle] show ?thesis by blast
  qed (use w in simp)
qed

interpretation drain: progress "server_step a" "draining a n" has_ended "drain_work (parse_policy (a_sched a))" for a n
  by unfold_locales (auto dest: draining_step draining_can_step)

end
