(* ===== verification/Single_Run.thy ===== *)
theory Single_Run
  imports Server_Drain
begin

text \<open>
  The run of a server with one worker and one client, from the connection to the end: the steps in the
  order they have when nothing else happens. The witnesses of the server's properties are such runs.
\<close>

section \<open>The states of the run\<close>

definition run_admitted :: "args \<Rightarrow> fsys \<Rightarrow> chan \<Rightarrow> server" where
  "run_admitted a fs c = admission_start a 10 5 (acceptor_turn 5 c True (server_init fs 1))"

definition run_request :: "args \<Rightarrow> fsys \<Rightarrow> chan \<Rightarrow> request" where
  "run_request a fs c = hd (sv_pending (run_admitted a fs c))"

definition run_queued :: "args \<Rightarrow> fsys \<Rightarrow> chan \<Rightarrow> server" where
  "run_queued a fs c = admission_enqueue (run_request a fs c) (run_admitted a fs c)"

definition run_taken :: "args \<Rightarrow> fsys \<Rightarrow> chan \<Rightarrow> server" where
  "run_taken a fs c = (run_queued a fs c)\<lparr>sv_queue := empty_queue, sv_workers := [Serving (stamp_start 20 (run_request a fs c))]\<rparr>"

definition run_served :: "args \<Rightarrow> fsys \<Rightarrow> chan \<Rightarrow> server" where
  "run_served a fs c = worker_serve (slice_params_of a) 30 0 (stamp_start 20 (run_request a fs c)) (run_taken a fs c)"

definition run_drained :: "args \<Rightarrow> fsys \<Rightarrow> chan \<Rightarrow> server" where
  "run_drained a fs c = begin_drain (stop_accepting (run_served a fs c))"

definition run_ended :: "args \<Rightarrow> fsys \<Rightarrow> chan \<Rightarrow> server" where
  "run_ended a fs c = end_server 2 ((run_drained a fs c)\<lparr>sv_workers := [Exited]\<rparr>)"

text \<open>The request is admitted, and the policy does not preempt.\<close>

definition single :: "args \<Rightarrow> fsys \<Rightarrow> chan \<Rightarrow> bool" where
  "single a fs c \<longleftrightarrow> a_sched a = ''fcfs'' \<and> wire c = [] \<and> sv_pending (run_admitted a fs c) = [run_request a fs c]"

lemma run_admitted_fields:
  assumes "single a fs c"
  shows "sv_phase (run_admitted a fs c) = Accepting" "sv_workers (run_admitted a fs c) = [Idle]"
    "sv_queue (run_admitted a fs c) = empty_queue" "sv_admitting (run_admitted a fs c) = []" "sv_ids (run_admitted a fs c) = 1"
    "sv_admitted (run_admitted a fs c) = [1]" "sv_done (run_admitted a fs c) = []" "sv_sent (run_admitted a fs c) 5 = incoming c"
    "sv_admissions (run_admitted a fs c) = 1" "client_fd (run_request a fs c) = 5"
proof -
  define s1 where "s1 = acceptor_turn 5 c True (server_init fs 1)"
  obtain ro st1 where adm: "admit_request a 10 5 (s1\<lparr>sv_admitting := remove1 5 (sv_admitting s1)\<rparr>) = (ro, st1)"
    by (cases "admit_request a 10 5 (s1\<lparr>sv_admitting := remove1 5 (sv_admitting s1)\<rparr>)")
  then have eq: "run_admitted a fs c = (case ro of None \<Rightarrow> guard_exit st1
      | Some r \<Rightarrow> note_admitted r (st1\<lparr>sv_pending := sv_pending st1 @ [r]\<rparr>))"
    by (simp add: run_admitted_def admission_start_def s1_def)
  have s1: "sv_pending s1 = []" "sv_phase s1 = Accepting" "sv_workers s1 = [Idle]" "sv_queue s1 = empty_queue"
    "sv_admitting s1 = [5]" "sv_ids s1 = 0" "sv_admitted s1 = []" "sv_done s1 = []" "sv_sent s1 5 = incoming c"
    "sv_admissions s1 = 1" "sv_next_id s1 = 1"
    by (simp_all add: s1_def acceptor_turn_def accept_conn_def server_init_def Let_def)
  have pend: "sv_pending (run_admitted a fs c) = [run_request a fs c]" using assms by (simp add: single_def)
  from adm obtain fs1 ch op where st1: "st1 = s1\<lparr>sv_admitting := [], sv_fs := fs1, sv_chans := ch, sv_open := op,
      sv_next_id := u64_add 1 1, sv_ids := 1\<rparr>" and ro: "ro = Some (run_request a fs c)" "rid (run_request a fs c) = 1"
  proof (cases rule: admit_request_frame)
    case (plain fs1 ch op)
    with pend s1 show thesis by (simp add: eq step_defs)
  next
    case (taken fs1 ch op)
    with pend s1 show thesis by (cases ro) (auto simp: eq step_defs intro: that)
  qed
  from adm ro(1) have "client_fd (run_request a fs c) = 5"
  proof (cases rule: admit_request_cases)
    case (2 hdr c1 p)
    from build_request_some(2) [OF 2(7) [unfolded ro(1)]] show ?thesis .
  qed simp
  with st1 ro s1 show "sv_phase (run_admitted a fs c) = Accepting" "sv_workers (run_admitted a fs c) = [Idle]"
    "sv_queue (run_admitted a fs c) = empty_queue" "sv_admitting (run_admitted a fs c) = []" "sv_ids (run_admitted a fs c) = 1"
    "sv_admitted (run_admitted a fs c) = [1]" "sv_done (run_admitted a fs c) = []" "sv_sent (run_admitted a fs c) 5 = incoming c"
    "sv_admissions (run_admitted a fs c) = 1" "client_fd (run_request a fs c) = 5"
    by (simp_all add: eq note_admitted_def)
qed

lemma run_queued_fields:
  assumes "single a fs c"
  shows "sv_phase (run_queued a fs c) = Accepting" "sv_workers (run_queued a fs c) = [Idle]" "sv_pending (run_queued a fs c) = []"
    "sv_queue (run_queued a fs c) = empty_queue\<lparr>items := [run_request a fs c]\<rparr>" "sv_admitted (run_queued a fs c) = [1]"
    "sv_done (run_queued a fs c) = []" "sv_ids (run_queued a fs c) = 1" "sv_admissions (run_queued a fs c) = 0"
    "sv_fs (run_queued a fs c) = sv_fs (run_admitted a fs c)" "sv_chans (run_queued a fs c) = sv_chans (run_admitted a fs c)"
    "sv_sent (run_queued a fs c) = sv_sent (run_admitted a fs c)"
  using run_admitted_fields [OF assms] assms by (simp_all add: run_queued_def step_defs empty_queue_def single_def)

lemma run_served_fields:
  assumes "single a fs c"
    and rd: "serve_slice (stamp_start 20 (run_request a fs c)) (sv_chans (run_admitted a fs c) 5) (sv_fs (run_admitted a fs c))
      (slice_params_of a) = (res, r1, c1, fs1, lines)"
  shows "res \<noteq> PREEMPTED" "sv_phase (run_served a fs c) = Accepting" "sv_workers (run_served a fs c) = [Idle]"
    "sv_admissions (run_served a fs c) = 0" "sv_queue (run_served a fs c) = empty_queue" "sv_admitted (run_served a fs c) = [1]"
    "sv_pending (run_served a fs c) = []" "sv_ids (run_served a fs c) = 1"
    "sv_done (run_served a fs c) = [\<lparr>fin_result = res, fin_request = r1\<lparr>finish_ns := 30\<rparr>, fin_sent = incoming c, fin_wire = wire c1\<rparr>]"
proof -
  have "client_fd r1 = 5" using serve_slice_fields(1) [OF rd] run_admitted_fields(10) [OF assms(1)] by (simp add: kept_def stamp_start_def)
  moreover show res: "res \<noteq> PREEMPTED"
    using preempted_bounded rd assms(1) by (fastforce simp: slice_params_of_def parse_policy_def bounded_def single_def)
  have fd: "client_fd (stamp_start 20 (run_request a fs c)) = 5" using run_admitted_fields(10) [OF assms(1)] by (simp add: stamp_start_def)
  have "run_served a fs c = finish_request res 30 r1 ((run_taken a fs c)\<lparr>sv_chans := (sv_chans (run_taken a fs c))(5 := c1), sv_fs := fs1,
      sv_log := sv_log (run_taken a fs c) @ concat lines, sv_workers := [Idle]\<rparr>)"
    using rd res by (simp add: run_served_def worker_serve_def fd run_taken_def run_queued_fields [OF assms(1)])
  ultimately show "sv_phase (run_served a fs c) = Accepting" "sv_workers (run_served a fs c) = [Idle]"
    "sv_admissions (run_served a fs c) = 0" "sv_queue (run_served a fs c) = empty_queue" "sv_admitted (run_served a fs c) = [1]"
    "sv_pending (run_served a fs c) = []" "sv_ids (run_served a fs c) = 1"
    "sv_done (run_served a fs c) = [\<lparr>fin_result = res, fin_request = r1\<lparr>finish_ns := 30\<rparr>, fin_sent = incoming c, fin_wire = wire c1\<rparr>]"
    using run_queued_fields [OF assms(1)] run_admitted_fields(8) [OF assms(1)]
    by (simp_all add: finish_request_eq Let_def run_taken_def)
qed

section \<open>The run\<close>

text \<open>Any kind of step that contains the steps of this run reaches its states.\<close>

lemma run_reach:
  assumes "single a fs c" and init: "init (server_init fs 1)"
    and step: "\<And>st st'. server_step a st st' \<Longrightarrow> sv_ids st \<le> 1 \<Longrightarrow> set (sv_pending st') \<subseteq> {run_request a fs c} \<Longrightarrow> step st st'"
  shows "reach init step (run_drained a fs c)" and "reach init step (run_ended a fs c)"
proof -
  obtain res r1 c1 fs1 lines where rd: "serve_slice (stamp_start 20 (run_request a fs c)) (sv_chans (run_admitted a fs c) 5)
      (sv_fs (run_admitted a fs c)) (slice_params_of a) = (res, r1, c1, fs1, lines)"
    by (rule prod_cases5)
  note f2 = run_admitted_fields [OF assms(1)] and f3 = run_queued_fields [OF assms(1)] and f5 = run_served_fields [OF assms(1) rd]
  define s1 where "s1 = acceptor_turn 5 c True (server_init fs 1)"
  have s1: "sv_ids s1 = 0" "sv_admitting s1 = [5]" "sv_pending s1 = []"
    by (simp_all add: s1_def acceptor_turn_def accept_conn_def server_init_def Let_def)
  have i: "sv_ids (server_init fs (Suc 0)) = 0" "sv_ids (run_taken a fs c) = 1" "sv_pending (run_taken a fs c) = []"
    by (simp_all add: server_init_def run_taken_def f3)
  have t1: "step (server_init fs 1) s1"
  proof (rule step)
    show "server_step a (server_init fs 1) s1"
      unfolding s1_def by (rule step_accept) (use assms(1) in \<open>simp_all add: server_init_def single_def\<close>)
  qed (simp_all add: i s1)
  have t2: "step s1 (run_admitted a fs c)"
  proof (rule step)
    show "server_step a s1 (run_admitted a fs c)"
      unfolding run_admitted_def s1_def [symmetric] by (rule step_admit) (simp add: s1)
  qed (use assms(1) in \<open>simp_all add: s1 single_def\<close>)
  have t3: "step (run_admitted a fs c) (run_queued a fs c)"
  proof (rule step)
    show "server_step a (run_admitted a fs c) (run_queued a fs c)"
      unfolding run_queued_def by (rule step_enqueue) (use assms(1) in \<open>simp add: single_def\<close>)
  qed (simp_all add: f2 f3)
  have t4: "step (run_queued a fs c) (run_taken a fs c)"
  proof (rule step)
    show "server_step a (run_queued a fs c) (run_taken a fs c)"
      by (rule step_next [where w = 0 and now = 20])
        (use assms(1) in \<open>simp_all add: f3 single_def make_scheduler_def worker_next_def
          sched_next_head [of FCFS _ "run_request a fs c" "[]"] run_taken_def empty_queue_def\<close>)
  qed (simp_all add: i f3)
  have t5: "step (run_taken a fs c) (run_served a fs c)"
  proof (rule step)
    show "server_step a (run_taken a fs c) (run_served a fs c)"
      unfolding run_served_def by (rule step_serve) (simp_all add: run_taken_def)
  qed (simp_all add: i f5)
  have t6: "step (run_served a fs c) (stop_accepting (run_served a fs c))"
    by (rule step, rule step_stop) (simp_all add: f5 stop_accepting_def)
  have t7: "step (stop_accepting (run_served a fs c)) (run_drained a fs c)"
    unfolding run_drained_def by (rule step, rule step_drain) (simp_all add: f5 stop_accepting_def begin_drain_def)
  have t8: "step (run_drained a fs c) ((run_drained a fs c)\<lparr>sv_workers := [Exited]\<rparr>)"
  proof (rule step)
    show "server_step a (run_drained a fs c) ((run_drained a fs c)\<lparr>sv_workers := [Exited]\<rparr>)"
      by (rule step_next [where w = 0 and now = 0])
        (simp_all add: run_drained_def step_defs f5 worker_next_def sched_next_empty empty_queue_def)
  qed (simp_all add: run_drained_def step_defs f5)
  have t9: "step ((run_drained a fs c)\<lparr>sv_workers := [Exited]\<rparr>) (run_ended a fs c)"
  proof (rule step)
    show "server_step a ((run_drained a fs c)\<lparr>sv_workers := [Exited]\<rparr>) (run_ended a fs c)"
      unfolding run_ended_def by (rule step_end) (simp_all add: run_drained_def begin_drain_def)
  qed (simp_all add: run_drained_def run_ended_def step_defs f5)
  have "reach init step (server_init fs 1)" using init by (rule reach_init)
  then have "reach init step s1" using t1 by (rule reach_step)
  from reach_step [OF reach_step [OF this t2] t3] t4 have "reach init step (run_taken a fs c)" by (rule reach_step)
  from reach_step [OF reach_step [OF this t5] t6] t7 show d: "reach init step (run_drained a fs c)" by (rule reach_step)
  from reach_step [OF d t8] t9 show "reach init step (run_ended a fs c)" by (rule reach_step)
qed

lemma run_ended_fields:
  assumes "single a fs c"
    and rd: "serve_slice (stamp_start 20 (run_request a fs c)) (sv_chans (run_admitted a fs c) 5) (sv_fs (run_admitted a fs c))
      (slice_params_of a) = (res, r1, c1, fs1, lines)"
  shows "sv_phase (run_drained a fs c) = Draining" "sv_phase (run_ended a fs c) = Ended" "sv_admitted (run_ended a fs c) = [1]"
    "sv_ids (run_ended a fs c) = 1" "sv_fs (run_ended a fs c) = sv_fs (run_served a fs c)"
    "sv_done (run_ended a fs c) = [\<lparr>fin_result = res, fin_request = r1\<lparr>finish_ns := 30\<rparr>, fin_sent = incoming c, fin_wire = wire c1\<rparr>]"
  using run_served_fields [OF assms] by (simp_all add: run_drained_def run_ended_def step_defs)

section \<open>A download and an upload\<close>

definition sample_store :: fsys where
  "sample_store = empty_fs\<lparr>dir := [''d/f'' \<mapsto> Reg 0], inode := (\<lambda>_. sample_data), next_ino := 1\<rparr>"

definition sample_args :: args where
  "sample_args = default_args\<lparr>a_sched := ''fcfs'', a_file_dir := ''d''\<rparr>"

definition get_conn :: chan where
  "get_conn = \<lparr>out = [], send_script = [], send_calls = 0, inbox = [Data (get_header ''f'' @ [NL])]\<rparr>"

definition put_conn :: chan where
  "put_conn = \<lparr>out = [], send_script = [], send_calls = 0, inbox = [Data (put_header ''f'' 5 @ [NL]), Data ''hello'']\<rparr>"

lemma sample_accepted: "parse_args (\<lambda>d. d = ''d'') [''--sched'', ''fcfs'', ''--file'', ''d''] = Inr sample_args"
  by (simp add: parse_args_def check_args_def default_args_def sample_args_def)

lemma read_one:
  "NL \<notin> set l \<Longrightarrow> length l < 512 \<Longrightarrow> inbox c = Data (l @ [NL]) # es \<Longrightarrow>
     read_header_line kHeaderTimeoutMs c =
       (\<lparr>hdr_ok = True, hdr_line = l, hdr_leftover = [], hdr_error = []\<rparr>, c\<lparr>inbox := es\<rparr>)"
proof -
  assume a: "NL \<notin> set l" "length l < 512" "inbox c = Data (l @ [NL]) # es"
  then have "until_nl (l @ [NL]) = l" unfolding until_nl_def by (intro takeWhile_append_stop) (auto simp: list_all_iff)
  with a show ?thesis
    by (subst read_header_line_def, subst header_loop.simps)
      (simp add: kHeaderTimeoutMs_def arm_if_def arm_remaining_def sys_recv_def)
qed

definition get_sample :: request where
  "get_sample = new_request\<lparr>rid := 1, client_fd := 5, filename := ''f'', path := ''d/f'', arrival_ns := 10,
     rop := OpGET, file_fd := 3, bytes := 17\<rparr>"

definition put_sample :: request where
  "put_sample = new_request\<lparr>rid := 1, client_fd := 5, filename := ''f'', path := ''d/f'', arrival_ns := 10,
     rop := OpPUT, bytes := 5\<rparr>"

lemmas run_defs = run_admitted_def acceptor_turn_def accept_conn_def server_init_def admission_start_def admit_request_def
  is_filename_safe_def build_request_def empty_request_line_def note_admitted_def new_request_def

lemma get_admitted:
  "sv_pending (run_admitted sample_args sample_store get_conn) = [get_sample]"
  "sv_fs (run_admitted sample_args sample_store get_conn) = sample_store\<lparr>fds := [3 \<mapsto> 0], next_fd := 4\<rparr>"
  "sv_chans (run_admitted sample_args sample_store get_conn) 5 = get_conn\<lparr>inbox := []\<rparr>"
proof -
  have "read_header_line kHeaderTimeoutMs get_conn =
      (\<lparr>hdr_ok = True, hdr_line = get_header ''f'', hdr_leftover = [], hdr_error = []\<rparr>, get_conn\<lparr>inbox := []\<rparr>)"
    by (rule read_one) (simp_all add: get_conn_def get_header_def)
  then show "sv_pending (run_admitted sample_args sample_store get_conn) = [get_sample]"
    "sv_fs (run_admitted sample_args sample_store get_conn) = sample_store\<lparr>fds := [3 \<mapsto> 0], next_fd := 4\<rparr>"
    "sv_chans (run_admitted sample_args sample_store get_conn) 5 = get_conn\<lparr>inbox := []\<rparr>"
    by (simp_all add: run_defs Let_def parse_request_get token_def sample_args_def default_args_def sys_open_read_def sample_store_def
        empty_fs_def fstat_reg_def sample_data_def u64_max_def get_sample_def)
qed

lemma put_admitted:
  "sv_pending (run_admitted sample_args sample_store put_conn) = [put_sample]"
  "sv_fs (run_admitted sample_args sample_store put_conn) = sample_store"
  "sv_chans (run_admitted sample_args sample_store put_conn) 5 = put_conn\<lparr>inbox := [Data ''hello'']\<rparr>"
proof -
  have r: "read_header_line kHeaderTimeoutMs put_conn =
      (\<lparr>hdr_ok = True, hdr_line = put_header ''f'' 5, hdr_leftover = [], hdr_error = []\<rparr>, put_conn\<lparr>inbox := [Data ''hello'']\<rparr>)"
    by (rule read_one) (simp_all add: put_conn_def put_header_def nat_str.simps digit_char_eval)
  have p: "parse_request_line (put_header ''f'' 5) = empty_request_line\<lparr>req_type := PUT, req_filename := ''f'', req_byte_count := 5\<rparr>"
    by (rule parse_request_put) (simp_all add: token_def u64_max_def)
  show "sv_pending (run_admitted sample_args sample_store put_conn) = [put_sample]"
    "sv_fs (run_admitted sample_args sample_store put_conn) = sample_store"
    "sv_chans (run_admitted sample_args sample_store put_conn) 5 = put_conn\<lparr>inbox := [Data ''hello'']\<rparr>"
    by (simp_all add: run_defs Let_def r p sample_args_def default_args_def kMaxPutBytes_def put_sample_def)
qed

lemma sample_single: "single sample_args sample_store get_conn" "single sample_args sample_store put_conn"
  "run_request sample_args sample_store get_conn = get_sample" "run_request sample_args sample_store put_conn = put_sample"
proof -
  have "a_sched sample_args = ''fcfs''" "wire get_conn = []" "wire put_conn = []"
    by (simp_all add: sample_args_def default_args_def wire_def get_conn_def put_conn_def)
  then show "single sample_args sample_store get_conn" "single sample_args sample_store put_conn"
    "run_request sample_args sample_store get_conn = get_sample" "run_request sample_args sample_store put_conn = put_sample"
    by (simp_all add: single_def run_request_def get_admitted put_admitted)
qed

end
