(* ===== verification/Server_Runs.thy ===== *)
theory Server_Runs
  imports Single_Run
begin

text \<open>
  Whole runs of the server: from every reachable state there is a way to the end, and the properties
  of \<open>src/server/main.cpp\<close> that rest on the books and on the drain.
\<close>

section \<open>From any state to the end\<close>

lemma admission_start_shape:
  "fd \<in> set (sv_admitting st) \<Longrightarrow>
     sv_phase (admission_start a now fd st) = sv_phase st \<and>
     sv_admitting (admission_start a now fd st) = remove1 fd (sv_admitting st) \<and>
     length (sv_pending (admission_start a now fd st)) \<le> Suc (length (sv_pending st))"
proof -
  obtain ro st1 where adm: "admit_request a now fd (st\<lparr>sv_admitting := remove1 fd (sv_admitting st)\<rparr>) = (ro, st1)"
    by (cases "admit_request a now fd (st\<lparr>sv_admitting := remove1 fd (sv_admitting st)\<rparr>)")
  from adm show ?thesis
    by (cases rule: admit_request_frame; cases ro) (simp_all add: admission_start_def adm step_defs)
qed

text \<open>Once nobody is accepted any more, the admissions under way end, and the queue can be stopped.\<close>

lemma joined_drains:
  "books n st \<Longrightarrow> sizes_ok st \<Longrightarrow> sv_phase st = Joined \<Longrightarrow>
     \<exists>st'. (server_step a)\<^sup>*\<^sup>* st st' \<and> books n st' \<and> sizes_ok st' \<and> sv_phase st' = Draining"
proof (induction "2 * length (sv_admitting st) + length (sv_pending st)" arbitrary: st rule: less_induct)
  case less
  note inv = books_step [OF _ less.prems(1)] sizes_step [OF _ less.prems(2)]
  have one: ?case if "server_step a st st1" "sv_phase st1 = Joined"
      "2 * length (sv_admitting st1) + length (sv_pending st1) < 2 * length (sv_admitting st) + length (sv_pending st)" for st1
    using less.hyps [OF that(3) inv(1) [OF that(1)] inv(2) [OF that(1)] that(2)] that(1)
    by (meson converse_rtranclp_into_rtranclp)
  show ?case
  proof (cases "sv_admitting st")
    case (Cons fd fds)
    then have fd: "fd \<in> set (sv_admitting st)" by simp
    from admission_start_shape [OF fd, of a 0] length_remove1_Suc [OF fd] less.prems(3) show ?thesis
      by (intro one [OF step_admit [OF fd]]) auto
  next
    case noadm: Nil
    show ?thesis
    proof (cases "sv_pending st")
      case (Cons r rs)
      then show ?thesis using less.prems(3)
        by (intro one [OF step_enqueue [of r]]) (simp_all add: admission_enqueue_def guard_exit_def)
    next
      case Nil
      with noadm less.prems have "server_step a st (begin_drain st)"
        by (intro step_drain) (simp_all add: books_def phase_ok_def)
      with inv show ?thesis by (intro exI [of _ "begin_drain st"]) (auto simp: begin_drain_def)
    qed
  qed
qed

lemma accepting_drains:
  assumes "books n st" and "sizes_ok st" and "sv_phase st \<noteq> Ended"
  shows "\<exists>st'. (server_step a)\<^sup>*\<^sup>* st st' \<and> books n st' \<and> sizes_ok st' \<and> sv_phase st' = Draining"
proof (cases "sv_phase st")
  case Accepting
  have step: "server_step a st (stop_accepting st)" by (rule step_stop [OF Accepting])
  from joined_drains [OF books_step [OF step assms(1)] sizes_step [OF step assms(2)]] show ?thesis
    using step by (auto simp: stop_accepting_def intro: converse_rtranclp_into_rtranclp)
qed (use assms joined_drains in auto)

section \<open>A sample run\<close>

abbreviation sample_drained :: server where "sample_drained \<equiv> run_drained sample_args sample_store get_conn"
abbreviation sample_end :: server where "sample_end \<equiv> run_ended sample_args sample_store get_conn"

lemma sample_reach:
  "reach (server_start sample_store 1) (server_step sample_args) sample_drained"
  "reach (server_start sample_store 1) (server_step sample_args) sample_end"
  by (rule run_reach [OF sample_single(1)]; simp add: server_start_def)+

lemma sample_fields:
  "sv_phase sample_drained = Draining" "sv_phase sample_end = Ended" "sv_admitted sample_end = [1]" "sv_ids sample_end = 1"
proof -
  obtain res r1 c1 fs1 lines where rd: "serve_slice (stamp_start 20 (run_request sample_args sample_store get_conn))
      (sv_chans (run_admitted sample_args sample_store get_conn) 5) (sv_fs (run_admitted sample_args sample_store get_conn))
      (slice_params_of sample_args) = (res, r1, c1, fs1, lines)"
    by (rule prod_cases5)
  from run_ended_fields [OF sample_single(1) rd] show "sv_phase sample_drained = Draining" "sv_phase sample_end = Ended"
    "sv_admitted sample_end = [1]" "sv_ids sample_end = 1" by simp_all
qed

section \<open>Properties\<close>

text \<open>
  C20. No request is lost, and none is in two places: in every state the server can reach, in
  whatever order its threads run, the ids of the requests it holds (built and not yet queued, queued,
  or in a worker) and of those it has finished are pairwise distinct and are exactly the ids it has
  handed to admitted requests. (Up to \<open>2 ^ 64\<close> ids, after which they repeat.)
\<close>

theorem server_conserves:
  assumes "reach (server_start fs n) (server_step a) st" and "sv_ids st < u64_max"
  shows "distinct (map rid (live st) @ map (rid \<circ> fin_request) (sv_done st)) \<and>
    set (map rid (live st) @ map (rid \<circ> fin_request) (sv_done st)) = set (sv_admitted st)"
proof -
  have "books n st" using assms(1) by (rule bk.inv_reach)
  then have m: "mset (map rid (live st) @ map (rid \<circ> fin_request) (sv_done st)) = mset (sv_admitted st)"
    and d: "distinct (sv_admitted st)" using assms(2) by (simp_all add: books_def held_ok_def ids_ok_def no_wrap_def)
  from mset_eq_imp_distinct_iff [OF m] d mset_eq_setD [OF m] show ?thesis by blast
qed

theorem server_conserves_witness:
  "distinct (map rid (live sample_end) @ map (rid \<circ> fin_request) (sv_done sample_end)) \<and>
    set (map rid (live sample_end) @ map (rid \<circ> fin_request) (sv_done sample_end)) = {1}"
  using server_conserves [OF sample_reach(2)] by (simp add: sample_fields u64_max_def)

text \<open>
  C21. What the server reports when it ends: it holds no request any more and every request it ever
  admitted is finished, once; the closed metrics file is the header and one row per request that was
  done, in the order they were finished; and the totals it prints are the number of those requests
  and the sum of their sizes.
\<close>

theorem server_reports:
  assumes "reach (server_start fs n) (server_step a) st" and "sv_phase st = Ended" and "0 < n"
  shows "live st = [] \<and> mset (map (rid \<circ> fin_request) (sv_done st)) = mset (sv_admitted st) \<and>
    (let served = filter (\<lambda>d. fin_result d = DONE) (sv_done st) in
       sv_csv st = \<lparr>out_text = kHeader @ [NL] @ concat (map (csv_row \<circ> fin_request) served), out_open = False\<rparr> \<and>
       sv_served st = length served mod 2 ^ 64 \<and>
       sv_bytes st = sum_list (map (bytes \<circ> fin_request) served) mod 2 ^ 64)"
proof -
  have bk: "books n st" using assms(1) by (rule bk.inv_reach)
  then have ws: "set (sv_workers st) \<subseteq> {Exited}" "sv_workers st \<noteq> []"
    using assms(2,3) by (auto simp: books_def phase_ok_def)
  then have "Exited \<in> set (sv_workers st)" by (cases "sv_workers st") auto
  with ws bk assms(2) have "live st = []"
    using admitting_phase [OF bk] in_service_idle [OF ws(1)] by (auto simp: live_def books_def phase_ok_def)
  then show ?thesis using bk assms(2)
    by (simp add: books_def held_ok_def counts_ok_def rows_of_def Let_def u64_max_def)
qed

theorem server_reports_witness:
  "live sample_end = [] \<and> mset (map (rid \<circ> fin_request) (sv_done sample_end)) = {#1#} \<and> out_open (sv_csv sample_end) = False"
  using server_reports [OF sample_reach(2)] by (simp add: sample_fields Let_def)

text \<open>
  C22. The server can always be stopped. With an accepted command line, from every state it can reach
  there is a way to the end; and once the queue has been told to stop, every way leads there: whatever
  the connections, the files and the scheduler do, a run has at most \<open>drain_work\<close> steps left, a number
  that depends on the bytes still to be transferred.
\<close>

theorem server_drains:
  assumes "parse_args is_dir argv = Inr a" and "reach (server_start fs n) (server_step a) st"
  shows "(\<exists>st'. (server_step a)\<^sup>*\<^sup>* st st' \<and> sv_phase st' = Ended) \<and>
    (sv_phase st = Draining \<and> ((\<lambda>s s'. sv_phase s \<noteq> Ended \<and> server_step a s s') ^^ k) st st' \<longrightarrow>
       k \<le> drain_work (parse_policy (a_sched a)) st)"
proof -
  have inv: "books n st" "sizes_ok st" using assms(2) by (rule bk.inv_reach, rule sz.inv_reach)
  from parse_args_accepted [OF assms(1)] have q: "bounded (parse_policy (a_sched a)) \<longrightarrow> 0 < a_quantum a"
    by (cases "parse_policy (a_sched a)") (auto simp: bounded_def)
  have ready: "draining a n s" if "books n s" "sizes_ok s" "sv_phase s = Draining" for s
    using that q by (simp add: draining_def)
  have "\<exists>st'. (server_step a)\<^sup>*\<^sup>* st st' \<and> sv_phase st' = Ended"
  proof (cases "sv_phase st = Ended")
    case False
    from accepting_drains [OF inv False] obtain st1
      where st1: "(server_step a)\<^sup>*\<^sup>* st st1" "books n st1" "sizes_ok st1" "sv_phase st1 = Draining" by blast
    from drain.reaches_fin [OF ready [OF st1(2-)]] st1(1) show ?thesis by (meson rtranclp_trans)
  qed blast
  moreover have "k \<le> drain_work (parse_policy (a_sched a)) st"
    if "sv_phase st = Draining" "((\<lambda>s s'. sv_phase s \<noteq> Ended \<and> server_step a s s') ^^ k) st st'"
    using drain.run_bounded [OF that(2) ready [OF inv that(1)]] by linarith
  ultimately show ?thesis by blast
qed

theorem server_drains_witness:
  "\<exists>st'. (server_step sample_args)\<^sup>*\<^sup>* sample_drained st' \<and> sv_phase st' = Ended"
  using server_drains [OF sample_accepted sample_reach(1)] by blast

end
