(* ===== verification/Put_Local.thy ===== *)
theory Put_Local
  imports Round_Progress
begin

text \<open>
  One round of an upload as the rest of the server sees it. Between two rounds other requests change
  the file system, so the state of an upload is stated on the file system as it is (\<open>put_local\<close>): its
  temporary file is the only name of its inode and its descriptor the only way to it. Everything a
  round changes for anybody else is in \<open>put_round\<close>: nothing while it is preempted, and at the end
  either nothing or the installed file.
\<close>

section \<open>Inode and descriptor numbers\<close>

lemma write_all_next: "write_all fd d fs = (b, fs') \<Longrightarrow> next_ino fs' = next_ino fs \<and> next_fd fs' = next_fd fs"
  using fwrite.loop_frame but_contents_eq(3,4) by blast

lemma put_loop_next:
  "put_loop tk dn r c fs = (b, r', c', fs') \<Longrightarrow> next_ino fs' = next_ino fs \<and> next_fd fs' = next_fd fs"
proof (induction tk dn r c fs arbitrary: b r' c' fs' rule: put_loop.induct)
  case (1 tk dn r c fs)
  show ?case
  proof (cases "dn < tk")
    case False
    with "1.prems" show ?thesis by (simp add: put_loop_end)
  next
    case True
    define n where "n = min (min tk kChunk) (tk - dn)"
    obtain ok buf lo c1 where rd: "read_exact (leftover r) n kBodyChunkTimeoutMs c = (ok, buf, lo, c1)"
      by (rule prod_cases4)
    define r1 where "r1 = r\<lparr>leftover := lo\<rparr>"
    obtain w1 fs1 where wr: "write_all (file_fd r1) buf fs = (w1, fs1)" by (cases "write_all (file_fd r1) buf fs")
    note unfold = put_loop_unfold [OF True, of r c fs, folded n_def, unfolded Let_def rd, simplified, folded r1_def]
    show ?thesis
    proof (cases "ok \<and> w1")
      case go: True
      then have "ok = True" "w1 = True" by simp_all
      with unfold wr "1.prems" have "put_loop tk (dn + n) (r1\<lparr>byte_offset := byte_offset r1 + n\<rparr>) c1 fs1 = (b, r', c', fs')"
        by (simp add: r1_def)
      from "1.IH" [OF True n_def rd [symmetric] refl refl r1_def _ wr [symmetric] \<open>w1 = True\<close> this] go write_all_next [OF wr]
      show ?thesis by simp
    next
      case False
      with unfold wr "1.prems" write_all_next [OF wr] show ?thesis by (cases ok; cases w1; simp add: r1_def)
    qed
  qed
qed

lemma put_start_next:
  assumes "put_start r c fs = (b, r', c', fs')" and "started r \<or> dir fs (tmp_name r) = None" and "0 \<le> next_fd fs"
  shows "started r \<and> fs' = fs \<or> \<not> started r \<and> next_ino fs' = Suc (next_ino fs) \<and> next_fd fs' = next_fd fs + 1 \<or>
    \<not> started r \<and> \<not> b \<and> (\<exists>os. fs' = fs\<lparr>open_script := os\<rparr>)"
proof (cases "started r")
  case True
  with assms(1) show ?thesis by (simp add: put_start_def)
next
  case False
  with assms show ?thesis
    by (auto simp: put_start_first sys_open_trunc_def Let_def split: if_splits prod.splits bool.splits)
qed

lemma put_finish_next: "put_finish r c fs = (res, r', c', fs') \<Longrightarrow> next_ino fs' = next_ino fs \<and> next_fd fs' = next_fd fs"
  by (auto simp: put_finish_def sys_close_def sys_rename_def Let_def split: prod.splits bool.splits if_splits option.splits dirent.splits)

lemma serve_put_next:
  assumes "serve_put r c fs sp = (res, r', c', fs')" and "started r \<or> dir fs (tmp_name r) = None" and "0 \<le> next_fd fs"
  shows "started r \<and> next_ino fs' = next_ino fs \<and> next_fd fs' = next_fd fs \<or>
    \<not> started r \<and> next_ino fs' = Suc (next_ino fs) \<and> next_fd fs' = next_fd fs + 1 \<or>
    \<not> started r \<and> res = FAILED \<and> (\<exists>os. fs' = fs\<lparr>open_script := os\<rparr>)"
proof -
  obtain b r2 c2 fs2 b2 r3 c3 fs3 where start: "put_start (r\<lparr>rounds := rounds r + 1\<rparr>) c fs = (b, r2, c2, fs2)"
    and loop: "put_loop (put_take sp r2) 0 r2 c2 fs2 = (b2, r3, c3, fs3)"
    and eq: "serve_put r c fs sp =
      (if \<not> b then (FAILED, r2, c2, fs2)
       else if \<not> b2 then (FAILED, r3, c3, fs3)
       else if byte_offset r3 < bytes r3 then (PREEMPTED, r3, c3, fs3) else put_finish r3 c3 fs3)"
    by (rule serve_put_parts)
  have "tmp_name (r\<lparr>rounds := rounds r + 1\<rparr>) = tmp_name r" by (simp add: tmp_name_def)
  with put_start_next [OF start] assms(2,3) have s: "started r \<and> fs2 = fs \<or>
      \<not> started r \<and> next_ino fs2 = Suc (next_ino fs) \<and> next_fd fs2 = next_fd fs + 1 \<or>
      \<not> started r \<and> \<not> b \<and> (\<exists>os. fs2 = fs\<lparr>open_script := os\<rparr>)" by simp
  have "fs' = fs2 \<and> res = FAILED \<or> b \<and> next_ino fs' = next_ino fs2 \<and> next_fd fs' = next_fd fs2"
    using assms(1) eq put_loop_next [OF loop] put_finish_next [of r3 c3 fs3]
    by (cases b; cases b2; cases "byte_offset r3 < bytes r3") auto
  with s show ?thesis by auto
qed

section \<open>The state of an upload\<close>

definition owns :: "fsys \<Rightarrow> request \<Rightarrow> nat \<Rightarrow> bool" where
  "owns fs r i \<longleftrightarrow> dir fs (tmp_name r) = Some (Reg i) \<and> fds fs (file_fd r) = Some i \<and>
     (\<forall>p. dir fs p = Some (Reg i) \<longrightarrow> p = tmp_name r) \<and> (\<forall>fd. fds fs fd = Some i \<longrightarrow> fd = file_fd r)"

definition put_local :: "fsys \<Rightarrow> request \<Rightarrow> string \<Rightarrow> chan \<Rightarrow> bool" where
  "put_local fs r s c \<longleftrightarrow>
     byte_offset r \<le> bytes r \<and> byte_offset r \<le> length s \<and> stream r c = drop (byte_offset r) s \<and>
     (if started r
      then tmp_path r = tmp_name r \<and> 0 \<le> file_fd r \<and> wire c = format_ok 0 \<and>
        (\<exists>i. owns fs r i \<and> inode fs i = take (byte_offset r) s)
      else tmp_path r = [] \<and> file_fd r = -1 \<and> byte_offset r = 0 \<and> wire c = [] \<and> dir fs (tmp_name r) = None)"

text \<open>The file system without the temporary file and the descriptor of an upload that has begun.\<close>

definition without :: "request \<Rightarrow> nat \<Rightarrow> fsys \<Rightarrow> fsys" where
  "without r i fs = (if started r
     then fs\<lparr>dir := (dir fs)(tmp_name r := None), fds := (fds fs)(file_fd r := None), next_ino := i, next_fd := file_fd r\<rparr>
     else fs)"

definition private_ino :: "fsys \<Rightarrow> request \<Rightarrow> nat \<Rightarrow> bool" where
  "private_ino fs r i \<longleftrightarrow> (if started r then owns fs r i else i = next_ino fs)"

lemma without_next: "private_ino fs r i \<Longrightarrow> next_ino (without r i fs) = i"
  by (simp add: without_def private_ino_def)

lemma put_local_ino:
  assumes "put_local fs r s c"
  obtains i where "private_ino fs r i" "started r \<Longrightarrow> inode fs i = take (byte_offset r) s"
  using assms that [of "next_ino fs"] by (auto simp: put_local_def private_ino_def split: if_splits)

lemma put_local_state:
  assumes "put_local fs r s c" and "private_ino fs r i" and "started r \<Longrightarrow> inode fs i = take (byte_offset r) s"
    and "rop r = OpPUT" and "fs_ok fs"
  shows "put_state (without r i fs) r s [] r c fs"
proof (cases "started r")
  case True
  then have w: "without r i fs = fs\<lparr>dir := (dir fs)(tmp_name r := None), fds := (fds fs)(file_fd r := None), next_ino := i,
      next_fd := file_fd r\<rparr>" and own: "owns fs r i" using assms(2) by (simp_all add: without_def private_ino_def)
  have e: "dir fs (tmp_name r) = Some (Reg i)" "fds fs (file_fd r) = Some i" "\<And>p. dir fs p = Some (Reg i) \<Longrightarrow> p = tmp_name r"
    "inode fs i = take (byte_offset r) s" using own assms(3) True by (simp_all add: owns_def)
  have p: "byte_offset r \<le> bytes r" "byte_offset r \<le> length s" "stream r c = drop (byte_offset r) s" "tmp_path r = tmp_name r"
    "0 \<le> file_fd r" "wire c = format_ok 0" using assms(1) True by (simp_all add: put_local_def)
  have "fs_fresh (without r i fs)" using e(3) p(5) by (auto simp: fs_fresh_def w)
  moreover have "put_open (without r i fs) r fs" using e(2) by (simp add: put_open_def w fun_upd_idem)
  moreover have "put_fs (without r i fs) r (take (byte_offset r) s) fs" using e(1,4) by (simp add: put_fs_def w fun_upd_idem)
  moreover have "dir (without r i fs) (tmp_name r) = None" by (simp add: w)
  ultimately show ?thesis using True p by (simp add: put_state_def put_inv_def put_same_def)
next
  case False
  then have "without r i fs = fs" by (simp add: without_def)
  with False assms fs_ok_fs_fresh show ?thesis
    by (auto simp: put_state_def admitted_put_def put_local_def)
qed

section \<open>The effect of a round\<close>

definition committed :: "request \<Rightarrow> bool" where
  "committed r \<longleftrightarrow> started r \<and> tmp_path r = []"

lemma fs_ok_change:
  assumes "fs_ok fs" and "next_ino fs \<le> next_ino fs'" and "next_fd fs \<le> next_fd fs'"
    and "\<And>p j. dir fs' p = Some (Reg j) \<Longrightarrow> dir fs p = Some (Reg j) \<or> j < next_ino fs'"
    and "\<And>fd j. fds fs' fd = Some j \<Longrightarrow> fds fs fd = Some j \<or> j < next_ino fs' \<and> fd < next_fd fs'"
  shows "fs_ok fs'"
proof -
  have 1: "0 \<le> next_fd fs'" using assms(1,3) by (simp add: fs_ok_def)
  have 2: "fds fs' fd = None" if "next_fd fs' \<le> fd" for fd
    using assms(1,3) assms(5) [of fd] that by (cases "fds fs' fd") (auto simp: fs_ok_def)
  have 3: "i < next_ino fs'" if "dir fs' p = Some (Reg i)" for p i
    using assms(1,2) assms(4) [OF that] by (fastforce simp: fs_ok_def)
  have 4: "i < next_ino fs'" if "fds fs' fd = Some i" for fd i
    using assms(1,2) assms(5) [OF that] by (fastforce simp: fs_ok_def)
  from 1 2 3 4 show ?thesis by (simp add: fs_ok_def)
qed

lemma release_next: "release_request r fs = (r', fs') \<Longrightarrow> next_ino fs' = next_ino fs \<and> next_fd fs' = next_fd fs"
  by (auto simp: release_request_def sys_close_def sys_unlink_def Let_def split: if_splits)

lemma without_dir: "dir (without r i fs) p = Some x \<Longrightarrow> dir fs p = Some x"
  and without_fds: "fds (without r i fs) fd = Some j \<Longrightarrow> fds fs fd = Some j"
  and without_inode [simp]: "inode (without r i fs) = inode fs"
  by (auto simp: without_def split: if_splits)

lemma private_ino_old: "private_ino fs r i \<Longrightarrow> started r \<Longrightarrow> fs_ok fs \<Longrightarrow> i < next_ino fs \<and> file_fd r < next_fd fs"
proof -
  assume "private_ino fs r i" "started r" "fs_ok fs"
  then have i: "fds fs (file_fd r) = Some i" and "\<forall>fd \<ge> next_fd fs. fds fs fd = None" and "\<forall>fd j. fds fs fd = Some j \<longrightarrow> j < next_ino fs"
    by (simp_all add: private_ino_def owns_def fs_ok_def)
  then show ?thesis by (metis linorder_not_le option.distinct(1))
qed

lemma put_round_more:
  assumes rd: "serve_put r c fs sp = (PREEMPTED, r', c', fs')" and loc: "put_local fs r s c" and ino: "private_ino fs r i"
    and data: "started r \<Longrightarrow> inode fs i = take (byte_offset r) s" and op: "rop r = OpPUT" and ok: "fs_ok fs"
  obtains x where "put_local fs' r' s c'" "started r'" "owns fs' r' i" "inode fs' i = take (byte_offset r') s"
    "dir fs' = (dir (without r i fs))(tmp_name r \<mapsto> Reg i)" "inode fs' = (inode fs)(i := x)"
    "fds fs' = (fds (without r i fs))(file_fd r' \<mapsto> i)" "file_fd r' = (if started r then file_fd r else next_fd fs)"
    "fs_ok fs'" "next_fd fs \<le> next_fd fs'"
proof -
  let ?b = "without r i fs"
  note st = put_local_state [OF loc ino data op ok]
  have inv: "put_inv ?b r s [] r' c' fs'" using serve_put_effect [OF rd st] by simp
  have fresh: "fs_fresh ?b" using st by (simp add: put_state_def)
  have ni: "next_ino ?b = i" using ino by (rule without_next)
  have nf: "next_fd ?b = (if started r then file_fd r else next_fd fs)" by (simp add: without_def)
  have d: "dir fs' = (dir ?b)(tmp_name r \<mapsto> Reg i)" and n: "inode fs' = (inode fs)(i := take (byte_offset r') s)"
    and f: "fds fs' = (fds ?b)(file_fd r' \<mapsto> i)" "file_fd r' = next_fd ?b"
    using inv by (simp_all add: put_inv_def put_fs_def put_open_def ni)
  have tn: "tmp_name r' = tmp_name r" using inv by (simp add: put_inv_def put_same_def tmp_name_def)
  have nofd: "fds ?b fd \<noteq> Some i" for fd
    using ino ok by (cases "started r") (auto simp: without_def private_ino_def owns_def fs_ok_def)
  have own: "owns fs' r' i"
    using fs_fresh_ino [OF fresh] nofd by (auto simp: owns_def d f(1) tn ni split: if_splits)
  have "put_local fs' r' s c'"
    using inv own n fs_fresh_next [OF fresh] f(2) by (auto simp: put_local_def put_inv_def tn)
  moreover have "fs_ok fs' \<and> next_fd fs \<le> next_fd fs'"
  proof -
    have "dir fs (tmp_name r) = None \<or> started r" "0 \<le> next_fd fs" using loc ok by (auto simp: put_local_def fs_ok_def)
    with serve_put_next [OF rd] have nx: "started r \<and> next_ino fs' = next_ino fs \<and> next_fd fs' = next_fd fs \<or>
      \<not> started r \<and> next_ino fs' = Suc (next_ino fs) \<and> next_fd fs' = next_fd fs + 1" by auto
    have i: "i < next_ino fs'" "file_fd r' < next_fd fs'"
      using nx private_ino_old [OF ino _ ok] ino by (auto simp: f(2) nf private_ino_def)
    have "fs_ok fs'"
      by (rule fs_ok_change [OF ok]) (use nx i in \<open>auto simp: d f(1) dest: without_dir without_fds split: if_splits\<close>)
    with nx show ?thesis by auto
  qed
  ultimately show thesis using inv own d n f nf by (intro that) (simp_all add: put_inv_def)
qed

lemma put_round_end:
  assumes rd: "serve_put r c fs sp = (res, r', c', fs')" and loc: "put_local fs r s c" and ino: "private_ino fs r i"
    and data: "started r \<Longrightarrow> inode fs i = take (byte_offset r) s" and op: "rop r = OpPUT" and ok: "fs_ok fs"
    and fin: "res \<noteq> PREEMPTED" and rel: "release_request r' fs' = (r'', fs'')"
  obtains x where "inode fs'' = (inode fs)(i := x)" "fds fs'' = fds (without r i fs)" "fs_ok fs''" "next_fd fs \<le> next_fd fs''"
    "if committed r'
     then dir fs'' = (dir (without r i fs))(path r \<mapsto> Reg i) \<and> x = take (bytes r) s \<and> bytes r \<le> length s \<and>
       prefix (wire c') (format_ok 0 @ format_ok 0) \<and> (res = DONE \<longrightarrow> wire c' = format_ok 0 @ format_ok 0)
     else dir fs'' = dir (without r i fs) \<and> res = FAILED \<and> (\<exists>m \<in> set put_replies. prefix (wire c') m)"
proof -
  let ?b = "without r i fs"
  note st = put_local_state [OF loc ino data op ok]
  have fresh: "fs_fresh ?b" "dir ?b (tmp_name r) = None" using st by (simp_all add: put_state_def)
  have ni: "next_ino ?b = i" using ino by (rule without_next)
  have "dir fs (tmp_name r) = None \<or> started r" "0 \<le> next_fd fs" using loc ok by (auto simp: put_local_def fs_ok_def)
  with serve_put_next [OF rd] release_next [OF rel]
  have nx: "started r \<and> next_ino fs'' = next_ino fs \<and> next_fd fs'' = next_fd fs \<or>
      \<not> started r \<and> next_ino fs'' = Suc (next_ino fs) \<and> next_fd fs'' = next_fd fs + 1 \<or>
      \<not> started r \<and> next_ino fs'' = next_ino fs \<and> next_fd fs'' = next_fd fs \<and> (\<exists>os. fs' = fs\<lparr>open_script := os\<rparr>)" by auto
  have mono: "next_ino fs \<le> next_ino fs''" "next_fd fs \<le> next_fd fs''" using nx by auto
  consider (inst) "put_installed ?b r s r' fs'" "prefix (wire c') (format_ok 0 @ format_ok 0)"
      "res = DONE \<longrightarrow> wire c' = format_ok 0 @ format_ok 0"
    | (fail) "put_failed ?b r [] r' c' fs'" "res = FAILED"
    using serve_put_effect [OF rd st] fin by (cases res) auto
  then show thesis
  proof cases
    case inst
    have e: "dir fs'' = (dir ?b)(path r \<mapsto> Reg i)" "inode fs'' = (inode fs)(i := take (bytes r) s)" "fds fs'' = fds ?b"
      "committed r'" "bytes r \<le> length s" "fs'' = fs'"
      using release_installed_eq [OF inst(1) rel] inst(1) by (simp_all add: put_installed_def ni committed_def)
    have "i < next_ino fs''"
      using nx
    proof (elim disjE)
      assume "started r \<and> next_ino fs'' = next_ino fs \<and> next_fd fs'' = next_fd fs"
      with private_ino_old [OF ino _ ok] show ?thesis by auto
    next
      assume "\<not> started r \<and> next_ino fs'' = Suc (next_ino fs) \<and> next_fd fs'' = next_fd fs + 1"
      with ino show ?thesis by (simp add: private_ino_def)
    next
      assume a: "\<not> started r \<and> next_ino fs'' = next_ino fs \<and> next_fd fs'' = next_fd fs \<and> (\<exists>os. fs' = fs\<lparr>open_script := os\<rparr>)"
      then have "dir fs (path r) = Some (Reg i)" using e(1,6) by auto
      with ok a show ?thesis by (auto simp: fs_ok_def)
    qed
    then have "fs_ok fs''"
      by (intro fs_ok_change [OF ok mono]) (auto simp: e(1,3) dest: without_dir without_fds split: if_splits)
    with e inst mono show thesis by (intro that [of "take (bytes r) s"]) simp_all
  next
    case fail
    from release_failed_eq [OF fail(1) rel fresh] obtain x
      where e: "dir fs'' = dir ?b" "inode fs'' = (inode fs)(i := x)" "fds fs'' = fds ?b" by (auto simp: ni)
    have "fs_ok fs''"
      by (intro fs_ok_change [OF ok mono]) (auto simp: e(1,3) dest: without_dir without_fds)
    moreover have "\<not> committed r'" "\<exists>m \<in> set put_replies. prefix (wire c') m"
      using fail(1) by (auto simp: put_failed_def committed_def)
    ultimately show thesis using e fail(2) mono by (intro that [of x]) simp_all
  qed
qed

end
