(* ===== verification/Request_State.thy ===== *)
theory Request_State
  imports Put_Local Server
begin

text \<open>
  What is true of a request between two rounds, on the file system and the connection as they are, and
  what its next round changes for the other requests. The names of temporary files are set apart: the
  server writes \<open><path>.tmp.<id>\<close> into the directory of the clients' files, so a client that asks for
  such a name meets the file of another upload.
\<close>

section \<open>Names of temporary files\<close>

definition tmp_like :: "string \<Rightarrow> bool" where
  "tmp_like p \<longleftrightarrow> (\<exists>b n. p = b @ ''.tmp.'' @ nat_str n)"

lemma tmp_like_tmp_name [simp]: "tmp_like (tmp_name r)"
  by (auto simp: tmp_like_def tmp_name_def)

lemma after_last_dot: "rev (takeWhile (\<lambda>c. c \<noteq> CHR ''.'') (rev (b @ ''.tmp.'' @ nat_str n))) = nat_str n"
proof -
  have "list_all (\<lambda>c. c \<noteq> CHR ''.'') (rev (nat_str n))"
    by (auto simp: list_all_iff dest: nat_str_digits is_digit_neq(11))
  from takeWhile_append_stop [OF this, of "CHR ''.''"] show ?thesis by simp
qed

lemma tmp_name_inj: "tmp_name r1 = tmp_name r2 \<Longrightarrow> rid r1 = rid r2"
  unfolding tmp_name_def by (metis after_last_dot nat_str_inject)

section \<open>The state of a request\<close>

text \<open>\<open>r\<close> was built from the request line that \<open>sent\<close> begins with, and \<open>s\<close> is what follows that line.\<close>

definition request_of :: "args \<Rightarrow> string \<Rightarrow> request \<Rightarrow> string \<Rightarrow> bool" where
  "request_of a sent r s \<longleftrightarrow> (\<exists>l. sent = l @ NL # s \<and> NL \<notin> set l \<and>
     (let p = parse_request_line l in
      filename r = req_filename p \<and> path r = a_file_dir a @ ''/'' @ filename r \<and>
      (rop r = OpGET \<and> req_type p = GET \<or> rop r = OpPUT \<and> req_type p = PUT \<and> bytes r = req_byte_count p)))"

definition req_ok :: "args \<Rightarrow> fsys \<Rightarrow> chan \<Rightarrow> string \<Rightarrow> (string \<times> string) option \<Rightarrow> request \<Rightarrow> bool" where
  "req_ok a fs c sent snap r \<longleftrightarrow> \<not> tmp_like (path r) \<and> bytes r \<le> u64_max \<and> (\<exists>s. request_of a sent r s \<and>
     (case rop r of
        OpGET \<Rightarrow> tmp_path r = [] \<and> 0 \<le> file_fd r \<and> (\<exists>data. snap = Some (path r, data) \<and> get_state fs r c data)
      | OpPUT \<Rightarrow> put_local fs r s c))"

text \<open>What is true of a request when it leaves the server, and of what its client has then received.\<close>

definition fin_ok :: "args \<Rightarrow> (string \<times> string) option \<Rightarrow> finished \<Rightarrow> bool" where
  "fin_ok a snap d \<longleftrightarrow> (let r = fin_request d in \<exists>s. request_of a (fin_sent d) r s \<and>
     (case rop r of
        OpGET \<Rightarrow> \<exists>data. snap = Some (path r, data) \<and> prefix (fin_wire d) (response data) \<and>
          (fin_result d = DONE \<longrightarrow> fin_wire d = response data)
      | OpPUT \<Rightarrow>
          if committed r
          then bytes r \<le> length s \<and> prefix (fin_wire d) (format_ok 0 @ format_ok 0) \<and>
            (fin_result d = DONE \<longrightarrow> fin_wire d = format_ok 0 @ format_ok 0)
          else fin_result d = FAILED \<and> (\<exists>m \<in> set put_replies. prefix (fin_wire d) m)))"

lemma request_of_kept: "kept r r' \<Longrightarrow> request_of a sent r' s = request_of a sent r s"
  by (simp add: request_of_def kept_def)

section \<open>What a round changes\<close>

definition disk_ok :: "fsys \<Rightarrow> bool" where
  "disk_ok fs \<longleftrightarrow> fs_ok fs \<and> (\<forall>p i. dir fs p = Some (Reg i) \<longrightarrow> length (inode fs i) \<le> u64_max)"

definition apart :: "fsys \<Rightarrow> request \<Rightarrow> nat \<Rightarrow> bool" where
  "apart fs r i \<longleftrightarrow> (\<forall>fd. fds fs fd = Some i \<longrightarrow> fd = file_fd r) \<and> (\<forall>p. dir fs p = Some (Reg i) \<longrightarrow> p = tmp_name r)"

definition changes :: "fsys \<Rightarrow> request \<Rightarrow> nat \<Rightarrow> fsys \<Rightarrow> bool" where
  "changes fs r i fs' \<longleftrightarrow> disk_ok fs' \<and> next_fd fs \<le> next_fd fs' \<and>
     (\<forall>j. j \<noteq> i \<longrightarrow> inode fs' j = inode fs j) \<and>
     (\<forall>p. p \<noteq> tmp_name r \<and> p \<noteq> path r \<longrightarrow> dir fs' p = dir fs p) \<and>
     (\<forall>p j. dir fs' p = Some (Reg j) \<longrightarrow> j = i \<or> dir fs p = Some (Reg j)) \<and>
     (\<forall>fd j. fds fs' fd = Some j \<longrightarrow> j = i \<or> fds fs fd = Some j) \<and>
     (\<forall>fd. fd \<noteq> file_fd r \<and> fd < next_fd fs \<longrightarrow> fds fs' fd = fds fs fd)"

lemma changesI:
  assumes "disk_ok fs'" and "next_fd fs \<le> next_fd fs'" and "\<And>j. j \<noteq> i \<Longrightarrow> inode fs' j = inode fs j"
    and "\<And>p. p \<noteq> tmp_name r \<Longrightarrow> p \<noteq> path r \<Longrightarrow> dir fs' p = dir fs p"
    and "\<And>p j. dir fs' p = Some (Reg j) \<Longrightarrow> j = i \<or> dir fs p = Some (Reg j)"
    and "\<And>fd j. fds fs' fd = Some j \<Longrightarrow> j = i \<or> fds fs fd = Some j"
    and "\<And>fd. fd \<noteq> file_fd r \<Longrightarrow> fd < next_fd fs \<Longrightarrow> fds fs' fd = fds fs fd"
  shows "changes fs r i fs'"
  using assms by (simp add: changes_def)

lemma private_ino_apart: "private_ino fs r i \<Longrightarrow> fs_ok fs \<Longrightarrow> apart fs r i"
  by (auto simp: private_ino_def apart_def owns_def fs_ok_def split: if_splits)

lemma apart_next: "fs_ok fs \<Longrightarrow> apart fs r (next_ino fs)"
  by (auto simp: apart_def fs_ok_def)

lemma get_state_frame:
  assumes "get_state fs r c data" and "fds fs' (file_fd r) = fds fs (file_fd r)"
    and "\<And>j. fds fs (file_fd r) = Some j \<Longrightarrow> inode fs' j = inode fs j"
  shows "get_state fs' r c data"
  using assms by (auto simp: get_state_def get_inv_def file_view_def)

lemma owns_frame:
  assumes "owns fs r' j" and "changes fs r i fs'" and "j \<noteq> i" and "tmp_name r' \<noteq> tmp_name r" and "tmp_name r' \<noteq> path r"
    and "file_fd r' \<noteq> file_fd r" and "file_fd r' < next_fd fs"
  shows "owns fs' r' j"
  using assms unfolding owns_def changes_def by metis

text \<open>A round of one request leaves every other request in its state.\<close>

lemma req_ok_frame:
  assumes ok: "req_ok a fs c sent snap r'" and ch: "changes fs r i fs'" and pr: "apart fs r i" and fs: "fs_ok fs"
    and id: "rid r' \<noteq> rid r" and nt: "\<not> tmp_like (path r)" and fd: "0 \<le> file_fd r' \<Longrightarrow> file_fd r' \<noteq> file_fd r"
  shows "req_ok a fs' c sent snap r'"
proof -
  have neq: "tmp_name r' \<noteq> tmp_name r" "tmp_name r' \<noteq> path r" using id tmp_name_inj nt tmp_like_tmp_name by metis+
  have old: "fd < next_fd fs" if "fds fs fd = Some j" for fd j
    using fs that by (metis fs_ok_def linorder_not_le option.distinct(1))
  have get: "get_state fs' r' c data" if g: "get_state fs r' c data" and "0 \<le> file_fd r'" for data
  proof -
    obtain j where j: "fds fs (file_fd r') = Some j" using g unfolding get_state_def get_inv_def file_view_def by blast
    have "j \<noteq> i" using pr j fd [OF that(2)] by (auto simp: apart_def)
    with get_state_frame [OF that(1), of fs'] old [OF j] fd [OF that(2)] ch j show ?thesis by (auto simp: changes_def)
  qed
  have put: "put_local fs' r' s c" if "put_local fs r' s c" for s
  proof (cases "started r'")
    case True
    with that obtain j where j: "owns fs r' j" "inode fs j = take (byte_offset r') s" "0 \<le> file_fd r'"
      by (auto simp: put_local_def)
    have "j \<noteq> i" using pr j(1) neq(1) by (auto simp: apart_def owns_def)
    moreover have "file_fd r' < next_fd fs" using j(1) old by (auto simp: owns_def)
    ultimately have "owns fs' r' j" "inode fs' j = inode fs j"
      using owns_frame [OF j(1) ch _ neq fd [OF j(3)]] ch by (auto simp: changes_def)
    with that True j show ?thesis by (auto simp: put_local_def)
  next
    case False
    with that ch neq show ?thesis by (simp add: put_local_def changes_def)
  qed
  from ok get put show ?thesis by (cases "rop r'") (auto simp: req_ok_def)
qed

section \<open>The files the clients see\<close>

definition view :: "fsys \<Rightarrow> string \<Rightarrow> string option" where
  "view fs p = (if tmp_like p then None else visible fs p)"

definition after_line :: "string \<Rightarrow> string" where
  "after_line sent = drop (Suc (length (until_nl sent))) sent"

text \<open>The updates that a list of finished requests stands for, and the map after some updates.\<close>

definition installs :: "finished \<Rightarrow> bool" where
  "installs d \<longleftrightarrow> rop (fin_request d) = OpPUT \<and> committed (fin_request d)"

definition update_of :: "finished \<Rightarrow> string \<times> string" where
  "update_of d = (path (fin_request d), take (bytes (fin_request d)) (after_line (fin_sent d)))"

definition updates :: "finished list \<Rightarrow> (string \<times> string) list" where
  "updates ds = map update_of (filter installs ds)"

definition apply_updates :: "(string \<times> string) list \<Rightarrow> (string \<Rightarrow> string option) \<Rightarrow> string \<Rightarrow> string option" where
  "apply_updates us m = foldl (\<lambda>m (p, x). m(p \<mapsto> x)) m us"

lemma updates_snoc: "updates (ds @ [d]) = updates ds @ (if installs d then [update_of d] else [])"
  by (simp add: updates_def)

lemma apply_updates_simps [simp]:
  "apply_updates [] m = m" "apply_updates (us @ [(p, x)]) m = (apply_updates us m)(p \<mapsto> x)"
  by (simp_all add: apply_updates_def)

lemma after_line_eq: "NL \<notin> set l \<Longrightarrow> after_line (l @ NL # s) = s"
proof -
  assume "NL \<notin> set l"
  then have "until_nl (l @ NL # s) = l"
    unfolding until_nl_def by (intro takeWhile_append_stop) (auto simp: list_all_iff)
  then show ?thesis by (simp add: after_line_def)
qed

lemma request_of_body: "request_of a sent r s \<Longrightarrow> s = after_line sent"
  by (auto simp: request_of_def after_line_eq)

lemma view_cong:
  assumes "\<And>p. \<not> tmp_like p \<Longrightarrow> dir fs' p = dir fs p" and "\<And>j. j \<noteq> i \<Longrightarrow> inode fs' j = inode fs j"
    and "\<And>p. dir fs p = Some (Reg i) \<Longrightarrow> tmp_like p"
  shows "view fs' = view fs"
proof
  fix p
  show "view fs' p = view fs p"
    using assms(1) [of p] assms(3) [of p] assms(2)
    by (cases "dir fs p") (auto simp: view_def visible_def split: dirent.splits)
qed

lemma view_install:
  assumes "\<And>q. \<not> tmp_like q \<Longrightarrow> q \<noteq> p \<Longrightarrow> dir fs' q = dir fs q" and "\<And>j. j \<noteq> i \<Longrightarrow> inode fs' j = inode fs j"
    and "\<And>q. dir fs q = Some (Reg i) \<Longrightarrow> tmp_like q" and "dir fs' p = Some (Reg i)" and "\<not> tmp_like p"
  shows "view fs' = (view fs)(p \<mapsto> inode fs' i)"
proof
  fix q
  show "view fs' q = ((view fs)(p \<mapsto> inode fs' i)) q"
    using assms(1) [of q] assms(3) [of q] assms(2,4,5)
    by (cases "q = p"; cases "dir fs q") (auto simp: view_def visible_def split: dirent.splits)
qed

section \<open>A round\<close>

lemma without_dir_eq: "p \<noteq> tmp_name r \<Longrightarrow> dir (without r i fs) p = dir fs p"
  and without_dir_tmp: "started r \<Longrightarrow> dir (without r i fs) (tmp_name r) = None"
  and without_fds_eq: "fd \<noteq> file_fd r \<Longrightarrow> fds (without r i fs) fd = fds fs fd"
  by (auto simp: without_def)

lemma round_more_put:
  assumes rd: "serve_slice r c fs sp = (PREEMPTED, r1, c1, fs1, lines)" and ok: "req_ok a fs c sent snap r"
    and disk: "disk_ok fs" and op: "rop r = OpPUT"
  obtains i where "changes fs r i fs1" "apart fs r i" "req_ok a fs1 c1 sent snap r1" "view fs1 = view fs"
    "file_fd r1 = file_fd r \<or> file_fd r < 0 \<and> file_fd r1 = next_fd fs" "file_fd r1 < next_fd fs1"
    "\<And>p. dir fs1 p \<noteq> None \<Longrightarrow> dir fs p \<noteq> None \<or> p = tmp_name r1" "started r1"
proof -
  have fs: "fs_ok fs" and small: "\<And>p i. dir fs p = Some (Reg i) \<Longrightarrow> length (inode fs i) \<le> u64_max"
    using disk by (simp_all add: disk_ok_def)
  have put: "serve_put r c fs sp = (PREEMPTED, r1, c1, fs1)"
    using rd op by (simp add: serve_slice_def split: prod.splits)
  obtain s where s: "request_of a sent r s" "put_local fs r s c" using ok op by (auto simp: req_ok_def)
  from put_local_ino [OF s(2)] obtain i where i: "private_ino fs r i" "started r \<Longrightarrow> inode fs i = take (byte_offset r) s" by blast
  from put_round_more [OF put s(2) i op fs] obtain x where m: "put_local fs1 r1 s c1" "started r1" "owns fs1 r1 i"
    "inode fs1 i = take (byte_offset r1) s" "dir fs1 = (dir (without r i fs))(tmp_name r \<mapsto> Reg i)" "inode fs1 = (inode fs)(i := x)"
    "fds fs1 = (fds (without r i fs))(file_fd r1 \<mapsto> i)" "file_fd r1 = (if started r then file_fd r else next_fd fs)"
    "fs_ok fs1" "next_fd fs \<le> next_fd fs1" by blast
  note ap = private_ino_apart [OF i(1) fs]
  have kp: "kept r r1" using serve_slice_fields(1) [OF rd] .
  then have tn: "tmp_name r1 = tmp_name r" by (simp add: kept_def tmp_name_def)
  have b: "byte_offset r1 \<le> bytes r" "bytes r \<le> u64_max" using m(1) ok kp by (simp_all add: put_local_def req_ok_def kept_def)
  have off: "length (inode fs1 i) \<le> u64_max" using m(4) b by simp
  have "length (inode fs1 j) \<le> u64_max" if "dir fs1 p = Some (Reg j)" for p j
  proof (cases "j = i")
    case False
    with that m(5) without_dir [of r i fs p] have "dir fs p = Some (Reg j)" by (auto split: if_splits)
    with small [of p j] False m(6) show ?thesis by simp
  qed (use off in simp)
  then have "disk_ok fs1" using m(9) by (simp add: disk_ok_def)
  then have "changes fs r i fs1"
  proof (intro changesI)
    show "dir fs1 p = dir fs p" if "p \<noteq> tmp_name r" for p using that m(5) by (simp add: without_dir_eq)
    show "j = i \<or> dir fs p = Some (Reg j)" if "dir fs1 p = Some (Reg j)" for p j
      using that m(5) without_dir [of r i fs p] by (auto split: if_splits)
    show "j = i \<or> fds fs fd = Some j" if "fds fs1 fd = Some j" for fd j
      using that m(7) without_fds [of r i fs fd] by (auto split: if_splits)
    show "fds fs1 fd = fds fs fd" if "fd \<noteq> file_fd r" "fd < next_fd fs" for fd
      using that m(7,8) by (simp add: without_fds_eq)
  qed (use m(6,10) in simp_all)
  moreover have "req_ok a fs1 c1 sent snap r1"
    using ok s m(1) kp op request_of_kept [OF kp] by (auto simp: req_ok_def kept_def)
  moreover have "view fs1 = view fs"
    using ap m(5,6) by (intro view_cong [where i = i]) (auto simp: without_dir_eq apart_def)
  moreover have "file_fd r1 = file_fd r \<or> file_fd r < 0 \<and> file_fd r1 = next_fd fs"
    using m(8) s(2) by (simp add: put_local_def split: if_splits)
  moreover have "file_fd r1 < next_fd fs1"
    using m(3,9) by (metis owns_def fs_ok_def linorder_not_le option.distinct(1))
  moreover have "dir fs p \<noteq> None \<or> p = tmp_name r1" if "dir fs1 p \<noteq> None" for p
    using that m(5) by (auto simp: tn without_dir_eq split: if_splits)
  ultimately show thesis using ap m(2) that by blast
qed

lemma get_ok:
  assumes "req_ok a fs c sent snap r" and "rop r = OpGET"
  obtains s data where "request_of a sent r s" "snap = Some (path r, data)" "get_state fs r c data" "tmp_path r = []" "0 \<le> file_fd r"
  using assms by (auto simp: req_ok_def)

lemma serve_get_frame:
  assumes "serve_get fs r c sp = (res, r1, c1, log)"
  shows "file_fd r1 = file_fd r" "tmp_path r1 = tmp_path r"
  using serve_get_fields(1) [OF assms] by (auto simp: resumed_def)

lemma changes_refl: "disk_ok fs \<Longrightarrow> changes fs r i fs"
  by (rule changesI) simp_all

lemma round_more_get:
  assumes rd: "serve_slice r c fs sp = (PREEMPTED, r1, c1, fs1, lines)" and ok: "req_ok a fs c sent snap r"
    and op: "rop r = OpGET"
  shows "fs1 = fs" and "req_ok a fs c1 sent snap r1" and "file_fd r1 = file_fd r" and "rop r1 = OpGET"
proof -
  obtain log where g: "serve_get fs r c sp = (PREEMPTED, r1, c1, log)" and fs: "fs1 = fs"
    using rd op by (auto simp: serve_slice_def split: prod.splits)
  from get_ok [OF ok op] obtain s data where d: "request_of a sent r s" "snap = Some (path r, data)" "get_state fs r c data"
    "tmp_path r = []" "0 \<le> file_fd r" by blast
  note kp = serve_slice_fields(1) [OF rd] and fr = serve_get_frame [OF g]
  have "get_state fs r1 c1 data" using get_state_round(1) [OF g d(3)] by simp
  with d ok op fr kp request_of_kept [OF kp] show "req_ok a fs c1 sent snap r1"
    by (auto simp: req_ok_def kept_def)
  show "fs1 = fs" "file_fd r1 = file_fd r" "rop r1 = OpGET" using fs fr kp op by (simp_all add: kept_def)
qed

text \<open>The end of a request, with the release of what it holds.\<close>

lemma round_end_put:
  assumes rd: "serve_slice r c fs sp = (res, r1, c1, fs1, lines)" and fin: "res \<noteq> PREEMPTED"
    and rel: "release_request r1 fs1 = (r2, fs2)" and ok: "req_ok a fs c sent snap r" and disk: "disk_ok fs" and op: "rop r = OpPUT"
    and d: "fin_result d = res" "fin_request d = r1\<lparr>finish_ns := now\<rparr>" "fin_sent d = sent" "fin_wire d = wire c1"
  obtains i where "changes fs r i fs2" "apart fs r i" "fin_ok a snap d" "view fs2 = apply_updates (updates [d]) (view fs)"
    "\<And>p. dir fs2 p \<noteq> None \<Longrightarrow> tmp_like p \<Longrightarrow> dir fs p \<noteq> None \<and> p \<noteq> tmp_name r"
proof -
  have fs: "fs_ok fs" and small: "\<And>p i. dir fs p = Some (Reg i) \<Longrightarrow> length (inode fs i) \<le> u64_max"
    using disk by (simp_all add: disk_ok_def)
  have put: "serve_put r c fs sp = (res, r1, c1, fs1)"
    using rd op by (simp add: serve_slice_def split: prod.splits)
  obtain s where s: "request_of a sent r s" "put_local fs r s c" using ok op by (auto simp: req_ok_def)
  from put_local_ino [OF s(2)] obtain i where i: "private_ino fs r i" "started r \<Longrightarrow> inode fs i = take (byte_offset r) s" by blast
  from put_round_end [OF put s(2) i op fs fin rel] obtain x where m: "inode fs2 = (inode fs)(i := x)"
    "fds fs2 = fds (without r i fs)" "fs_ok fs2" "next_fd fs \<le> next_fd fs2"
    "if committed r1
     then dir fs2 = (dir (without r i fs))(path r \<mapsto> Reg i) \<and> x = take (bytes r) s \<and> bytes r \<le> length s \<and>
       prefix (wire c1) (format_ok 0 @ format_ok 0) \<and> (res = DONE \<longrightarrow> wire c1 = format_ok 0 @ format_ok 0)
     else dir fs2 = dir (without r i fs) \<and> res = FAILED \<and> (\<exists>m \<in> set put_replies. prefix (wire c1) m)" by blast
  note ap = private_ino_apart [OF i(1) fs]
  have nt: "\<not> tmp_like (path r)" "bytes r \<le> u64_max" using ok by (simp_all add: req_ok_def)
  then have neq: "path r \<noteq> tmp_name r" using tmp_like_tmp_name by metis
  have kp: "kept r (r1\<lparr>finish_ns := finish_ns r\<rparr>)" "kept r r1" using serve_slice_fields(1) [OF rd] by (simp_all add: kept_def)
  have dirs: "dir fs2 p = dir (without r i fs) p \<or> committed r1 \<and> p = path r \<and> dir fs2 p = Some (Reg i)" for p
    using m(5) by (cases "committed r1") auto
  have tmpn: "dir (without r i fs) (tmp_name r) = None"
    using s(2) without_dir_tmp [of r i fs] by (cases "started r") (simp_all add: put_local_def without_def)
  have noti: "dir (without r i fs) p \<noteq> Some (Reg i)" for p
  proof
    assume a: "dir (without r i fs) p = Some (Reg i)"
    from without_dir [OF a] ap have "p = tmp_name r" by (simp add: apart_def)
    with a tmpn show False by simp
  qed
  have tmp: "dir fs2 (tmp_name r) = None"
    using dirs [of "tmp_name r"] neq tmpn by simp
  have other: "dir fs2 p = dir fs p" if "p \<noteq> tmp_name r" "p \<noteq> path r" for p
    using dirs [of p] that by (simp add: without_dir_eq)
  have "length (inode fs2 j) \<le> u64_max" if "dir fs2 p = Some (Reg j)" for p j
  proof (cases "j = i")
    case True
    with dirs [of p] noti [of p] that have "committed r1" by auto
    with m(1,5) nt(2) True show ?thesis by simp
  next
    case False
    with that dirs [of p] have "dir (without r i fs) p = Some (Reg j)" by auto
    then have "dir fs p = Some (Reg j)" by (rule without_dir)
    with small [of p j] False m(1) show ?thesis by simp
  qed
  then have "disk_ok fs2" using m(3) by (simp add: disk_ok_def)
  then have "changes fs r i fs2"
  proof (intro changesI)
    show "j = i \<or> dir fs p = Some (Reg j)" if "dir fs2 p = Some (Reg j)" for p j
    proof -
      from that dirs [of p] consider "j = i" | "dir (without r i fs) p = Some (Reg j)" by auto
      then show ?thesis by cases (auto dest: without_dir)
    qed
    show "j = i \<or> fds fs fd = Some j" if "fds fs2 fd = Some j" for fd j
      using that m(2) without_fds [of r i fs fd] by simp
  qed (use m(1,2,4) other in \<open>simp_all add: without_fds_eq\<close>)
  moreover have "fin_ok a snap d"
  proof -
    have "request_of a sent (r1\<lparr>finish_ns := now\<rparr>) s" using s(1) kp(2) by (simp add: request_of_def kept_def)
    with m(5) op kp(2) show ?thesis by (auto simp: fin_ok_def d Let_def kept_def committed_def)
  qed
  moreover have "view fs2 = apply_updates (updates [d]) (view fs)"
  proof (cases "committed r1")
    case True
    have "view fs2 = (view fs)(path r \<mapsto> inode fs2 i)"
    proof (rule view_install)
      show "dir fs2 q = dir fs q" if "\<not> tmp_like q" "q \<noteq> path r" for q
      proof -
        have "q \<noteq> tmp_name r" using that(1) tmp_like_tmp_name by metis
        with other that show ?thesis by simp
      qed
      show "inode fs2 j = inode fs j" if "j \<noteq> i" for j using that m(1) by simp
      show "tmp_like q" if "dir fs q = Some (Reg i)" for q using that ap tmp_like_tmp_name unfolding apart_def by metis
      show "dir fs2 (path r) = Some (Reg i)" using True m(5) by simp
    qed (rule nt)
    moreover have "updates [d] = [] @ [(path r, take (bytes r) s)]"
      using True op kp request_of_body [OF s(1)] by (simp add: updates_def installs_def update_of_def d kept_def committed_def)
    moreover have "inode fs2 i = take (bytes r) s" using True m(1,5) by simp
    ultimately show ?thesis by (simp only: apply_updates_simps)
  next
    case False
    have "view fs2 = view fs"
    proof (rule view_cong [where i = i])
      show "dir fs2 q = dir fs q" if "\<not> tmp_like q" for q
      proof -
        have "q \<noteq> tmp_name r" using that tmp_like_tmp_name by metis
        with dirs [of q] False show ?thesis by (simp add: without_dir_eq)
      qed
      show "inode fs2 j = inode fs j" if "j \<noteq> i" for j using that m(1) by simp
      show "tmp_like q" if "dir fs q = Some (Reg i)" for q using that ap tmp_like_tmp_name unfolding apart_def by metis
    qed
    with False show ?thesis by (auto simp: updates_def installs_def d committed_def)
  qed
  moreover have "dir fs p \<noteq> None \<and> p \<noteq> tmp_name r" if "dir fs2 p \<noteq> None" "tmp_like p" for p
    using that tmp other [of p] nt(1) by metis
  ultimately show thesis using ap that by blast
qed

lemma round_end_get:
  assumes rd: "serve_slice r c fs sp = (res, r1, c1, fs1, lines)" and fin: "res \<noteq> PREEMPTED"
    and rel: "release_request r1 fs1 = (r2, fs2)" and ok: "req_ok a fs c sent snap r" and disk: "disk_ok fs" and op: "rop r = OpGET"
    and d: "fin_result d = res" "fin_request d = r1\<lparr>finish_ns := now\<rparr>" "fin_sent d = sent" "fin_wire d = wire c1"
  shows "changes fs r (next_ino fs) fs2" and "fin_ok a snap d" and "view fs2 = apply_updates (updates [d]) (view fs)"
    and "dir fs2 = dir fs"
proof -
  obtain log where g: "serve_get fs r c sp = (res, r1, c1, log)" and fs1: "fs1 = fs"
    using rd op by (auto simp: serve_slice_def split: prod.splits)
  from get_ok [OF ok op] obtain s data where dt: "request_of a sent r s" "snap = Some (path r, data)" "get_state fs r c data"
    "tmp_path r = []" "0 \<le> file_fd r" by blast
  note kp = serve_slice_fields(1) [OF rd] and fr = serve_get_frame [OF g]
  have fs2: "fs2 = sys_close (file_fd r) fs" using rel fr dt(4,5) fs1 by (simp add: release_request_def Let_def)
  have inv: "get_inv fs r data" "wire c = answered r data" using dt(3) by (simp_all add: get_state_def)
  have fsk: "fs_ok fs" using disk by (simp add: disk_ok_def)
  have "fs_ok fs2" using fsk by (rule fs_ok_change) (auto simp: fs2 sys_close_def split: if_splits)
  then have "disk_ok fs2" using disk by (auto simp: disk_ok_def fs2 sys_close_def)
  then show "changes fs r (next_ino fs) fs2"
    by (rule changesI) (auto simp: fs2 sys_close_def split: if_splits)
  show dir: "dir fs2 = dir fs" by (simp add: fs2 sys_close_def)
  have r1: "rop (fin_request d) = OpGET" "path (fin_request d) = path r" using d(2) kp op by (simp_all add: kept_def)
  have "request_of a sent (r1\<lparr>finish_ns := now\<rparr>) s" using dt(1) kp by (simp add: request_of_def kept_def)
  moreover have "run_rounds 1 r c fs sp = (res, r1, c1, fs1, lines)" using rd fin by (cases res) simp_all
  from run_get_safe [OF dt(3) this] have "prefix (wire c1) (response data)" "res = DONE \<longrightarrow> wire c1 = response data" by simp_all
  ultimately show "fin_ok a snap d" using dt(2) r1 kp op by (auto simp: fin_ok_def d Let_def kept_def)
  have "inode fs2 = inode fs" by (simp add: fs2 sys_close_def)
  with dir have "view fs2 = view fs" by (intro ext) (simp add: view_def visible_def split: option.split dirent.split)
  then show "view fs2 = apply_updates (updates [d]) (view fs)" using r1 by (simp add: updates_def installs_def)
qed

text \<open>The two kinds of request together.\<close>

lemma round_more:
  assumes rd: "serve_slice r c fs sp = (PREEMPTED, r1, c1, fs1, lines)" and ok: "req_ok a fs c sent snap r" and disk: "disk_ok fs"
  obtains i where "changes fs r i fs1" "apart fs r i" "req_ok a fs1 c1 sent snap r1" "view fs1 = view fs"
    "file_fd r1 = file_fd r \<or> file_fd r1 = next_fd fs" "file_fd r1 < next_fd fs1"
    "\<And>p. dir fs1 p \<noteq> None \<Longrightarrow> p = tmp_name r1 \<and> rop r1 = OpPUT \<or> dir fs p \<noteq> None \<and> (p = tmp_name r \<longrightarrow> rop r \<noteq> OpPUT)"
proof (cases "rop r")
  case OpPUT
  have kp: "rop r1 = OpPUT" "tmp_name r1 = tmp_name r"
    using serve_slice_fields(1) [OF rd] OpPUT by (simp_all add: kept_def tmp_name_def)
  from round_more_put [OF rd ok disk OpPUT] kp OpPUT show thesis by (metis that)
next
  case OpGET
  from get_ok [OF ok OpGET] obtain s data where g: "get_state fs r c data" by blast
  then obtain j where "fds fs (file_fd r) = Some j" unfolding get_state_def get_inv_def file_view_def by blast
  with disk have "file_fd r < next_fd fs" by (metis disk_ok_def fs_ok_def linorder_not_le option.distinct(1))
  with round_more_get [OF rd ok OpGET] changes_refl [OF disk] apart_next disk OpGET show thesis
    by (intro that [of "next_ino fs"]) (simp_all add: disk_ok_def)
qed

lemma round_end:
  assumes rd: "serve_slice r c fs sp = (res, r1, c1, fs1, lines)" and fin: "res \<noteq> PREEMPTED"
    and rel: "release_request r1 fs1 = (r2, fs2)" and ok: "req_ok a fs c sent snap r" and disk: "disk_ok fs"
    and d: "fin_result d = res" "fin_request d = r1\<lparr>finish_ns := now\<rparr>" "fin_sent d = sent" "fin_wire d = wire c1"
  obtains i where "changes fs r i fs2" "apart fs r i" "fin_ok a snap d" "view fs2 = apply_updates (updates [d]) (view fs)"
    "\<And>p. tmp_like p \<Longrightarrow> dir fs2 p \<noteq> None \<Longrightarrow> dir fs p \<noteq> None \<and> (p = tmp_name r \<longrightarrow> rop r \<noteq> OpPUT)"
proof (cases "rop r")
  case OpPUT
  from round_end_put [OF rd fin rel ok disk OpPUT d] show thesis by (metis that)
next
  case OpGET
  from round_end_get [OF rd fin rel ok disk OpGET d] apart_next disk OpGET show thesis
    by (intro that [of "next_ino fs"]) (simp_all add: disk_ok_def)
qed

lemma release_finish: "snd (release_request (r\<lparr>finish_ns := t\<rparr>) fs) = snd (release_request r fs)"
  by (simp add: release_request_def Let_def)

end
