(* ===== verification/Server_Store.thy ===== *)
theory Server_Store
  imports Server_Drain Request_State
begin

text \<open>
  The files and the connections while many requests are in the server at once. In every reachable
  state each request is in the state \<open>req_ok\<close> describes, on its own connection, with a descriptor of
  its own and, for an upload, a temporary file of its own; what a finished request has done is
  \<open>fin_ok\<close>. The steps considered are those in which no client uses a name of the form of the server's
  temporary files and fewer than \<open>2 ^ 64 - 1\<close> ids have been taken.
\<close>

section \<open>The invariant\<close>

definition conns :: "server \<Rightarrow> int list" where
  "conns st = sv_admitting st @ map client_fd (live st)"

definition conn_ok :: "server \<Rightarrow> bool" where
  "conn_ok st \<longleftrightarrow> distinct (conns st) \<and> (\<forall>fd \<in> set (conns st). sv_open st fd) \<and>
     (\<forall>fd \<in> set (sv_admitting st). wire (sv_chans st fd) = [] \<and> incoming (sv_chans st fd) = sv_sent st fd)"

definition names_ok :: "server \<Rightarrow> bool" where
  "names_ok st \<longleftrightarrow> disk_ok (sv_fs st) \<and>
     (\<forall>p. tmp_like p \<and> dir (sv_fs st) p \<noteq> None \<longrightarrow> (\<exists>r \<in> set (live st). p = tmp_name r \<and> rop r = OpPUT)) \<and>
     (\<forall>r \<in> set (live st). file_fd r < next_fd (sv_fs st)) \<and>
     (\<forall>r1 \<in> set (live st). \<forall>r2 \<in> set (live st). 0 \<le> file_fd r1 \<and> file_fd r1 = file_fd r2 \<longrightarrow> rid r1 = rid r2)"

definition reqs_ok :: "args \<Rightarrow> server \<Rightarrow> bool" where
  "reqs_ok a st \<longleftrightarrow> (\<forall>r \<in> set (live st).
     req_ok a (sv_fs st) (sv_chans st (client_fd r)) (sv_sent st (client_fd r)) (sv_snaps st (rid r)) r)"

definition done_ok :: "args \<Rightarrow> server \<Rightarrow> bool" where
  "done_ok a st \<longleftrightarrow> (\<forall>d \<in> set (sv_done st). fin_ok a (sv_snaps st (rid (fin_request d))) d)"

definition store_ok :: "args \<Rightarrow> server \<Rightarrow> bool" where
  "store_ok a st \<longleftrightarrow> conn_ok st \<and> names_ok st \<and> reqs_ok a st \<and> done_ok a st"

text \<open>Ids are distinct, and the next one is new.\<close>

definition fresh_ids :: "server \<Rightarrow> bool" where
  "fresh_ids st \<longleftrightarrow> distinct (map rid (live st)) \<and> (\<forall>r \<in> set (live st). rid r \<noteq> sv_next_id st) \<and>
     (\<forall>d \<in> set (sv_done st). rid (fin_request d) \<noteq> sv_next_id st)"

lemma books_fresh_ids:
  assumes "books n st" and "no_wrap st"
  shows "fresh_ids st"
proof -
  have m: "mset (map rid (live st) @ map (rid \<circ> fin_request) (sv_done st)) = mset (sv_admitted st)"
    and d: "distinct (sv_admitted st)" and lt: "\<forall>i \<in> set (sv_admitted st). i < sv_next_id st"
    using assms by (auto simp: books_def held_ok_def ids_ok_def)
  have "distinct (map rid (live st) @ map (rid \<circ> fin_request) (sv_done st))"
    using d mset_eq_imp_distinct_iff [OF m] by simp
  moreover have set_eq: "set (map rid (live st) @ map (rid \<circ> fin_request) (sv_done st)) = set (sv_admitted st)"
    using m by (rule mset_eq_setD)
  moreover have "rid r \<noteq> sv_next_id st" if "r \<in> set (live st)" for r
  proof -
    have "rid r \<in> set (sv_admitted st)" using that by (simp flip: set_eq)
    with lt show ?thesis by fastforce
  qed
  moreover have "rid (fin_request d) \<noteq> sv_next_id st" if "d \<in> set (sv_done st)" for d
  proof -
    have "rid (fin_request d) \<in> set (sv_admitted st)" using that by (simp flip: set_eq)
    with lt show ?thesis by fastforce
  qed
  ultimately show ?thesis by (simp add: fresh_ids_def)
qed

lemma distinct_diff:
  assumes "distinct (map f xs)" and "x \<in> set xs" and "y \<in># mset xs - {#x#}"
  shows "y \<in> set xs" and "f y \<noteq> f x"
proof -
  from assms(2) obtain us vs where xs: "xs = us @ x # vs" by (meson split_list)
  then have "mset xs - {#x#} = mset us + mset vs" by simp
  with assms(3) have "y \<in> set us \<union> set vs" by auto
  with assms(1) xs show "y \<in> set xs" "f y \<noteq> f x" by (auto simp: rev_image_eqI)
qed

section \<open>Steps that do not touch the files\<close>

text \<open>A request that differs in its start time only.\<close>

lemma req_ok_stamp: "req_ok a fs c sent snap (stamp_start now r) = req_ok a fs c sent snap r"
  by (auto simp: req_ok_def request_of_def get_state_def get_inv_def answered_def file_view_def put_local_def owns_def
      tmp_name_def stamp_start_def stream_def split: req_op.split)

lemma stamp_fields [simp]:
  "client_fd (stamp_start now r) = client_fd r" "rop (stamp_start now r) = rop r"
  "file_fd (stamp_start now r) = file_fd r" "tmp_name (stamp_start now r) = tmp_name r" "path (stamp_start now r) = path r"
  by (simp_all add: stamp_start_def tmp_name_def)

lemma store_ok_relabel:
  assumes "store_ok a st" and "mset (map client_fd (live st')) = mset (map client_fd (live st))"
    and "\<And>r. r \<in> set (live st') \<Longrightarrow> \<exists>r0 \<in> set (live st). r = r0 \<or> r = stamp_start now r0"
    and "\<And>r0. r0 \<in> set (live st) \<Longrightarrow> \<exists>r \<in> set (live st'). r = r0 \<or> r = stamp_start now r0"
    and same: "sv_fs st' = sv_fs st" "sv_chans st' = sv_chans st" "sv_open st' = sv_open st" "sv_sent st' = sv_sent st"
      "sv_snaps st' = sv_snaps st" "sv_done st' = sv_done st" "sv_admitting st' = sv_admitting st"
  shows "store_ok a st'"
proof -
  have "mset (conns st') = mset (conns st)" using assms(2) same by (simp add: conns_def)
  then have "conn_ok st'" using assms(1) same mset_eq_imp_distinct_iff mset_eq_setD
    by (metis conn_ok_def store_ok_def)
  moreover have "names_ok st'"
    unfolding names_ok_def same
  proof (intro conjI ballI allI impI)
    have n: "names_ok st" using assms(1) by (simp add: store_ok_def)
    then show "disk_ok (sv_fs st)" by (simp add: names_ok_def)
    show "\<exists>r \<in> set (live st'). p = tmp_name r \<and> rop r = OpPUT" if "tmp_like p \<and> dir (sv_fs st) p \<noteq> None" for p
    proof -
      from n that obtain r0 where "r0 \<in> set (live st)" "p = tmp_name r0" "rop r0 = OpPUT" by (auto simp: names_ok_def)
      with assms(4) [of r0] show ?thesis by (metis stamp_fields(2,4))
    qed
    show "file_fd r < next_fd (sv_fs st)" if "r \<in> set (live st')" for r
      using n assms(3) [OF that] by (auto simp: names_ok_def)
    show "rid r1 = rid r2" if "r1 \<in> set (live st')" "r2 \<in> set (live st')" "0 \<le> file_fd r1 \<and> file_fd r1 = file_fd r2" for r1 r2
    proof -
      from assms(3) [OF that(1)] assms(3) [OF that(2)] obtain q1 q2 where "q1 \<in> set (live st)" "q2 \<in> set (live st)"
        "r1 = q1 \<or> r1 = stamp_start now q1" "r2 = q2 \<or> r2 = stamp_start now q2" by blast
      then have q: "q1 \<in> set (live st)" "q2 \<in> set (live st)" "rid r1 = rid q1" "rid r2 = rid q2" "file_fd r1 = file_fd q1" "file_fd r2 = file_fd q2"
        by auto
      from n q(1,2) that(3) show ?thesis unfolding names_ok_def q(3-6) by blast
    qed
  qed
  moreover have "reqs_ok a st'"
    unfolding reqs_ok_def same
  proof
    fix r assume "r \<in> set (live st')"
    from assms(3) [OF this] obtain r0 where "r0 \<in> set (live st)" "r = r0 \<or> r = stamp_start now r0" by blast
    with assms(1) show "req_ok a (sv_fs st) (sv_chans st (client_fd r)) (sv_sent st (client_fd r)) (sv_snaps st (rid r)) r"
      by (auto simp: store_ok_def reqs_ok_def req_ok_stamp)
  qed
  moreover have "done_ok a st'" using assms(1) same by (simp add: store_ok_def done_ok_def)
  ultimately show ?thesis by (simp add: store_ok_def)
qed

section \<open>A round of service\<close>

lemma conn_ok_distinct:
  assumes "conn_ok st" and "r \<in> set (live st)"
  shows "distinct (map client_fd (live st))" and "client_fd r \<notin> set (sv_admitting st)" and "distinct (sv_admitting st)"
  using assms by (auto simp: conn_ok_def conns_def)

text \<open>Every other request keeps its state when one request's round changes its own files and connection.\<close>

lemma others_ok:
  assumes st: "store_ok a st" "fresh_ids st" "r \<in> set (live st)" and y: "y \<in># mset (live st) - {#r#}"
    and ch: "changes (sv_fs st) r i fs'" "apart (sv_fs st) r i"
  shows "y \<in> set (live st)" and "rid y \<noteq> rid r" and "client_fd y \<noteq> client_fd r" and "0 \<le> file_fd y \<Longrightarrow> file_fd y \<noteq> file_fd r"
    and "req_ok a fs' (sv_chans st (client_fd y)) (sv_sent st (client_fd y)) (sv_snaps st (rid y)) y"
proof -
  have ok: "conn_ok st" "names_ok st" "reqs_ok a st" using st(1) by (simp_all add: store_ok_def)
  show mem: "y \<in> set (live st)" and id: "rid y \<noteq> rid r"
    using distinct_diff [OF _ st(3) y, of rid] st(2) by (simp_all add: fresh_ids_def)
  show "client_fd y \<noteq> client_fd r"
    using distinct_diff(2) [OF conn_ok_distinct(1) [OF ok(1) st(3)] st(3) y] .
  show fd: "file_fd y \<noteq> file_fd r" if "0 \<le> file_fd y"
    using ok(2) mem st(3) id that unfolding names_ok_def by metis
  have "req_ok a (sv_fs st) (sv_chans st (client_fd y)) (sv_sent st (client_fd y)) (sv_snaps st (rid y)) y"
    and "\<not> tmp_like (path r)" using ok(3) mem st(3) by (auto simp: reqs_ok_def req_ok_def)
  then show "req_ok a fs' (sv_chans st (client_fd y)) (sv_sent st (client_fd y)) (sv_snaps st (rid y)) y"
    using req_ok_frame [OF _ ch _ id _ fd] ok(2) by (simp add: names_ok_def disk_ok_def)
qed

lemma names_ok_round:
  assumes st: "store_ok a st" "fresh_ids st" "r \<in> set (live st)" and ch: "changes (sv_fs st) r i fs'" "apart (sv_fs st) r i"
    and live: "mset (live st') = mset rs + (mset (live st) - {#r#})" and fs: "sv_fs st' = fs'"
    and mine: "\<And>r'. r' \<in> set rs \<Longrightarrow> rid r' = rid r \<and> (file_fd r' = file_fd r \<or> file_fd r' = next_fd (sv_fs st)) \<and> file_fd r' < next_fd fs'"
    and tmp: "\<And>p. tmp_like p \<Longrightarrow> dir fs' p \<noteq> None \<Longrightarrow>
      (\<exists>r' \<in> set rs. p = tmp_name r' \<and> rop r' = OpPUT) \<or> dir (sv_fs st) p \<noteq> None \<and> (p = tmp_name r \<longrightarrow> rop r \<noteq> OpPUT)"
  shows "names_ok st'"
proof -
  have ok: "names_ok st" using st(1) by (simp add: store_ok_def)
  note oth = others_ok [OF st _ ch]
  have mem: "r' \<in> set rs \<or> r' \<in># mset (live st) - {#r#}" if "r' \<in> set (live st')" for r'
    using mset_set [OF live] that by auto
  have mem': "r' \<in> set (live st')" if "r' \<in> set rs \<or> r' \<in># mset (live st) - {#r#}" for r'
    using mset_set [OF live] that by auto
  show ?thesis
    unfolding names_ok_def fs
  proof (intro conjI ballI allI impI)
    show "disk_ok fs'" using ch(1) by (simp add: changes_def)
    show "\<exists>r' \<in> set (live st'). p = tmp_name r' \<and> rop r' = OpPUT" if "tmp_like p \<and> dir fs' p \<noteq> None" for p
    proof -
      from tmp that consider r' where "r' \<in> set rs" "p = tmp_name r'" "rop r' = OpPUT"
        | "dir (sv_fs st) p \<noteq> None" "p = tmp_name r \<longrightarrow> rop r \<noteq> OpPUT" by blast
      then show ?thesis
      proof cases
        case 2
        with ok that obtain q where q: "q \<in> set (live st)" "p = tmp_name q" "rop q = OpPUT" by (auto simp: names_ok_def)
        with 2 have "q \<noteq> r" by auto
        with q(1) have "q \<in># mset (live st) - {#r#}" by (simp add: in_diff_count)
        with q mem' show ?thesis by blast
      qed (use mem' in blast)
    qed
    show "file_fd r' < next_fd fs'" if "r' \<in> set (live st')" for r'
      using mem [OF that]
    proof
      assume "r' \<in># mset (live st) - {#r#}"
      then have "file_fd r' < next_fd (sv_fs st)" using oth(1) ok by (auto simp: names_ok_def)
      with ch(1) show ?thesis by (simp add: changes_def)
    qed (use mine in blast)
    show "rid r1 = rid r2" if "r1 \<in> set (live st')" "r2 \<in> set (live st')" and fd: "0 \<le> file_fd r1 \<and> file_fd r1 = file_fd r2" for r1 r2
    proof -
      have olds: "file_fd q < next_fd (sv_fs st)" "0 \<le> file_fd q \<Longrightarrow> file_fd q \<noteq> file_fd r" if "q \<in># mset (live st) - {#r#}" for q
        using oth(1,4) [OF that] ok by (auto simp: names_ok_def)
      from mem [OF that(1)] mem [OF that(2)]
      consider "r1 \<in> set rs" "r2 \<in> set rs" | "r1 \<in># mset (live st) - {#r#}" "r2 \<in># mset (live st) - {#r#}"
        | "r1 \<in> set rs" "r2 \<in># mset (live st) - {#r#}" | "r1 \<in># mset (live st) - {#r#}" "r2 \<in> set rs" by blast
      then show ?thesis
      proof cases
        case 1 with mine show ?thesis by auto
      next
        case 2 with oth(1) ok fd show ?thesis unfolding names_ok_def by blast
      next
        case 3 with mine [of r1] olds [of r2] fd show ?thesis by auto
      next
        case 4 with mine [of r2] olds [of r1] fd show ?thesis by auto
      qed
    qed
  qed
qed

lemma store_ok_preempted:
  assumes st: "store_ok a st" "fresh_ids st" and w: "w < length (sv_workers st)" "sv_workers st ! w = Serving r"
    and rd: "serve_slice r (sv_chans st (client_fd r)) (sv_fs st) sp = (PREEMPTED, r1, c1, fs1, lines)"
  shows "store_ok a (worker_serve sp now w r st)" and "view (sv_fs (worker_serve sp now w r st)) = view (sv_fs st)"
proof -
  define st' where "st' = worker_serve sp now w r st"
  have eqs: "sv_fs st' = fs1" "sv_chans st' = (sv_chans st)(client_fd r := c1)" "sv_open st' = sv_open st" "sv_sent st' = sv_sent st"
    "sv_snaps st' = sv_snaps st" "sv_done st' = sv_done st" "sv_admitting st' = sv_admitting st"
    by (simp_all add: st'_def worker_serve_def rd step_defs)
  note mem = live_serve(1) [OF w rd] and live = live_serve(2) [OF w rd, of now, folded st'_def]
  have live': "mset (live st') = mset [r1] + (mset (live st) - {#r#})" using live by simp
  have ok: "conn_ok st" "names_ok st" "reqs_ok a st" "done_ok a st" using st(1) by (simp_all add: store_ok_def)
  have kp: "kept r r1" by (rule serve_slice_fields(1) [OF rd])
  then have r1: "rid r1 = rid r" "client_fd r1 = client_fd r" by (simp_all add: kept_def)
  have "req_ok a (sv_fs st) (sv_chans st (client_fd r)) (sv_sent st (client_fd r)) (sv_snaps st (rid r)) r" "disk_ok (sv_fs st)"
    using ok(2,3) mem by (simp_all add: reqs_ok_def names_ok_def)
  from round_more [OF rd this] obtain i where rnd: "changes (sv_fs st) r i fs1" "apart (sv_fs st) r i"
    "req_ok a fs1 c1 (sv_sent st (client_fd r)) (sv_snaps st (rid r)) r1" "view fs1 = view (sv_fs st)"
    "file_fd r1 = file_fd r \<or> file_fd r1 = next_fd (sv_fs st)" "file_fd r1 < next_fd fs1"
    "\<And>p. dir fs1 p \<noteq> None \<Longrightarrow> p = tmp_name r1 \<and> rop r1 = OpPUT \<or> dir (sv_fs st) p \<noteq> None \<and> (p = tmp_name r \<longrightarrow> rop r \<noteq> OpPUT)" by blast
  have names: "names_ok st'"
  proof (rule names_ok_round [OF st mem rnd(1,2) live' eqs(1)])
    show "rid r' = rid r \<and> (file_fd r' = file_fd r \<or> file_fd r' = next_fd (sv_fs st)) \<and> file_fd r' < next_fd fs1"
      if "r' \<in> set [r1]" for r' using that r1 rnd(5,6) by simp
    show "(\<exists>r' \<in> set [r1]. p = tmp_name r' \<and> rop r' = OpPUT) \<or> dir (sv_fs st) p \<noteq> None \<and> (p = tmp_name r \<longrightarrow> rop r \<noteq> OpPUT)"
      if "dir fs1 p \<noteq> None" for p using rnd(7) [OF that] by auto
  qed
  have reqs: "reqs_ok a st'"
    unfolding reqs_ok_def
  proof
    fix y assume "y \<in> set (live st')"
    then have "y = r1 \<or> y \<in># mset (live st) - {#r#}" using mset_set [OF live'] by auto
    then show "req_ok a (sv_fs st') (sv_chans st' (client_fd y)) (sv_sent st' (client_fd y)) (sv_snaps st' (rid y)) y"
    proof
      assume "y = r1" with rnd(3) r1 show ?thesis by (simp add: eqs)
    next
      assume "y \<in># mset (live st) - {#r#}"
      from others_ok(3,5) [OF st mem this rnd(1,2)] show ?thesis by (simp add: eqs)
    qed
  qed
  have split: "mset (live st) = add_mset r (mset (live st) - {#r#})" using mem by simp
  have "mset (map client_fd (live st')) = mset (map client_fd (live st))"
    using live' r1(2) arg_cong [OF split, of "image_mset client_fd"] by simp
  then have m: "mset (conns st') = mset (conns st)" by (simp add: conns_def eqs)
  have conn: "conn_ok st'"
    using ok(1) conn_ok_distinct(2) [OF ok(1) mem] mset_eq_imp_distinct_iff [OF m] mset_eq_setD [OF m]
    by (simp add: conn_ok_def eqs)
  from names reqs conn ok(4) rnd(4) show "store_ok a (worker_serve sp now w r st)"
    "view (sv_fs (worker_serve sp now w r st)) = view (sv_fs st)"
    by (simp_all add: store_ok_def done_ok_def eqs flip: st'_def)
qed

lemma store_ok_finished:
  assumes st: "store_ok a st" "fresh_ids st" and w: "w < length (sv_workers st)" "sv_workers st ! w = Serving r"
    and rd: "serve_slice r (sv_chans st (client_fd r)) (sv_fs st) sp = (res, r1, c1, fs1, lines)" and fin: "res \<noteq> PREEMPTED"
  obtains d where "store_ok a (worker_serve sp now w r st)" "sv_done (worker_serve sp now w r st) = sv_done st @ [d]"
    "view (sv_fs (worker_serve sp now w r st)) = apply_updates (updates [d]) (view (sv_fs st))"
proof -
  define st' where "st' = worker_serve sp now w r st"
  define d where "d = \<lparr>fin_result = res, fin_request = r1\<lparr>finish_ns := now\<rparr>, fin_sent = sv_sent st (client_fd r), fin_wire = wire c1\<rparr>"
  obtain r2 fs2 where rel: "release_request r1 fs1 = (r2, fs2)" by (cases "release_request r1 fs1")
  have kp: "kept r r1" by (rule serve_slice_fields(1) [OF rd])
  then have r1: "rid r1 = rid r" "client_fd r1 = client_fd r" by (simp_all add: kept_def)
  have eqs: "sv_fs st' = fs2" "sv_chans st' = (sv_chans st)(client_fd r := c1)" "sv_open st' = (sv_open st)(client_fd r := False)"
    "sv_sent st' = sv_sent st" "sv_snaps st' = sv_snaps st" "sv_done st' = sv_done st @ [d]" "sv_admitting st' = sv_admitting st"
    using fin rel by (simp_all add: st'_def worker_serve_def rd finish_request_eq Let_def release_finish d_def r1)
  note mem = live_serve(1) [OF w rd] and live = live_serve(2) [OF w rd, of now, folded st'_def]
  have live': "mset (live st') = mset [] + (mset (live st) - {#r#})" using live fin by simp
  have ok: "conn_ok st" "names_ok st" "reqs_ok a st" "done_ok a st" using st(1) by (simp_all add: store_ok_def)
  have req: "req_ok a (sv_fs st) (sv_chans st (client_fd r)) (sv_sent st (client_fd r)) (sv_snaps st (rid r)) r" "disk_ok (sv_fs st)"
    using ok(2,3) mem by (simp_all add: reqs_ok_def names_ok_def)
  have dd: "fin_result d = res" "fin_request d = r1\<lparr>finish_ns := now\<rparr>" "fin_sent d = sv_sent st (client_fd r)" "fin_wire d = wire c1"
    by (simp_all add: d_def)
  from round_end [OF rd fin rel req dd] obtain i where rnd: "changes (sv_fs st) r i fs2" "apart (sv_fs st) r i"
    "fin_ok a (sv_snaps st (rid r)) d" "view fs2 = apply_updates (updates [d]) (view (sv_fs st))"
    "\<And>p. tmp_like p \<Longrightarrow> dir fs2 p \<noteq> None \<Longrightarrow> dir (sv_fs st) p \<noteq> None \<and> (p = tmp_name r \<longrightarrow> rop r \<noteq> OpPUT)" by blast
  have names: "names_ok st'"
  proof (rule names_ok_round [OF st mem rnd(1,2) live' eqs(1)])
    show "(\<exists>r' \<in> set []. p = tmp_name r' \<and> rop r' = OpPUT) \<or> dir (sv_fs st) p \<noteq> None \<and> (p = tmp_name r \<longrightarrow> rop r \<noteq> OpPUT)"
      if "tmp_like p" "dir fs2 p \<noteq> None" for p using rnd(5) [OF that] by blast
  qed simp
  have reqs: "reqs_ok a st'"
    unfolding reqs_ok_def
  proof
    fix y assume "y \<in> set (live st')"
    then have "y \<in># mset (live st) - {#r#}" using mset_set [OF live'] by auto
    from others_ok(3,5) [OF st mem this rnd(1,2)]
    show "req_ok a (sv_fs st') (sv_chans st' (client_fd y)) (sv_sent st' (client_fd y)) (sv_snaps st' (rid y)) y" by (simp add: eqs)
  qed
  have split: "mset (live st) = add_mset r (mset (live st) - {#r#})" using mem by simp
  have "add_mset (client_fd r) (mset (map client_fd (live st'))) = mset (map client_fd (live st))"
    using live' arg_cong [OF split, of "image_mset client_fd"] by simp
  then have m: "mset (client_fd r # conns st') = mset (conns st)" by (simp add: conns_def eqs flip: union_mset_add_mset_right)
  have "distinct (client_fd r # conns st')" "set (client_fd r # conns st') = set (conns st)"
    using ok(1) mset_eq_imp_distinct_iff [OF m] mset_eq_setD [OF m] by (simp_all add: conn_ok_def)
  then have dist: "distinct (conns st')" and "client_fd r \<notin> set (conns st')" and "set (conns st') \<subseteq> set (conns st)" by auto
  then have "fd \<noteq> client_fd r \<and> fd \<in> set (conns st)" if "fd \<in> set (conns st')" for fd using that by auto
  moreover have "fd \<noteq> client_fd r" if "fd \<in> set (sv_admitting st)" for fd
    using conn_ok_distinct(2) [OF ok(1) mem] that by auto
  ultimately have conn: "conn_ok st'"
    using ok(1) dist by (simp add: conn_ok_def eqs)
  have "done_ok a st'" using ok(4) rnd(3) r1 by (simp add: done_ok_def eqs dd)
  with names reqs conn rnd(4) show thesis by (intro that [of d]) (simp_all add: store_ok_def eqs flip: st'_def)
qed

end
