(* ===== verification/Server_Admission.thy ===== *)
theory Server_Admission
  imports Server_Store
begin

text \<open>
  Admission and the remaining steps keep the invariant of \<open>Server_Store\<close>: a connection that is
  refused leaves the files as they were, and an admitted request begins in its state.
\<close>

section \<open>Opening a file\<close>

text \<open>Everything but the descriptors and the numbers is as it was.\<close>

definition reopened :: "fsys \<Rightarrow> fsys \<Rightarrow> bool" where
  "reopened fs fs' \<longleftrightarrow> dir fs' = dir fs \<and> inode fs' = inode fs \<and> fs_ok fs' \<and> next_fd fs \<le> next_fd fs' \<and>
     (\<forall>fd < next_fd fs. fds fs' fd = fds fs fd)"

lemma reopened_refl: "fs_ok fs \<Longrightarrow> reopened fs fs"
  by (simp add: reopened_def)

lemma reopened_disk: "reopened fs fs' \<Longrightarrow> disk_ok fs \<Longrightarrow> disk_ok fs'"
  by (simp add: reopened_def disk_ok_def)

lemma open_refused:
  assumes "sys_open_read p fs = (fd, fs1)" and "fs_ok fs" and "fd < 0 \<or> fstat_reg fd fs1 = None"
  shows "reopened fs (if 0 \<le> fd then sys_close fd fs1 else fs1) \<and> fds (if 0 \<le> fd then sys_close fd fs1 else fs1) = fds fs"
proof -
  have n: "0 \<le> next_fd fs" "fds fs (next_fd fs) = None" using assms(2) by (simp_all add: fs_ok_def)
  consider "fd = -1" "fs1 = fs\<lparr>open_script := tl (open_script fs)\<rparr>"
    | "fd = next_fd fs" "fs1 = fs\<lparr>open_script := tl (open_script fs), next_fd := next_fd fs + 1\<rparr>"
    using assms(1,3) n by (auto simp: sys_open_read_def Let_def fstat_reg_def split: if_splits option.splits dirent.splits)
  then show ?thesis
  proof cases
    case 1
    with assms(2) show ?thesis by (simp add: reopened_def fs_ok_def)
  next
    case 2
    have "(fds fs)(next_fd fs := None) = fds fs" using n(2) by (simp add: fun_upd_idem)
    with 2 n assms(2) show ?thesis by (simp add: reopened_def fs_ok_def sys_close_def)
  qed
qed

lemma open_admitted:
  assumes "sys_open_read p fs = (fd, fs1)" and "fs_ok fs" and "fstat_reg fd fs1 = Some sz" and "0 \<le> fd"
  obtains j where "dir fs p = Some (Reg j)" "fd = next_fd fs" "sz = length (inode fs j)" "fds fs1 = (fds fs)(fd \<mapsto> j)"
    "reopened fs fs1" "next_fd fs1 = next_fd fs + 1"
proof -
  have n: "0 \<le> next_fd fs" "fds fs (next_fd fs) = None" using assms(2) by (simp_all add: fs_ok_def)
  obtain j where j: "dir fs p = Some (Reg j)" "fd = next_fd fs"
    "fs1 = fs\<lparr>open_script := tl (open_script fs), fds := (fds fs)(next_fd fs := Some j), next_fd := next_fd fs + 1\<rparr>"
    using assms(1,3,4) n by (auto simp: sys_open_read_def Let_def fstat_reg_def split: if_splits option.splits dirent.splits)
  have "j < next_ino fs" using assms(2) j(1) by (simp add: fs_ok_def)
  then have "fs_ok fs1" using assms(2) by (auto simp: j(3) fs_ok_def)
  with j assms(3) show thesis by (intro that [of j]) (auto simp: reopened_def fstat_reg_def)
qed

lemma req_ok_reopened:
  assumes "req_ok a fs c sent snap r" and "reopened fs fs'" and "file_fd r < next_fd fs"
    and "\<And>fd j. fds fs' fd = Some j \<Longrightarrow> fds fs fd = Some j \<or> (\<exists>p. \<not> tmp_like p \<and> dir fs p = Some (Reg j))"
  shows "req_ok a fs' c sent snap r"
proof -
  have same: "dir fs' = dir fs" "inode fs' = inode fs" "fds fs' (file_fd r) = fds fs (file_fd r)"
    using assms(2,3) by (simp_all add: reopened_def)
  have "get_state fs' r c data" if "get_state fs r c data" for data
    using that same get_state_frame [of fs r c data fs'] by simp
  moreover have "owns fs' r i" if own: "owns fs r i" for i
  proof -
    have only: "fd = file_fd r" if "fds fs' fd = Some i" for fd
      using assms(4) [OF that]
    proof
      assume "\<exists>p. \<not> tmp_like p \<and> dir fs p = Some (Reg i)"
      with own tmp_like_tmp_name show ?thesis unfolding owns_def by metis
    qed (use own in \<open>simp add: owns_def\<close>)
    from own only show ?thesis unfolding owns_def same by blast
  qed
  then have "put_local fs' r s c" if "put_local fs r s c" for s
    using that same by (auto simp: put_local_def split: if_splits)
  ultimately show ?thesis using assms(1) by (cases "rop r") (auto simp: req_ok_def)
qed

section \<open>The request that is built\<close>

definition built :: "args \<Rightarrow> nat \<Rightarrow> int \<Rightarrow> parsed_request_line \<Rightarrow> string \<Rightarrow> server \<Rightarrow> request" where
  "built a now fd p lo st = new_request\<lparr>rid := sv_next_id st, client_fd := fd, filename := req_filename p,
     path := a_file_dir a @ ''/'' @ req_filename p, leftover := lo, arrival_ns := now\<rparr>"

lemma build_request_cases:
  assumes "build_request a now fd p lo st = (ro, st1)" and "fs_ok (sv_fs st)"
  obtains (refused) fs1 msg where "ro = None" "reopened (sv_fs st) fs1" "fds fs1 = fds (sv_fs st)"
      "st1 = close_conn fd (send_on fd msg (st\<lparr>sv_next_id := u64_add (sv_next_id st) 1, sv_ids := sv_ids st + 1, sv_fs := fs1\<rparr>))"
  | (get) fs1 j where "req_type p = GET" "dir (sv_fs st) (a_file_dir a @ ''/'' @ req_filename p) = Some (Reg j)"
      "ro = Some ((built a now fd p lo st)\<lparr>rop := OpGET, file_fd := next_fd (sv_fs st),
         bytes := length (inode (sv_fs st) j) mod (u64_max + 1)\<rparr>)"
      "fds fs1 = (fds (sv_fs st))(next_fd (sv_fs st) \<mapsto> j)" "reopened (sv_fs st) fs1" "next_fd fs1 = next_fd (sv_fs st) + 1"
      "st1 = st\<lparr>sv_next_id := u64_add (sv_next_id st) 1, sv_ids := sv_ids st + 1, sv_fs := fs1\<rparr>"
  | (put) "req_type p \<noteq> GET" "ro = Some ((built a now fd p lo st)\<lparr>rop := OpPUT, bytes := req_byte_count p\<rparr>)"
      "st1 = st\<lparr>sv_next_id := u64_add (sv_next_id st) 1, sv_ids := sv_ids st + 1\<rparr>"
proof (cases "req_type p = GET")
  case True
  obtain ffd fs1 where op: "sys_open_read (a_file_dir a @ ''/'' @ req_filename p) (sv_fs st) = (ffd, fs1)"
    by (cases "sys_open_read (a_file_dir a @ ''/'' @ req_filename p) (sv_fs st)")
  show thesis
  proof (cases "if ffd < 0 then None else fstat_reg ffd fs1")
    case None
    then have "ffd < 0 \<or> fstat_reg ffd fs1 = None" by (simp split: if_splits)
    from open_refused [OF op assms(2) this] True None op assms(1) show thesis
      by (intro refused [of "if 0 \<le> ffd then sys_close ffd fs1 else fs1" "format_err ''file not found''"])
        (simp_all add: build_request_def Let_def send_err_and_close_def)
  next
    case (Some sz)
    then have sz: "fstat_reg ffd fs1 = Some sz" "0 \<le> ffd" by (simp_all split: if_splits)
    have eq: "ro = Some ((built a now fd p lo st)\<lparr>rop := OpGET, file_fd := ffd, bytes := sz mod (u64_max + 1)\<rparr>)"
      "st1 = st\<lparr>sv_next_id := u64_add (sv_next_id st) 1, sv_ids := sv_ids st + 1, sv_fs := fs1\<rparr>"
      using True op assms(1) sz by (simp_all add: build_request_def Let_def built_def)
    from open_admitted [OF op assms(2) sz] obtain j where j:
      "dir (sv_fs st) (a_file_dir a @ ''/'' @ req_filename p) = Some (Reg j)" "ffd = next_fd (sv_fs st)"
      "sz = length (inode (sv_fs st) j)" "fds fs1 = (fds (sv_fs st))(ffd \<mapsto> j)" "reopened (sv_fs st) fs1"
      "next_fd fs1 = next_fd (sv_fs st) + 1" by blast
    show thesis using True j eq by (intro get [of j fs1]) simp_all
  qed
qed (use assms(1) put in \<open>simp add: build_request_def Let_def built_def\<close>)

section \<open>The invariant after an admission\<close>

lemma reopened_view: "reopened fs fs' \<Longrightarrow> view fs' = view fs"
  by (intro ext) (simp add: view_def visible_def reopened_def split: option.split dirent.split)

lemma reqs_ok_reopened:
  assumes "store_ok a st" and "reopened (sv_fs st) fs'"
    and "\<And>fd j. fds fs' fd = Some j \<Longrightarrow> fds (sv_fs st) fd = Some j \<or> (\<exists>p. \<not> tmp_like p \<and> dir (sv_fs st) p = Some (Reg j))"
    and "r \<in> set (live st)"
  shows "req_ok a fs' (sv_chans st (client_fd r)) (sv_sent st (client_fd r)) (sv_snaps st (rid r)) r"
proof (rule req_ok_reopened [OF _ assms(2) _ assms(3)])
  show "req_ok a (sv_fs st) (sv_chans st (client_fd r)) (sv_sent st (client_fd r)) (sv_snaps st (rid r)) r"
    using assms(1,4) by (simp add: store_ok_def reqs_ok_def)
  show "file_fd r < next_fd (sv_fs st)" using assms(1,4) by (simp add: store_ok_def names_ok_def)
qed

lemma conn_ok_left:
  assumes "conn_ok st" and "fd \<in> set (sv_admitting st)" and "live st' = live st"
    and "sv_admitting st' = remove1 fd (sv_admitting st)" and "\<And>x. x \<noteq> fd \<Longrightarrow> sv_chans st' x = sv_chans st x"
    and "\<And>x. x \<noteq> fd \<Longrightarrow> sv_open st' x = sv_open st x" and "sv_sent st' = sv_sent st"
  shows "conn_ok st'"
proof -
  have c: "conns st' = remove1 fd (conns st)" using assms(2-4) by (simp add: conns_def remove1_append)
  have d: "distinct (conns st)" "distinct (sv_admitting st)" using assms(1) by (simp_all add: conn_ok_def conns_def)
  have "set (conns st') = set (conns st) - {fd}" "set (sv_admitting st') = set (sv_admitting st) - {fd}" "distinct (conns st')"
    using d assms(4) by (simp_all add: c)
  with assms(1,5-7) show ?thesis by (simp add: conn_ok_def)
qed

lemma store_ok_left:
  assumes st: "store_ok a st" and fd: "fd \<in> set (sv_admitting st)"
    and "live st' = live st" and "sv_admitting st' = remove1 fd (sv_admitting st)"
    and fs: "reopened (sv_fs st) (sv_fs st')" "fds (sv_fs st') = fds (sv_fs st)"
    and "\<And>x. x \<noteq> fd \<Longrightarrow> sv_chans st' x = sv_chans st x" and "\<And>x. x \<noteq> fd \<Longrightarrow> sv_open st' x = sv_open st x"
    and "sv_sent st' = sv_sent st" and "sv_snaps st' = sv_snaps st" and "sv_done st' = sv_done st"
  shows "store_ok a st'"
proof -
  have ok: "conn_ok st" "names_ok st" using st by (simp_all add: store_ok_def)
  have "conn_ok st'" using conn_ok_left [OF ok(1) fd] assms(3,4,7-9) by simp
  moreover have "names_ok st'"
  proof -
    have d: "dir (sv_fs st') = dir (sv_fs st)" "next_fd (sv_fs st) \<le> next_fd (sv_fs st')" using fs(1) by (simp_all add: reopened_def)
    then have "file_fd r < next_fd (sv_fs st')" if "r \<in> set (live st)" for r
      using ok(2) that by (auto simp: names_ok_def intro: less_le_trans)
    with ok(2) reopened_disk [OF fs(1)] show ?thesis unfolding names_ok_def d(1) assms(3) by blast
  qed
  moreover have "req_ok a (sv_fs st') (sv_chans st' (client_fd r)) (sv_sent st' (client_fd r)) (sv_snaps st' (rid r)) r"
    if "r \<in> set (live st)" for r
  proof -
    have "client_fd r \<noteq> fd" using conn_ok_distinct(2) [OF ok(1) that] fd by auto
    with reqs_ok_reopened [OF st fs(1) _ that] fs(2) assms(7,9,10) show ?thesis by simp
  qed
  ultimately show ?thesis using st assms(3,10,11) by (simp add: store_ok_def reqs_ok_def done_ok_def)
qed

lemma store_ok_new:
  assumes st: "store_ok a st" "fresh_ids st" and fd: "fd \<in> set (sv_admitting st)"
    and live: "mset (live st') = add_mset r (mset (live st))" and "sv_admitting st' = remove1 fd (sv_admitting st)"
    and new: "client_fd r = fd" "rid r = sv_next_id st" "file_fd r < next_fd (sv_fs st')" "0 \<le> file_fd r \<Longrightarrow> next_fd (sv_fs st) \<le> file_fd r"
      "req_ok a (sv_fs st') (sv_chans st' fd) (sv_sent st' fd) (sv_snaps st' (rid r)) r"
    and fs: "reopened (sv_fs st) (sv_fs st')"
      "\<And>fd j. fds (sv_fs st') fd = Some j \<Longrightarrow> fds (sv_fs st) fd = Some j \<or> (\<exists>p. \<not> tmp_like p \<and> dir (sv_fs st) p = Some (Reg j))"
    and "\<And>x. x \<noteq> fd \<Longrightarrow> sv_chans st' x = sv_chans st x" and "sv_open st' = sv_open st"
    and "sv_sent st' = sv_sent st" and "\<And>i. i \<noteq> rid r \<Longrightarrow> sv_snaps st' i = sv_snaps st i" and "sv_done st' = sv_done st"
  shows "store_ok a st'"
proof -
  have ok: "conn_ok st" "names_ok st" using st by (simp_all add: store_ok_def)
  have mem: "set (live st') = insert r (set (live st))" using mset_set [OF live] by simp
  have ids: "rid y \<noteq> rid r" if "y \<in> set (live st)" for y using st(2) that new(2) by (auto simp: fresh_ids_def)
  have m: "mset (conns st') = mset (conns st)"
    using live new(1) assms(5) fd by (simp add: conns_def)
  have "set (sv_admitting st') = set (sv_admitting st) - {fd}"
    using ok(1) assms(5) by (simp add: conn_ok_def conns_def)
  then have "conn_ok st'"
    using ok(1) assms(13-15) mset_eq_imp_distinct_iff [OF m] mset_eq_setD [OF m] by (simp add: conn_ok_def)
  moreover have "names_ok st'"
    unfolding names_ok_def mem
  proof (intro conjI ballI allI impI)
    show "disk_ok (sv_fs st')" using ok(2) reopened_disk [OF fs(1)] by (simp add: names_ok_def)
    show "\<exists>y \<in> insert r (set (live st)). p = tmp_name y \<and> rop y = OpPUT" if "tmp_like p \<and> dir (sv_fs st') p \<noteq> None" for p
      using ok(2) that fs(1) by (auto simp: names_ok_def reopened_def)
    have old: "file_fd y < next_fd (sv_fs st)" if "y \<in> set (live st)" for y using ok(2) that by (simp add: names_ok_def)
    show "file_fd y < next_fd (sv_fs st')" if "y \<in> insert r (set (live st))" for y
      using that new(3) old fs(1) by (fastforce simp: reopened_def)
    show "rid y = rid z" if yz: "y \<in> insert r (set (live st))" "z \<in> insert r (set (live st))" and that: "0 \<le> file_fd y \<and> file_fd y = file_fd z" for y z
    proof -
      consider "y = r" "z = r" | "y \<in> set (live st)" "z \<in> set (live st)" | "y = r" "z \<in> set (live st)" | "y \<in> set (live st)" "z = r"
        using yz by blast
      then show ?thesis
      proof cases
        case 2 with ok(2) that show ?thesis unfolding names_ok_def by blast
      next
        case 3 with old [of z] new(4) that show ?thesis by auto
      next
        case 4 with old [of y] new(4) that show ?thesis by auto
      qed simp
    qed
  qed
  moreover have "req_ok a (sv_fs st') (sv_chans st' (client_fd y)) (sv_sent st' (client_fd y)) (sv_snaps st' (rid y)) y"
    if "y \<in> set (live st)" for y
  proof -
    have "client_fd y \<noteq> fd" using conn_ok_distinct(2) [OF ok(1) that] fd by auto
    with reqs_ok_reopened [OF st(1) fs that] assms(13,15,16) ids [OF that] show ?thesis by simp
  qed
  moreover have "done_ok a st'"
    using st assms(16,17) new(2) by (auto simp: store_ok_def done_ok_def fresh_ids_def)
  ultimately show ?thesis using new(1,5) by (simp add: store_ok_def reqs_ok_def mem)
qed

text \<open>A new request is in its first state.\<close>

lemma built_fields [simp]:
  "rid (built a now fd p lo st) = sv_next_id st" "client_fd (built a now fd p lo st) = fd"
  "filename (built a now fd p lo st) = req_filename p" "path (built a now fd p lo st) = a_file_dir a @ ''/'' @ req_filename p"
  "leftover (built a now fd p lo st) = lo" "file_fd (built a now fd p lo st) = -1" "started (built a now fd p lo st) = False"
  "byte_offset (built a now fd p lo st) = 0" "tmp_path (built a now fd p lo st) = []" "rounds (built a now fd p lo st) = 0"
  "deficit (built a now fd p lo st) = 0" "forfeited_bytes (built a now fd p lo st) = 0"
  by (simp_all add: built_def new_request_def)

lemma new_get_ok:
  assumes l: "sent = l @ NL # lo @ incoming c" "NL \<notin> set l" "p = parse_request_line l" "req_type p = GET" and w: "wire c = []"
    and fs: "disk_ok fs" "0 \<le> next_fd fs" "dir fs (a_file_dir a @ ''/'' @ req_filename p) = Some (Reg j)"
    and fs1: "fds fs1 = (fds fs)(next_fd fs \<mapsto> j)" "reopened fs fs1"
    and r: "r = (built a now fd p lo st)\<lparr>rop := OpGET, file_fd := next_fd fs, bytes := length (inode fs j) mod (u64_max + 1)\<rparr>"
    and clean: "\<not> tmp_like (path r)"
  shows "req_ok a fs1 c sent (Some (path r, take (bytes r) (fd_contents (file_fd r) fs1))) r"
    and "take (bytes r) (fd_contents (file_fd r) fs1) = inode fs j" and "view fs (path r) = Some (inode fs j)"
proof -
  have len: "length (inode fs j) \<le> u64_max" using fs(1,3) by (simp add: disk_ok_def)
  then have b: "bytes r = length (inode fs j)" by (simp add: r)
  have c: "fd_contents (file_fd r) fs1 = inode fs j" using fs1 by (simp add: fd_contents_def r reopened_def)
  then show t: "take (bytes r) (fd_contents (file_fd r) fs1) = inode fs j" by (simp add: b)
  have "file_view fs1 r (inode fs j)" using fs1 b by (auto simp: file_view_def r reopened_def)
  then have "admitted_get fs1 r (inode fs j)" by (simp add: admitted_get_def r)
  then have "get_state fs1 r c (inode fs j)" using w by (rule admitted_get_state)
  moreover have "request_of a sent r (lo @ incoming c)" unfolding request_of_def using l by (auto simp: r Let_def)
  ultimately show "req_ok a fs1 c sent (Some (path r, take (bytes r) (fd_contents (file_fd r) fs1))) r"
    unfolding req_ok_def t using clean b len fs(2) by (auto simp: r)
  show "view fs (path r) = Some (inode fs j)" using clean fs(3) by (simp add: view_def visible_def r)
qed

lemma new_put_ok:
  assumes l: "sent = l @ NL # lo @ incoming c" "NL \<notin> set l" "p = parse_request_line l" "req_type p = PUT" and w: "wire c = []"
    and r: "r = (built a now fd p lo st)\<lparr>rop := OpPUT, bytes := req_byte_count p\<rparr>"
    and clean: "\<not> tmp_like (path r)" "req_byte_count p \<le> kMaxPutBytes" and d: "dir fs (tmp_name r) = None"
  shows "req_ok a fs c sent snap r"
proof -
  have "kMaxPutBytes \<le> u64_max" by (simp add: kMaxPutBytes_def u64_max_def)
  moreover have "request_of a sent r (lo @ incoming c)" unfolding request_of_def using l by (auto simp: r Let_def)
  ultimately show ?thesis
    unfolding req_ok_def using clean d w by (auto simp: r put_local_def stream_def)
qed

lemma store_ok_admit:
  assumes st: "store_ok a st" "fresh_ids st" and fd: "fd \<in> set (sv_admitting st)"
    and clean: "\<And>r. r \<in> set (sv_pending (admission_start a now fd st)) \<Longrightarrow> \<not> tmp_like (path r)"
  shows "store_ok a (admission_start a now fd st) \<and>
    view (sv_fs (admission_start a now fd st)) = view (sv_fs st) \<and> sv_done (admission_start a now fd st) = sv_done st \<and>
    (sv_snaps (admission_start a now fd st) = sv_snaps st \<or>
     (\<exists>i p x. sv_snaps (admission_start a now fd st) = (sv_snaps st)(i \<mapsto> (p, x)) \<and> view (sv_fs st) p = Some x))"
proof -
  define st0 where "st0 = st\<lparr>sv_admitting := remove1 fd (sv_admitting st)\<rparr>"
  define st' where "st' = admission_start a now fd st"
  obtain ro st1 where adm: "admit_request a now fd st0 = (ro, st1)" by (cases "admit_request a now fd st0")
  then have st': "st' = (case ro of None \<Rightarrow> guard_exit st1
      | Some r \<Rightarrow> note_admitted r (st1\<lparr>sv_pending := sv_pending st1 @ [r]\<rparr>))"
    by (simp add: st'_def admission_start_def st0_def)
  have ok: "conn_ok st" "names_ok st" using st(1) by (simp_all add: store_ok_def)
  then have disk: "disk_ok (sv_fs st)" "fs_ok (sv_fs st)" "0 \<le> next_fd (sv_fs st)" by (simp_all add: names_ok_def disk_ok_def fs_ok_def)
  have chan: "wire (sv_chans st fd) = []" "incoming (sv_chans st fd) = sv_sent st fd" using ok(1) fd by (simp_all add: conn_ok_def)
  have goal: "store_ok a st' \<and> view (sv_fs st') = view (sv_fs st) \<and> sv_done st' = sv_done st \<and>
    (sv_snaps st' = sv_snaps st \<or> (\<exists>i p x. sv_snaps st' = (sv_snaps st)(i \<mapsto> (p, x)) \<and> view (sv_fs st) p = Some x))"
    using adm
  proof (cases rule: admit_request_cases)
    case (1 hdr c1 msg)
    then have eq: "st' = guard_exit st1" by (simp add: st')
    have "store_ok a st'"
      by (rule store_ok_left [OF st(1) fd]) (simp_all add: eq 1 st0_def step_defs live_def reopened_refl [OF disk(2)])
    then show ?thesis by (simp add: eq 1 st0_def step_defs)
  next
    case (2 hdr c1 p)
    define stc where "stc = st0\<lparr>sv_chans := (sv_chans st0)(fd := c1)\<rparr>"
    have bld: "build_request a now fd p (hdr_leftover hdr) stc = (ro, st1)" using 2(7) by (simp add: stc_def)
    have stc: "sv_fs stc = sv_fs st" "sv_next_id stc = sv_next_id st" by (simp_all add: stc_def st0_def)
    have rd: "read_header_line kHeaderTimeoutMs (sv_chans st fd) = (hdr, c1)" using 2(1) by (simp add: st0_def)
    note h = read_header_line_sound [OF rd 2(2)]
    have sent: "sv_sent st fd = hdr_line hdr @ NL # hdr_leftover hdr @ incoming c1" and w: "wire c1 = []"
      using h(1,5) chan by simp_all
    from bld disk(2) [folded stc(1)] show ?thesis
    proof (cases rule: build_request_cases)
      case (refused fs1 msg)
      then have eq: "st' = guard_exit st1" by (simp add: st')
      have "store_ok a st'"
        by (rule store_ok_left [OF st(1) fd])
          (use refused in \<open>simp_all add: eq stc_def st0_def step_defs live_def\<close>)
      moreover have "view fs1 = view (sv_fs st)" using reopened_view [OF refused(2)] stc by simp
      ultimately show ?thesis using refused by (simp add: eq stc_def st0_def step_defs)
    next
      case (get fs1 j)
      define r where "r = (built a now fd p (hdr_leftover hdr) stc)\<lparr>rop := OpGET, file_fd := next_fd (sv_fs st),
          bytes := length (inode (sv_fs st) j) mod (u64_max + 1)\<rparr>"
      have ro: "ro = Some r" using get(3) by (simp add: r_def stc)
      then have eq: "st' = note_admitted r (st1\<lparr>sv_pending := sv_pending st1 @ [r]\<rparr>)" by (simp add: st')
      have r: "rop r = OpGET" "client_fd r = fd" "rid r = sv_next_id st" "file_fd r = next_fd (sv_fs st)" by (simp_all add: r_def stc)
      have eqs: "sv_fs st' = fs1" "sv_pending st' = sv_pending st @ [r]" "sv_queue st' = sv_queue st" "sv_workers st' = sv_workers st"
        "sv_admitting st' = remove1 fd (sv_admitting st)" "sv_chans st' = (sv_chans st)(fd := c1)" "sv_open st' = sv_open st"
        "sv_sent st' = sv_sent st" "sv_done st' = sv_done st"
        "sv_snaps st' = (sv_snaps st)(rid r \<mapsto> (path r, take (bytes r) (fd_contents (file_fd r) fs1)))"
        using r(1) get by (simp_all add: eq note_admitted_def stc_def st0_def)
      have nt: "\<not> tmp_like (path r)" using clean [folded st'_def, of r] eqs(2) by simp
      note new = new_get_ok [OF sent h(2) 2(3) get(1) w disk(1,3) get(2) [unfolded stc] get(4,5) [unfolded stc] r_def nt]
      have "store_ok a st'"
      proof (rule store_ok_new [OF st fd])
        show "mset (live st') = add_mset r (mset (live st))" by (simp add: live_def eqs)
        show "req_ok a (sv_fs st') (sv_chans st' fd) (sv_sent st' fd) (sv_snaps st' (rid r)) r" using new(1) by (simp add: eqs)
        show "reopened (sv_fs st) (sv_fs st')" using get(5) by (simp add: eqs stc)
        show "file_fd r < next_fd (sv_fs st')" using get(6) by (simp add: eqs r stc)
        show "fds (sv_fs st) x = Some k \<or> (\<exists>p. \<not> tmp_like p \<and> dir (sv_fs st) p = Some (Reg k))"
          if "fds (sv_fs st') x = Some k" for x k
          using that get(2,4) nt by (auto simp: eqs stc r_def split: if_splits)
      qed (simp_all add: eqs r)
      moreover have "view fs1 = view (sv_fs st)" using reopened_view [OF get(5)] stc by simp
      ultimately show ?thesis using new(2,3) by (auto simp: eqs)
    next
      case put
      define r where "r = (built a now fd p (hdr_leftover hdr) stc)\<lparr>rop := OpPUT, bytes := req_byte_count p\<rparr>"
      have ro: "ro = Some r" using put(2) by (simp add: r_def)
      then have eq: "st' = note_admitted r (st1\<lparr>sv_pending := sv_pending st1 @ [r]\<rparr>)" by (simp add: st')
      have r: "rop r = OpPUT" "client_fd r = fd" "rid r = sv_next_id st" "file_fd r = -1" by (simp_all add: r_def stc)
      have eqs: "sv_fs st' = sv_fs st" "sv_pending st' = sv_pending st @ [r]" "sv_queue st' = sv_queue st" "sv_workers st' = sv_workers st"
        "sv_admitting st' = remove1 fd (sv_admitting st)" "sv_chans st' = (sv_chans st)(fd := c1)" "sv_open st' = sv_open st"
        "sv_sent st' = sv_sent st" "sv_done st' = sv_done st" "sv_snaps st' = sv_snaps st"
        using r(1) put by (simp_all add: eq note_admitted_def stc_def st0_def)
      have nt: "\<not> tmp_like (path r)" using clean [folded st'_def, of r] eqs(2) by simp
      have "dir (sv_fs st) (tmp_name r) = None"
      proof (rule ccontr)
        assume "dir (sv_fs st) (tmp_name r) \<noteq> None"
        with ok(2) obtain y where "y \<in> set (live st)" "tmp_name r = tmp_name y"
          unfolding names_ok_def using tmp_like_tmp_name by metis
        with tmp_name_inj [of r y] st(2) r(3) show False by (auto simp: fresh_ids_def)
      qed
      moreover have "req_type p = PUT" "req_byte_count p \<le> kMaxPutBytes" using 2(4,6) put(1) by auto
      ultimately have new: "req_ok a (sv_fs st) c1 (sv_sent st fd) (sv_snaps st (rid r)) r"
        using new_put_ok [OF sent h(2) 2(3) _ w r_def nt] by blast
      have "store_ok a st'"
      proof (rule store_ok_new [OF st fd])
        show "mset (live st') = add_mset r (mset (live st))" by (simp add: live_def eqs)
        show "req_ok a (sv_fs st') (sv_chans st' fd) (sv_sent st' fd) (sv_snaps st' (rid r)) r" using new by (simp add: eqs)
      qed (use disk(3) in \<open>simp_all add: eqs r reopened_refl [OF disk(2)]\<close>)
      then show ?thesis by (simp add: eqs)
    qed
  qed
  then show ?thesis by (simp add: st'_def)
qed

end
