(* ===== verification/Server_Refine.thy ===== *)
theory Server_Refine
  imports Server_Admission Single_Run
begin

text \<open>
  The server as a file store. Every step keeps the invariant of \<open>Server_Store\<close>; so the server
  implements, step by step, an atomic store in which an upload replaces a whole file at once and a
  download reads one version of it, whatever rounds and failures lie in between.
\<close>

section \<open>The remaining steps\<close>

lemma store_ok_accept:
  assumes st: "store_ok a st" and new: "\<not> sv_open st fd" and w: "wire c = []"
  shows "store_ok a (acceptor_turn fd c thr st)" and "sv_fs (acceptor_turn fd c thr st) = sv_fs st"
    "sv_done (acceptor_turn fd c thr st) = sv_done st" "sv_snaps (acceptor_turn fd c thr st) = sv_snaps st"
proof -
  define st' where "st' = acceptor_turn fd c thr st"
  have ok: "conn_ok st" "names_ok st" "reqs_ok a st" "done_ok a st" using st by (simp_all add: store_ok_def)
  have out: "fd \<notin> set (conns st)" using ok(1) new by (auto simp: conn_ok_def)
  have eqs: "sv_fs st' = sv_fs st" "live st' = live st" "sv_snaps st' = sv_snaps st" "sv_done st' = sv_done st"
    "sv_admitting st' = (if thr then sv_admitting st @ [fd] else sv_admitting st)"
    "\<And>x. x \<noteq> fd \<Longrightarrow> sv_chans st' x = sv_chans st x" "\<And>x. x \<noteq> fd \<Longrightarrow> sv_open st' x = sv_open st x"
    "\<And>x. x \<noteq> fd \<Longrightarrow> sv_sent st' x = sv_sent st x" "thr \<Longrightarrow> sv_chans st' fd = c" "thr \<Longrightarrow> sv_open st' fd"
    "thr \<Longrightarrow> sv_sent st' fd = incoming c"
    by (simp_all add: st'_def step_defs Let_def live_def)
  have "conn_ok st'"
  proof (cases thr)
    case True
    have "mset (conns st') = mset (fd # conns st)" using True by (simp add: conns_def eqs)
    from mset_eq_imp_distinct_iff [OF this] mset_eq_setD [OF this] ok(1) out
    have "distinct (conns st')" "set (conns st') = insert fd (set (conns st))" by (simp_all add: conn_ok_def)
    moreover have "x \<noteq> fd" if "x \<in> set (conns st)" for x using out that by auto
    moreover have "set (sv_admitting st) \<subseteq> set (conns st)" by (simp add: conns_def)
    ultimately show ?thesis using ok(1) True eqs w by (auto simp: conn_ok_def)
  next
    case False
    then have "conns st' = conns st" by (simp add: conns_def eqs)
    moreover have "x \<noteq> fd" if "x \<in> set (conns st)" for x using out that by auto
    moreover have "set (sv_admitting st) \<subseteq> set (conns st)" by (simp add: conns_def)
    ultimately show ?thesis using ok(1) False eqs by (auto simp: conn_ok_def)
  qed
  moreover have "reqs_ok a st'"
    unfolding reqs_ok_def eqs(1-3)
  proof
    fix r assume r: "r \<in> set (live st)"
    then have "client_fd r \<noteq> fd" using out by (auto simp: conns_def)
    with ok(3) r show "req_ok a (sv_fs st) (sv_chans st' (client_fd r)) (sv_sent st' (client_fd r)) (sv_snaps st (rid r)) r"
      by (simp add: eqs reqs_ok_def)
  qed
  moreover have "names_ok st'" using ok(2) unfolding names_ok_def eqs(1,2) .
  moreover have "done_ok a st'" using ok(4) by (simp only: done_ok_def eqs(3,4))
  ultimately show "store_ok a (acceptor_turn fd c thr st)" by (simp add: store_ok_def flip: st'_def)
  show "sv_fs (acceptor_turn fd c thr st) = sv_fs st" "sv_done (acceptor_turn fd c thr st) = sv_done st"
    "sv_snaps (acceptor_turn fd c thr st) = sv_snaps st" using eqs by (simp_all add: st'_def)
qed

lemma store_ok_enqueue:
  assumes "store_ok a st" and "r \<in> set (sv_pending st)"
  shows "store_ok a (admission_enqueue r st)"
proof -
  note m = live_enqueue [OF assms(2)]
  have "set (live (admission_enqueue r st)) = set (live st)" using m by (rule mset_eq_setD)
  with m show ?thesis
    by (intro store_ok_relabel [OF assms(1), of _ 0]) (auto simp: step_defs)
qed

lemma store_ok_next:
  assumes st: "store_ok a st" and w: "w < length (sv_workers st)" "sv_workers st ! w = Idle" "worker_next p now w st = Some st'"
  shows "store_ok a st'" and "sv_fs st' = sv_fs st" "sv_done st' = sv_done st" "sv_snaps st' = sv_snaps st"
proof -
  have same: "sv_fs st' = sv_fs st" "sv_chans st' = sv_chans st" "sv_open st' = sv_open st" "sv_sent st' = sv_sent st"
      "sv_snaps st' = sv_snaps st" "sv_done st' = sv_done st" "sv_admitting st' = sv_admitting st"
    using w(3) by (auto simp: worker_next_def split: popped.splits)
  then show "sv_fs st' = sv_fs st" "sv_done st' = sv_done st" "sv_snaps st' = sv_snaps st" by simp_all
  show "store_ok a st'"
  proof (rule store_ok_relabel [OF st _ _ _ same])
    show "\<exists>r0 \<in> set (live st). r = r0 \<or> r = stamp_start now r0" if "r \<in> set (live st')" for r
      using live_next_mem [OF w that] .
    from live_next [OF w] have "mset (map client_fd (live st')) = mset (map client_fd (live st)) \<and>
      (\<forall>r0 \<in> set (live st). \<exists>r \<in> set (live st'). r = r0 \<or> r = stamp_start now r0)"
    proof (elim disjE exE conjE)
      assume "mset (live st') = mset (live st)"
      then show ?thesis using mset_eq_setD by fastforce
    next
      fix r assume r: "r \<in> set (live st)" and m: "mset (live st') = add_mset (stamp_start now r) (mset (live st) - {#r#})"
      have split: "mset (live st) = add_mset r (mset (live st) - {#r#})" using r by simp
      have "mset (map client_fd (live st')) = mset (map client_fd (live st))"
        using m arg_cong [OF split, of "image_mset client_fd"] by simp
      moreover have "r0 = r \<or> r0 \<in> set (live st')" if "r0 \<in> set (live st)" for r0
      proof (cases "r0 = r")
        case False
        with that have "r0 \<in># mset (live st) - {#r#}" by (simp add: in_diff_count)
        with mset_set [OF m] show ?thesis by simp
      qed simp
      moreover have "stamp_start now r \<in> set (live st')" using mset_set [OF m] by simp
      ultimately show ?thesis by blast
    qed
    then show "mset (map client_fd (live st')) = mset (map client_fd (live st))"
      "\<And>r0. r0 \<in> set (live st) \<Longrightarrow> \<exists>r \<in> set (live st'). r = r0 \<or> r = stamp_start now r0" by blast+
  qed
qed

lemma store_ok_phase:
  assumes "store_ok a st" and "live st' = live st" and "sv_fs st' = sv_fs st" "sv_chans st' = sv_chans st" "sv_open st' = sv_open st"
    "sv_sent st' = sv_sent st" "sv_snaps st' = sv_snaps st" "sv_done st' = sv_done st" "sv_admitting st' = sv_admitting st"
  shows "store_ok a st'"
  by (rule store_ok_relabel [OF assms(1) _ _ _ assms(3-)]) (auto simp: assms(2))

section \<open>The steps considered\<close>

definition clean_start :: "fsys \<Rightarrow> nat \<Rightarrow> server \<Rightarrow> bool" where
  "clean_start fs n st \<longleftrightarrow> st = server_init fs n \<and> disk_ok fs \<and> (\<forall>p. tmp_like p \<longrightarrow> dir fs p = None)"

definition clean_step :: "args \<Rightarrow> server \<Rightarrow> server \<Rightarrow> bool" where
  "clean_step a st st' \<longleftrightarrow> server_step a st st' \<and> no_wrap st \<and> (\<forall>r \<in> set (sv_pending st'). \<not> tmp_like (path r))"

lemma clean_books:
  assumes "reach (clean_start fs n) (clean_step a) st"
  shows "books n st"
proof -
  from assms have "reach (server_start fs n) (server_step a) st"
    by induction (auto simp: clean_start_def clean_step_def server_start_def intro: reach.intros)
  then show ?thesis by (rule bk.inv_reach)
qed

lemma store_ok_init: "clean_start fs n st \<Longrightarrow> store_ok a st"
  by (auto simp: clean_start_def store_ok_def conn_ok_def conns_def names_ok_def reqs_ok_def done_ok_def server_init_def
      live_def empty_queue_def in_service_def concat_replicate_trivial)

text \<open>What one step does to the files, the finished requests and the versions the downloads read.\<close>

definition step_effect :: "server \<Rightarrow> server \<Rightarrow> bool" where
  "step_effect st st' \<longleftrightarrow>
     sv_done st' = sv_done st \<and> view (sv_fs st') = view (sv_fs st) \<and>
       (sv_snaps st' = sv_snaps st \<or>
        (\<exists>i p x. sv_snaps st' = (sv_snaps st)(i \<mapsto> (p, x)) \<and> view (sv_fs st) p = Some x)) \<or>
     (\<exists>d. sv_done st' = sv_done st @ [d] \<and> view (sv_fs st') = apply_updates (updates [d]) (view (sv_fs st)) \<and>
       sv_snaps st' = sv_snaps st)"

lemma step_effect_same:
  "sv_done st' = sv_done st \<Longrightarrow> sv_fs st' = sv_fs st \<Longrightarrow> sv_snaps st' = sv_snaps st \<Longrightarrow> step_effect st st'"
  by (simp add: step_effect_def)

lemma clean_step_ok:
  assumes "server_step a st st'" and "no_wrap st" and "\<forall>r \<in> set (sv_pending st'). \<not> tmp_like (path r)"
    and "books n st" and ok: "store_ok a st"
  shows "store_ok a st' \<and> step_effect st st'"
proof -
  have fresh: "fresh_ids st" using assms(4,2) by (rule books_fresh_ids)
  from assms(1) show ?thesis
  proof (cases rule: server_step.cases)
    case (step_accept fd c thr)
    with store_ok_accept [OF ok step_accept(3,4)] show ?thesis by (simp add: step_effect_same)
  next
    case (step_admit fd now)
    have "\<not> tmp_like (path r)" if "r \<in> set (sv_pending (admission_start a now fd st))" for r
      using assms(3) that by (simp add: step_admit(1))
    from store_ok_admit [OF ok fresh step_admit(2) this] show ?thesis by (auto simp: step_admit(1) step_effect_def)
  next
    case (step_enqueue r)
    with store_ok_enqueue [OF ok step_enqueue(2)] show ?thesis
      by (auto intro!: step_effect_same simp: step_defs)
  next
    case (step_next w now)
    from store_ok_next [OF ok step_next] show ?thesis by (simp add: step_effect_same)
  next
    case (step_serve w r now)
    let ?sp = "slice_params_of a"
    obtain res r1 c1 fs1 lines where rd: "serve_slice r (sv_chans st (client_fd r)) (sv_fs st) ?sp = (res, r1, c1, fs1, lines)"
      by (rule prod_cases5)
    have snaps: "sv_snaps st' = sv_snaps st"
      by (simp add: step_serve(1) worker_serve_def rd step_defs finish_request_eq Let_def)
    show ?thesis
    proof (cases "res = PREEMPTED")
      case True
      have "sv_done st' = sv_done st" using True by (simp add: step_serve(1) worker_serve_def rd step_defs)
      with store_ok_preempted [OF ok fresh step_serve(2,3) rd [unfolded True], of now] snaps show ?thesis
        by (simp add: step_serve(1) step_effect_def)
    next
      case False
      from store_ok_finished [OF ok fresh step_serve(2,3) rd False, of now] snaps show ?thesis
        unfolding step_serve(1) step_effect_def by metis
    qed
  next
    case step_stop
    then show ?thesis by (auto intro!: step_effect_same store_ok_phase [OF ok] simp: step_defs live_def)
  next
    case step_drain
    then show ?thesis by (auto intro!: step_effect_same store_ok_phase [OF ok] simp: step_defs live_def)
  next
    case (step_end k)
    then show ?thesis by (auto intro!: step_effect_same store_ok_phase [OF ok] simp: step_defs live_def)
  qed
qed

interpretation sto: invariance "clean_start fs n" "clean_step a" "store_ok a" for fs n a
proof
  show "store_ok a s" if "clean_start fs n s" for s using that by (rule store_ok_init)
  show "store_ok a s'" if "reach (clean_start fs n) (clean_step a) s" "store_ok a s" "clean_step a s s'" for s s'
    using clean_step_ok [OF _ _ _ clean_books [OF that(1)] that(2)] that(3) by (simp add: clean_step_def)
qed

section \<open>The atomic store\<close>

record store =
  st_files :: "string \<Rightarrow> string option"
  st_log :: "(string \<times> string) list"
  st_read :: "nat \<Rightarrow> (string \<times> string) option"

text \<open>A whole file is replaced in one step, or a client is given the present version of a file.\<close>

inductive store_step :: "store \<Rightarrow> store \<Rightarrow> bool" where
  store_write: "store_step s (s\<lparr>st_files := (st_files s)(p \<mapsto> x), st_log := st_log s @ [(p, x)]\<rparr>)"
| store_read: "st_files s p = Some x \<Longrightarrow> store_step s (s\<lparr>st_read := (st_read s)(i \<mapsto> (p, x))\<rparr>)"

inductive_cases store_stepE: "store_step s s'"

definition store_init :: "(string \<Rightarrow> string option) \<Rightarrow> store \<Rightarrow> bool" where
  "store_init m s \<longleftrightarrow> s = \<lparr>st_files = m, st_log = [], st_read = (\<lambda>_. None)\<rparr>"

definition abs_store :: "server \<Rightarrow> store" where
  "abs_store st = \<lparr>st_files = view (sv_fs st), st_log = updates (sv_done st), st_read = sv_snaps st\<rparr>"

lemma step_effect_store:
  assumes "step_effect st st'"
  shows "abs_store st' = abs_store st \<or> store_step (abs_store st) (abs_store st')"
  using assms unfolding step_effect_def
proof (elim disjE exE conjE)
  fix i p x assume e: "sv_done st' = sv_done st" "view (sv_fs st') = view (sv_fs st)"
    "sv_snaps st' = (sv_snaps st)(i \<mapsto> (p, x))" "view (sv_fs st) p = Some x"
  then have "abs_store st' = (abs_store st)\<lparr>st_read := (st_read (abs_store st))(i \<mapsto> (p, x))\<rparr>"
    by (simp add: abs_store_def)
  with store_read [of "abs_store st" p x i] e show ?thesis by (simp add: abs_store_def)
next
  fix d assume e: "sv_done st' = sv_done st @ [d]" "view (sv_fs st') = apply_updates (updates [d]) (view (sv_fs st))"
    "sv_snaps st' = sv_snaps st"
  show ?thesis
  proof (cases "installs d")
    case True
    obtain p x where u: "update_of d = (p, x)" by (cases "update_of d")
    have "updates [d] = [] @ [(p, x)]" using True u by (simp add: updates_def)
    then have "view (sv_fs st') = (view (sv_fs st))(p \<mapsto> x)" using e(2) by (simp only: apply_updates_simps)
    then have "abs_store st' = (abs_store st)\<lparr>st_files := (st_files (abs_store st))(p \<mapsto> x), st_log := st_log (abs_store st) @ [(p, x)]\<rparr>"
      using True e u by (simp add: abs_store_def updates_snoc)
    with store_write [of "abs_store st" p x] show ?thesis by simp
  next
    case False
    then have "updates [d] = []" by (simp add: updates_def)
    with False e have "abs_store st' = abs_store st" by (simp add: abs_store_def updates_snoc)
    then show ?thesis ..
  qed
qed (simp add: abs_store_def)

lemma view_start: "clean_start fs n st \<Longrightarrow> view fs = visible fs"
  by (auto simp: clean_start_def view_def visible_def fun_eq_iff)

interpretation ref: simulation "clean_start fs n" "clean_step a" "store_init (view fs)" store_step abs_store for fs n a
proof
  show "store_init (view fs) (abs_store s)" if "clean_start fs n s" for s
    using that by (simp add: clean_start_def store_init_def abs_store_def server_init_def updates_def)
  show "abs_store s' = abs_store s \<or> store_step (abs_store s) (abs_store s')"
    if "reach (clean_start fs n) (clean_step a) s" "clean_step a s s'" for s s'
    using clean_step_ok [OF _ _ _ clean_books [OF that(1)] sto.inv_reach [OF that(1)]] that(2)
    by (intro step_effect_store) (simp add: clean_step_def)
qed

text \<open>In the store, every version that was read is the outcome of a prefix of the writes.\<close>

definition versions :: "(string \<Rightarrow> string option) \<Rightarrow> store \<Rightarrow> bool" where
  "versions m s \<longleftrightarrow> st_files s = apply_updates (st_log s) m \<and>
     (\<forall>i p x. st_read s i = Some (p, x) \<longrightarrow> (\<exists>k \<le> length (st_log s). apply_updates (take k (st_log s)) m p = Some x))"

lemma versions_step: "store_step s s' \<Longrightarrow> versions m s \<Longrightarrow> versions m s'"
proof (elim store_stepE)
  fix p x assume v: "versions m s" and s': "s' = s\<lparr>st_files := (st_files s)(p \<mapsto> x), st_log := st_log s @ [(p, x)]\<rparr>"
  have "\<exists>k \<le> length (st_log s'). apply_updates (take k (st_log s')) m q = Some y" if "st_read s' i = Some (q, y)" for i q y
  proof -
    have "st_read s i = Some (q, y)" using that by (simp add: s')
    with v obtain k where "k \<le> length (st_log s)" "apply_updates (take k (st_log s)) m q = Some y" unfolding versions_def by blast
    then show ?thesis by (intro exI [of _ k]) (simp add: s')
  qed
  with v show ?thesis by (simp add: versions_def s')
next
  fix p x i assume v: "versions m s" and s': "s' = s\<lparr>st_read := (st_read s)(i \<mapsto> (p, x))\<rparr>" and f: "st_files s p = Some x"
  have "apply_updates (take (length (st_log s)) (st_log s)) m p = Some x" using v f by (simp add: versions_def)
  with v show ?thesis by (fastforce simp: versions_def s' split: if_splits)
qed

interpretation vs: invariance "store_init m" store_step "versions m" for m
proof
  show "versions m s" if "store_init m s" for s using that by (simp add: store_init_def versions_def)
qed (rule versions_step)

lemma clean_versions:
  "reach (clean_start fs n) (clean_step a) st \<Longrightarrow> versions (view fs) (abs_store st)"
  using ref.abstract_invariant vs.invariance_axioms by blast

section \<open>Properties\<close>

lemma clean_view:
  assumes "reach (clean_start fs n) (clean_step a) st"
  shows "view fs = visible fs"
  using assms by induction (auto dest: view_start)



section \<open>Witnesses\<close>

abbreviation put_end :: server where "put_end \<equiv> run_ended sample_args sample_store put_conn"

lemma sample_not_tmp: "\<not> tmp_like ''d/f''"
proof
  assume "tmp_like ''d/f''"
  then obtain b n where e: "''d/f'' = b @ ''.tmp.'' @ nat_str n" by (auto simp: tmp_like_def)
  have "CHR ''.'' \<in> set ''d/f''" unfolding e by simp
  then show False by simp
qed

lemma sample_clean_start: "clean_start sample_store 1 (server_init sample_store 1)"
  using sample_not_tmp by (auto simp: clean_start_def disk_ok_def fs_ok_def sample_store_def empty_fs_def sample_data_def
      u64_max_def split: if_splits)

lemma sample_clean_step:
  assumes "path r = ''d/f''" and "server_step a st st'" and "sv_ids st \<le> 1" and "set (sv_pending st') \<subseteq> {r}"
  shows "clean_step a st st'"
  using assms sample_not_tmp by (auto simp: clean_step_def no_wrap_def u64_max_def)

lemma put_end_reach: "reach (clean_start sample_store 1) (clean_step sample_args) put_end"
  by (rule run_reach(2) [OF sample_single(2)], rule sample_clean_start, rule sample_clean_step [of put_sample])
    (simp_all add: sample_single put_sample_def)

lemma put_sample_round:
  obtains r1 c1 fs1 where "serve_slice (stamp_start 20 put_sample) (put_conn\<lparr>inbox := [Data ''hello'']\<rparr>) sample_store
    (slice_params_of sample_args) = (DONE, r1, c1, fs1, [])" "kept (stamp_start 20 put_sample) r1"
proof -
  let ?r = "stamp_start 20 put_sample" and ?c = "put_conn\<lparr>inbox := [Data ''hello'']\<rparr>" and ?sp = "slice_params_of sample_args"
  obtain res r1 c1 fs1 lines where run: "run_rounds 1 ?r ?c sample_store ?sp = (res, r1, c1, fs1, lines)"
    by (rule prod_cases5)
  have "tmp_name ?r \<noteq> ''d/f''" using sample_not_tmp tmp_like_tmp_name by metis
  then have "dir sample_store (tmp_name ?r) = None" by (simp add: sample_store_def empty_fs_def)
  then have adm: "admitted_put sample_store ?r"
    by (simp add: admitted_put_def sample_store_def stamp_start_def put_sample_def new_request_def empty_fs_def)
  have "fs_ok sample_store" using sample_clean_start by (simp add: clean_start_def disk_ok_def)
  note st = admitted_put_state [OF adm this, of ?c]
  have "res = DONE \<and> lines = []"
    using run_put_rounds [OF run st] run_put_outcome [OF run st]
    by (simp add: stamp_start_def put_sample_def new_request_def put_env_ok_def sends_ok_def recvs_ok_def put_conn_def
        sample_store_def empty_fs_def stream_def incoming_def slice_params_of_def sample_args_def default_args_def parse_policy_def bounded_def)
  moreover have "serve_slice ?r ?c sample_store ?sp = (res, r1, c1, fs1, lines)"
  proof -
    obtain res' r' c' fs' l' where s: "serve_slice ?r ?c sample_store ?sp = (res', r', c', fs', l')" by (rule prod_cases5)
    with run calculation show ?thesis by (cases res') auto
  qed
  ultimately show thesis using that serve_slice_fields(1) by blast
qed

lemma put_end_done:
  obtains d where "sv_done put_end = [d]" "fin_result d = DONE" "rop (fin_request d) = OpPUT" "bytes (fin_request d) = 5"
    "path (fin_request d) = ''d/f''" "fin_sent d = put_header ''f'' 5 @ NL # ''hello''" "filename (fin_request d) = ''f''"
proof -
  from put_sample_round obtain r1 c1 fs1 where
    rd: "serve_slice (stamp_start 20 put_sample) (put_conn\<lparr>inbox := [Data ''hello'']\<rparr>) sample_store (slice_params_of sample_args) =
      (DONE, r1, c1, fs1, [])" and kp: "kept (stamp_start 20 put_sample) r1" by blast
  define d where "d = \<lparr>fin_result = DONE, fin_request = r1\<lparr>finish_ns := 30\<rparr>, fin_sent = incoming put_conn, fin_wire = wire c1\<rparr>"
  from run_ended_fields(6) [OF sample_single(2)] rd have "sv_done put_end = [d]"
    by (simp add: sample_single put_admitted d_def)
  with kp show thesis
    by (intro that [of d]) (simp_all add: d_def kept_def stamp_start_def put_sample_def new_request_def incoming_def put_conn_def)
qed



end
