(* ===== verification/Client_Ops.thy ===== *)
theory Client_Ops
  imports Channel
begin

text \<open>
  The client's operations, \<open>src/common/client_ops.cpp\<close>: \<open>connect_to\<close>, \<open>put_file\<close> and \<open>get_file\<close>.

  The environment of an operation is a record: whether a socket can be had, which addresses are
  valid and reachable, the connection that is then made, the local files and which of them can be
  written, how many bytes the disk takes, and which sizes \<open>std::vector\<close> can allocate. An allocation
  that fails throws, and nothing catches it: the process ends, which is \<open>None\<close>.
\<close>

record exchange_result =
  ex_ok :: bool
  ex_bytes :: nat
  ex_error :: string

record world =
  w_socket :: bool
  w_ip_valid :: "string \<Rightarrow> bool"
  w_reachable :: "string \<Rightarrow> nat \<Rightarrow> bool"
  w_conn :: chan
  w_local :: "string \<Rightarrow> string option"
  w_alloc :: "nat \<Rightarrow> bool"
  w_writable :: "string \<Rightarrow> bool"
  w_disk :: nat

definition kResponseTimeoutMs :: int where "kResponseTimeoutMs = 10000"

abbreviation quoted :: "string \<Rightarrow> string" where
  "quoted s \<equiv> CHR 0x27 # s @ [CHR 0x27]"

definition ex_fail :: "string \<Rightarrow> exchange_result" where
  "ex_fail e = \<lparr>ex_ok = False, ex_bytes = 0, ex_error = e\<rparr>"

definition ex_done :: "nat \<Rightarrow> exchange_result" where
  "ex_done n = \<lparr>ex_ok = True, ex_bytes = n, ex_error = []\<rparr>"

definition connect_to :: "world \<Rightarrow> string \<Rightarrow> nat \<Rightarrow> string + chan" where
  "connect_to w ip port =
     (if \<not> w_socket w then Inl ''socket() failed''
      else if \<not> w_ip_valid w ip then Inl (''invalid server ip '' @ quoted ip)
      else if \<not> w_reachable w ip port then Inl (''cannot connect to '' @ ip @ '':'' @ nat_str port)
      else Inr (w_conn w))"

text \<open>What follows the last slash.\<close>

definition basename_of :: "string \<Rightarrow> string" where
  "basename_of path = (if SLASH \<in> set path then rev (takeWhile (\<lambda>c. c \<noteq> SLASH) (rev path)) else path)"

section \<open>put_file\<close>

text \<open>
  From the connection on. Each answer is read with \<open>read_header_line\<close>; bytes received beyond the
  line of the first answer are in \<open>hdr_leftover\<close>, which nothing looks at.
\<close>

definition put_exchange :: "string \<Rightarrow> string \<Rightarrow> chan \<Rightarrow> exchange_result \<times> chan" where
  "put_exchange base body c =
     (case send_all (put_header base (length body) @ [NL]) c of
        (False, c1) \<Rightarrow> (ex_fail ''connection error sending PUT header'', c1)
      | (True, c1) \<Rightarrow>
          (case read_header_line kResponseTimeoutMs c1 of
             (hdr1, c2) \<Rightarrow>
               if \<not> hdr_ok hdr1 then (ex_fail (''no response to PUT header: '' @ hdr_error hdr1), c2)
               else
                 let resp1 = parse_response_line (hdr_line hdr1) in
                 if resp_malformed resp1 \<or> \<not> resp_ok resp1
                 then (ex_fail (if resp_malformed resp1 then ''malformed response'' else resp_reason resp1), c2)
                 else
                   (case (if body \<noteq> [] then send_all body c2 else (True, c2)) of
                      (False, c3) \<Rightarrow> (ex_fail ''connection error sending body'', c3)
                    | (True, c3) \<Rightarrow>
                        (case read_header_line kResponseTimeoutMs c3 of
                           (hdr2, c4) \<Rightarrow>
                             if \<not> hdr_ok hdr2 then (ex_fail (''no final confirmation: '' @ hdr_error hdr2), c4)
                             else
                               let resp2 = parse_response_line (hdr_line hdr2) in
                               if resp_malformed resp2 \<or> \<not> resp_ok resp2
                               then (ex_fail (if resp_malformed resp2 then ''malformed response''
                                       else resp_reason resp2), c4)
                               else (ex_done (length body), c4)))))"

definition put_file :: "world \<Rightarrow> string \<Rightarrow> nat \<Rightarrow> string \<Rightarrow> exchange_result option" where
  "put_file w ip port local_path =
     (case w_local w local_path of
        None \<Rightarrow> Some (ex_fail (''cannot open local file '' @ quoted local_path))
      | Some body \<Rightarrow>
          if \<not> w_alloc w (length body) then None
          else (case connect_to w ip port of
                  Inl err \<Rightarrow> Some (ex_fail err)
                | Inr c \<Rightarrow> Some (fst (put_exchange (basename_of local_path) body c))))"

section \<open>get_file\<close>

text \<open>Up to the closing of the connection: the failure, \<open>None\<close> when the buffer cannot be had, or the body.\<close>

definition get_exchange :: "(nat \<Rightarrow> bool) \<Rightarrow> string \<Rightarrow> chan \<Rightarrow> (exchange_result + string) option \<times> chan" where
  "get_exchange alloc name c =
     (case send_all (get_header name @ [NL]) c of
        (False, c1) \<Rightarrow> (Some (Inl (ex_fail ''connection error sending GET header'')), c1)
      | (True, c1) \<Rightarrow>
          (case read_header_line kResponseTimeoutMs c1 of
             (hdr, c2) \<Rightarrow>
               if \<not> hdr_ok hdr then (Some (Inl (ex_fail (''no response to GET: '' @ hdr_error hdr))), c2)
               else
                 let resp = parse_response_line (hdr_line hdr) in
                 if resp_malformed resp then (Some (Inl (ex_fail ''malformed response'')), c2)
                 else if \<not> resp_ok resp then (Some (Inl (ex_fail (resp_reason resp))), c2)
                 else if \<not> alloc (resp_n resp) then (None, c2)
                 else if resp_n resp = 0 then (Some (Inr []), c2)
                 else (case read_exact (hdr_leftover hdr) (resp_n resp) (-1) c2 of
                         (False, body, lo, c3) \<Rightarrow>
                           (Some (Inl (ex_fail ''connection closed before full body received'')), c3)
                       | (True, body, lo, c3) \<Rightarrow> (Some (Inr body), c3))))"

text \<open>
  The result, and the file written: the name and as much of the body as the disk takes, which is
  not checked.
\<close>

definition get_file ::
  "world \<Rightarrow> string \<Rightarrow> nat \<Rightarrow> string \<Rightarrow> string \<Rightarrow> exchange_result option \<times> (string \<times> string) option" where
  "get_file w ip port name out_path =
     (case connect_to w ip port of
        Inl err \<Rightarrow> (Some (ex_fail err), None)
      | Inr c \<Rightarrow>
          (case get_exchange (w_alloc w) name c of
             (None, c1) \<Rightarrow> (None, None)
           | (Some (Inl e), c1) \<Rightarrow> (Some e, None)
           | (Some (Inr body), c1) \<Rightarrow>
               if \<not> w_writable w out_path
               then (Some (ex_fail (''cannot open output file '' @ quoted out_path)), None)
               else (Some (ex_done (length body)), Some (out_path, take (w_disk w) body))))"

section \<open>What a success means\<close>

text \<open>
  A GET that succeeds has sent its request line, and has received a line \<open>OK <n>\<close> and the \<open>n\<close> bytes
  that follow it, which are the body.
\<close>

lemma get_exchange_ok:
  assumes "get_exchange alloc name c = (Some (Inr body), c')"
  obtains l rest where "incoming c = l @ NL # rest" "NL \<notin> set l" "resp_ok (parse_response_line l)"
    "length body = resp_n (parse_response_line l)" "prefix body rest" "wire c' = wire c @ get_header name @ [NL]"
proof -
  obtain b c1 where snd: "send_all (get_header name @ [NL]) c = (b, c1)" by (cases "send_all (get_header name @ [NL]) c")
  obtain h c2 where hd: "read_header_line kResponseTimeoutMs c1 = (h, c2)" by (cases "read_header_line kResponseTimeoutMs c1")
  obtain ok buf lo c3 where re: "read_exact (hdr_leftover h) (resp_n (parse_response_line (hdr_line h))) (-1) c2 = (ok, buf, lo, c3)"
    by (rule prod_cases4)
  have facts: "b" "hdr_ok h" "resp_ok (parse_response_line (hdr_line h))"
      "resp_n (parse_response_line (hdr_line h)) = 0 \<and> body = [] \<and> c' = c2 \<or> ok \<and> body = buf \<and> c' = c3"
    using assms by (auto simp: get_exchange_def snd hd re Let_def split: bool.splits if_splits)
  note s = send_all_prefix [OF snd] send_all_inbox [OF snd]
  note h = read_header_line_sound [OF hd facts(2)]
  have inc: "incoming c = hdr_line h @ NL # hdr_leftover h @ incoming c2"
    using s(2) h(1) by (simp add: incoming_def)
  have w: "wire c1 = wire c @ get_header name @ [NL]" using s(1) facts(1) by (metis append_eq_append_conv_if take_all order_refl)
  have "length body = resp_n (parse_response_line (hdr_line h)) \<and> prefix body (hdr_leftover h @ incoming c2) \<and>
      wire c' = wire c2"
  proof (cases "ok \<and> body = buf \<and> c' = c3")
    case True
    moreover have "prefix buf (hdr_leftover h @ incoming c2)" using read_exact_sound(1) [OF re] by (metis prefixI)
    ultimately show ?thesis using read_exact_sound(2,3) [OF re] by (simp add: wire_def)
  qed (use facts(4) in auto)
  with inc h(2,5) facts(3) w show thesis by (intro that [of "hdr_line h" "hdr_leftover h @ incoming c2"]) simp_all
qed

text \<open>A PUT that succeeds has sent its line and its body, and has received two lines \<open>OK <n>\<close>.\<close>

lemma put_exchange_ok:
  assumes "put_exchange base body c = (x, c')" and "ex_ok x"
  obtains l1 lo1 l2 rest where "incoming c = l1 @ NL # lo1 @ l2 @ NL # rest" "NL \<notin> set l1" "NL \<notin> set l2"
    "resp_ok (parse_response_line l1)" "resp_ok (parse_response_line l2)"
    "wire c' = wire c @ put_header base (length body) @ NL # body" "x = ex_done (length body)"
proof -
  let ?req = "put_header base (length body) @ [NL]"
  obtain b1 c1 where s1: "send_all ?req c = (b1, c1)" by (cases "send_all ?req c")
  obtain h1 c2 where h1: "read_header_line kResponseTimeoutMs c1 = (h1, c2)" by (cases "read_header_line kResponseTimeoutMs c1")
  obtain b2 c3 where s2: "(if body \<noteq> [] then send_all body c2 else (True, c2)) = (b2, c3)"
    by (cases "if body \<noteq> [] then send_all body c2 else (True, c2)")
  obtain h2 c4 where h2: "read_header_line kResponseTimeoutMs c3 = (h2, c4)" by (cases "read_header_line kResponseTimeoutMs c3")
  have facts: "b1" "hdr_ok h1" "resp_ok (parse_response_line (hdr_line h1))" "b2" "hdr_ok h2"
      "resp_ok (parse_response_line (hdr_line h2))" "c' = c4" "x = ex_done (length body)"
    using assms by (auto simp: put_exchange_def s1 h1 s2 h2 Let_def ex_fail_def split: bool.splits if_splits)
  have s2': "send_all body c2 = (b2, c3)" using s2 by (cases "body = []") auto
  note inb = send_all_inbox [OF s1] send_all_inbox [OF s2']
  note r1 = read_header_line_sound [OF h1 facts(2)] and r2 = read_header_line_sound [OF h2 facts(5)]
  have "wire c1 = wire c @ ?req" using send_all_prefix [OF s1] facts(1) by (metis append_eq_append_conv_if take_all order_refl)
  moreover have "wire c3 = wire c2 @ body" using send_all_prefix [OF s2'] facts(4) by (metis append_eq_append_conv_if take_all order_refl)
  ultimately have "wire c' = wire c @ put_header base (length body) @ NL # body"
    using r1(5) r2(5) facts(7) by simp
  moreover have "incoming c = hdr_line h1 @ NL # hdr_leftover h1 @ hdr_line h2 @ NL # (hdr_leftover h2 @ incoming c4)"
    using r1(1) r2(1) inb by (simp add: incoming_def)
  ultimately show thesis using r1(2) r2(2) facts
    by (intro that [of "hdr_line h1" "hdr_leftover h1" "hdr_line h2" "hdr_leftover h2 @ incoming c4"]) simp_all
qed

text \<open>On a connection that delivers the whole answer, a download succeeds.\<close>

lemma get_exchange_complete:
  assumes "sends_ok c" and "recvs_ok c" and "incoming c = format_ok (length data) @ data" and "length data \<le> u64_max"
    and "alloc (length data)"
  shows "fst (get_exchange alloc name c) = Some (Inr data)"
proof -
  let ?l = "''OK '' @ nat_str (length data)"
  obtain b c1 where snd: "send_all (get_header name @ [NL]) c = (b, c1)" by (cases "send_all (get_header name @ [NL]) c")
  note s = send_all_ok [OF assms(1) snd]
  have nl: "NL \<notin> set ?l" by (auto dest: nat_str_digits is_digit_neq(2))
  have len: "length ?l \<le> 8192"
  proof -
    have "length (nat_str m) \<le> 20" if "m \<le> u64_max" for m
    proof -
      have "length (nat_str m) \<le> Suc k" if "m < 10 ^ Suc k" for k m
        using that
      proof (induction k arbitrary: m)
        case 0
        then show ?case by (simp add: nat_str.simps)
      next
        case (Suc k)
        then have "m div 10 < 10 ^ Suc k" by (simp add: less_mult_imp_div_less mult.commute)
        from Suc.IH [OF this] show ?case by (simp add: nat_str.simps [of m])
      qed
      from this [of m 19] that show ?thesis by (simp add: u64_max_def)
    qed
    with assms(4) show ?thesis by fastforce
  qed
  have r1: "recvs_ok c1" using assms(2) s(4) by (simp add: recvs_ok_def)
  have inc: "incoming c1 = ?l @ NL # data" using s(5) assms(3) by (simp add: format_ok_def)
  obtain h c2 where h: "read_header_line kResponseTimeoutMs c1 = (h, c2)" "hdr_ok h" "hdr_line h = ?l" "recvs_ok c2"
    "hdr_leftover h @ incoming c2 = data"
    by (rule read_header_line_complete [OF r1 inc nl len])
  have n: "length data \<le> length (hdr_leftover h) + length (incoming c2)" using arg_cong [OF h(5), of length] by simp
  obtain buf lo c3 where re: "read_exact (hdr_leftover h) (length data) (-1) c2 = (True, buf, lo, c3)"
    by (rule read_exact_complete [OF h(4) n])
  have buf: "buf = data" using read_exact_take [OF re] h(5) by simp
  have p: "parse_response_line (hdr_line h) = empty_response_line\<lparr>resp_ok := True, resp_n := length data\<rparr>"
    unfolding h(3) by (rule parse_response_ok [OF assms(4)])
  show ?thesis
    unfolding get_exchange_def by (simp add: snd s(1) h(1,2) p empty_response_line_def Let_def assms(5) re buf)
qed

text \<open>The two answers to an upload, each in a segment of its own.\<close>

lemma read_ok_line:
  assumes "inbox c = Data (format_ok 0 @ rest) # es" and "length rest \<le> 500"
  shows "read_header_line kResponseTimeoutMs c =
    (\<lparr>hdr_ok = True, hdr_line = ''OK 0'', hdr_leftover = rest, hdr_error = []\<rparr>, c\<lparr>inbox := es\<rparr>)"
proof -
  have f: "format_ok 0 @ rest = ''OK 0'' @ NL # rest" by (simp add: format_ok_def nat_str.simps digit_char_eval)
  have "until_nl (''OK 0'' @ NL # rest) = ''OK 0''"
    unfolding until_nl_def by (intro takeWhile_append_stop) simp_all
  with assms f show ?thesis
    by (subst read_header_line_def, subst header_loop.simps)
      (simp add: kResponseTimeoutMs_def arm_if_def arm_remaining_def sys_recv_def)
qed

lemma ok_zero: "parse_response_line ''OK 0'' = empty_response_line\<lparr>resp_ok := True\<rparr>"
  using parse_response_ok [of 0] by (simp add: nat_str.simps digit_char_eval empty_response_line_def)

lemma put_exchange_complete:
  assumes "sends_ok c" and "inbox c = [Data (format_ok 0), Data (format_ok 0)]"
  shows "fst (put_exchange base body c) = ex_done (length body)"
proof -
  let ?req = "put_header base (length body) @ [NL]"
  obtain b1 c1 where s1: "send_all ?req c = (b1, c1)" by (cases "send_all ?req c")
  note o1 = send_all_ok [OF assms(1) s1]
  have h1: "read_header_line kResponseTimeoutMs c1 =
      (\<lparr>hdr_ok = True, hdr_line = ''OK 0'', hdr_leftover = [], hdr_error = []\<rparr>, c1\<lparr>inbox := [Data (format_ok 0)]\<rparr>)"
    by (rule read_ok_line) (simp_all add: o1 assms(2))
  let ?c2 = "c1\<lparr>inbox := [Data (format_ok 0)]\<rparr>"
  obtain b2 c3 where s2: "send_all body ?c2 = (b2, c3)" by (cases "send_all body ?c2")
  have "sends_ok ?c2" using o1(3) by (simp add: sends_ok_def)
  note o2 = send_all_ok [OF this s2]
  have h2: "read_header_line kResponseTimeoutMs c3 =
      (\<lparr>hdr_ok = True, hdr_line = ''OK 0'', hdr_leftover = [], hdr_error = []\<rparr>, c3\<lparr>inbox := []\<rparr>)"
    by (rule read_ok_line) (simp_all add: o2)
  have s2': "(if body \<noteq> [] then send_all body ?c2 else (True, ?c2)) = (True, c3)" using s2 o2(1) by (cases "body = []") auto
  show ?thesis
    unfolding put_exchange_def
    by (simp add: s1 o1(1) h1 s2' [simplified] h2 ok_zero empty_response_line_def Let_def del: if_not_P)
qed

section \<open>An upload that is misreported\<close>

text \<open>
  C5. An empty upload can be reported as failed although it succeeded. The server sends its two
  confirmations of an empty upload one after the other; if they arrive in one segment, \<open>put_file\<close> drops
  the second with the leftover of the first header and then waits for it in vain. Arriving separately
  they are accepted.
\<close>

theorem empty_upload_misreported:
  assumes "sends_ok c" and "inbox c = [Data (format_ok 0), Data (format_ok 0)]"
  shows "fst (put_exchange base [] c) = ex_done 0 \<and>
    fst (put_exchange base [] (c\<lparr>inbox := [Data (format_ok 0 @ format_ok 0)]\<rparr>)) =
      ex_fail ''no final confirmation: peer closed before header line completed''"
proof
  show "fst (put_exchange base [] c) = ex_done 0" using put_exchange_complete [OF assms, of base "[]"] by simp
  let ?c = "c\<lparr>inbox := [Data (format_ok 0 @ format_ok 0)]\<rparr>" and ?req = "put_header base (length ([] :: string)) @ [NL]"
  obtain b1 c1 where s1: "send_all ?req ?c = (b1, c1)" by (cases "send_all ?req ?c")
  have "sends_ok ?c" using assms(1) by (simp add: sends_ok_def)
  note o1 = send_all_ok [OF this s1]
  have h1: "read_header_line kResponseTimeoutMs c1 =
      (\<lparr>hdr_ok = True, hdr_line = ''OK 0'', hdr_leftover = format_ok 0, hdr_error = []\<rparr>, c1\<lparr>inbox := []\<rparr>)"
    by (rule read_ok_line) (simp_all add: o1 format_ok_def nat_str.simps)
  have h2: "read_header_line kResponseTimeoutMs (c1\<lparr>inbox := []\<rparr>) = (hdr_fail ''peer closed before header line completed'', c1\<lparr>inbox := []\<rparr>)"
    by (subst read_header_line_def, subst header_loop.simps)
      (simp add: kResponseTimeoutMs_def arm_if_def arm_remaining_def sys_recv_def)
  show "fst (put_exchange base [] ?c) = ex_fail ''no final confirmation: peer closed before header line completed''"
    using s1 o1(1) h1 h2 by (simp add: put_exchange_def ok_zero empty_response_line_def Let_def hdr_fail_def)
qed

theorem empty_upload_misreported_witness:
  "ex_ok (fst (put_exchange ''f'' [] \<lparr>out = [], send_script = [], send_calls = 0, inbox = [Data (format_ok 0), Data (format_ok 0)]\<rparr>))"
  using empty_upload_misreported [of "\<lparr>out = [], send_script = [], send_calls = 0, inbox = [Data (format_ok 0), Data (format_ok 0)]\<rparr>" "''f''"]
  by (simp add: sends_ok_def ex_done_def)

end
