(* ===== verification/End_To_End.thy ===== *)
theory End_To_End
  imports Server_Refine Client_Ops
begin

text \<open>
  Client and server together: the exchanges of \<open>Client_Ops\<close> over a connection to the server of
  \<open>Server_Refine\<close>. The server has received a prefix of what the client sent, the client a prefix of
  what the server sent. What the client's functions report is then true of the server's files.
\<close>

section \<open>Answers\<close>

lemma parse_response_ok_bound: "resp_ok (parse_response_line (''OK '' @ nat_str n)) \<Longrightarrow> n \<le> u64_max"
  by (rule ccontr) (simp add: parse_response_line_def Let_def split_ws_format_ok [simplified] empty_response_line_def parse_u64_def)

lemma parse_put_bound: "token name \<Longrightarrow> req_type (parse_request_line (put_header name n)) = PUT \<Longrightarrow> n \<le> u64_max"
  by (rule ccontr) (simp add: parse_request_line_def Let_def split_ws_put_header empty_request_line_def parse_u64_def)

lemma resp_ok_has_O:
  assumes "resp_ok (parse_response_line l)"
  shows "CHR ''O'' \<in> set l"
proof -
  from assms have "split_ws l \<noteq> [] \<and> split_ws l ! 0 = ''OK''"
    by (auto simp: parse_response_line_def empty_response_line_def Let_def split: if_splits option.splits)
  then have "CHR ''O'' \<in> set (concat (split_ws l))" by (cases "split_ws l") auto
  then show ?thesis by (simp add: concat_split_ws)
qed

text \<open>Two lines \<open>OK\<close> are never a prefix of what an upload that fails is told.\<close>

lemma failed_not_confirmed:
  assumes "m \<in> set put_replies" and "prefix (l1 @ NL # lo1 @ l2 @ NL # rest) m" and "NL \<notin> set l1" and "NL \<notin> set l2"
    and "resp_ok (parse_response_line l2)"
  shows False
proof -
  have one: False if "prefix (l1 @ NL # lo1 @ l2 @ NL # rest) (u @ NL # [])" "NL \<notin> set u" for u
    using first_line_of_prefix [OF that(1) assms(3) that(2)] by simp
  have two: False if m: "m = (''OK 0'' @ NL # (''ERR '' @ x)) @ [NL]" and x: "NL \<notin> set x" "CHR ''O'' \<notin> set x" for x
  proof -
    have "prefix (l1 @ NL # (lo1 @ l2 @ NL # rest)) (''OK 0'' @ NL # ((''ERR '' @ x) @ [NL]))" using assms(2) m by simp
    from first_line_of_prefix [OF this assms(3)] have "prefix (lo1 @ l2 @ NL # rest) ((''ERR '' @ x) @ [NL])" by simp
    then have p: "prefix ((lo1 @ l2) @ NL # rest) ((''ERR '' @ x) @ NL # [])" by simp
    have "NL \<notin> set (lo1 @ l2)"
    proof
      assume "NL \<in> set (lo1 @ l2)"
      then obtain us vs where "lo1 @ l2 = us @ NL # vs" "NL \<notin> set us" by (meson split_list_first)
      with first_line_of_prefix [of us "vs @ NL # rest" "''ERR '' @ x" "[]"] p x(1) show False by simp
    qed
    with first_line_of_prefix [OF p] x(1) have "lo1 @ l2 = ''ERR '' @ x" by simp
    then have "set l2 \<subseteq> set (''ERR '' @ x)" by (metis set_append sup_ge2)
    with resp_ok_has_O [OF assms(5)] x(2) show False by auto
  qed
  have nl: "NL \<notin> set (''cannot write file'')" "CHR ''O'' \<notin> set (''cannot write file'')"
    "NL \<notin> set (''body shorter than declared'')" "CHR ''O'' \<notin> set (''body shorter than declared'')" by simp_all
  have ok: "format_ok 0 = ''OK 0'' @ NL # []" by (simp add: format_ok_def nat_str.simps digit_char_eval)
  from assms(1) consider "m = ''OK 0'' @ NL # []" | "m = (''ERR cannot write file'') @ NL # []"
    | "m = (''OK 0'' @ NL # (''ERR '' @ ''cannot write file'')) @ [NL]"
    | "m = (''OK 0'' @ NL # (''ERR '' @ ''body shorter than declared'')) @ [NL]"
    by (auto simp: put_replies_def ok format_err_def)
  then show False
  proof cases
    case 1 with one [of "''OK 0''"] assms(2) show False by simp
  next
    case 2 with one [of "''ERR cannot write file''"] assms(2) show False by simp
  next
    case 3 from two [OF this nl(1,2)] show False .
  next
    case 4 from two [OF this nl(3,4)] show False .
  qed
qed

section \<open>Properties\<close>

lemma clean_fin:
  assumes "reach (clean_start fs n) (clean_step a) st" and "d \<in> set (sv_done st)"
  shows "fin_ok a (sv_snaps st (rid (fin_request d))) d"
  using sto.inv_reach [OF assms(1)] assms(2) by (simp add: store_ok_def done_ok_def)

lemma clean_read:
  assumes "reach (clean_start fs n) (clean_step a) st" and "sv_snaps st i = Some (p, x)"
  shows "\<exists>k \<le> length (updates (sv_done st)). apply_updates (take k (updates (sv_done st))) (visible fs) p = Some x"
  using clean_versions [OF assms(1)] clean_view [OF assms(1)] assms(2) by (simp add: versions_def abs_store_def)



section \<open>Witnesses\<close>

abbreviation get_end :: server where "get_end \<equiv> run_ended sample_args sample_store get_conn"

lemma get_end_reach: "reach (clean_start sample_store 1) (clean_step sample_args) get_end"
  by (rule run_reach(2) [OF sample_single(1)], rule sample_clean_start, rule sample_clean_step [of get_sample])
    (simp_all add: sample_single get_sample_def)

lemma get_end_done:
  obtains d where "sv_done get_end = [d]" "fin_sent d = get_header ''f'' @ [NL]" "fin_wire d = response sample_data"
proof -
  let ?r = "stamp_start 20 get_sample" and ?c = "get_conn\<lparr>inbox := []\<rparr>" and ?sp = "slice_params_of sample_args"
  let ?fs = "sample_store\<lparr>fds := [3 \<mapsto> 0], next_fd := 4\<rparr>"
  obtain res r1 c1 fs1 lines where run: "run_rounds 1 ?r ?c ?fs ?sp = (res, r1, c1, fs1, lines)"
    by (rule prod_cases5)
  have "admitted_get ?fs ?r sample_data"
    by (simp add: admitted_get_def file_view_def stamp_start_def get_sample_def new_request_def sample_store_def sample_data_def)
  then have st: "get_state ?fs ?r ?c sample_data" by (rule admitted_get_state) (simp add: wire_def get_conn_def)
  have ok: "round_ok ?c ?fs ?r"
    by (simp add: round_ok_def sends_ok_def get_conn_def reads_ok_def sample_store_def empty_fs_def)
  have "\<not> bounded (sp_policy ?sp)"
    by (simp add: slice_params_of_def sample_args_def default_args_def parse_policy_def bounded_def)
  from run_get_unbounded [OF st ok this, of 0] run have res: "res = DONE" "lines = []" by simp_all
  from run_get_safe [OF st run] res have w: "wire c1 = response sample_data" by simp
  have rd: "serve_slice ?r ?c ?fs ?sp = (res, r1, c1, fs1, lines)"
  proof -
    obtain res' r' c' fs' l' where s: "serve_slice ?r ?c ?fs ?sp = (res', r', c', fs', l')" by (rule prod_cases5)
    with run res show ?thesis by (cases res') auto
  qed
  define d where "d = \<lparr>fin_result = res, fin_request = r1\<lparr>finish_ns := 30\<rparr>, fin_sent = incoming get_conn, fin_wire = wire c1\<rparr>"
  from run_ended_fields(6) [OF sample_single(1)] rd have "sv_done get_end = [d]"
    by (simp add: sample_single get_admitted d_def)
  with w show thesis by (intro that [of d]) (simp_all add: d_def incoming_def get_conn_def)
qed

definition get_client :: chan where
  "get_client = \<lparr>out = [], send_script = [], send_calls = 0, inbox = [Data (response sample_data)]\<rparr>"


definition put_client :: chan where
  "put_client = \<lparr>out = [], send_script = [], send_calls = 0, inbox = [Data (format_ok 0), Data (format_ok 0)]\<rparr>"


end
