(* ===== verification/Json.thy ===== *)
theory Json
  imports Prelude Complex_Main
begin

text \<open>
  JSON values, as \<open>nlohmann::json\<close> and Python's \<open>json\<close> both hold them. The text format is the
  libraries' business: parsing and printing are parameters of what uses them. An object is the list
  of its members; both libraries look a key up by name and keep one member of each name.
\<close>

datatype json =
    JNull
  | JBool bool
  | JInt int
  | JFloat rat
  | JString string
  | JArray "json list"
  | JObject "(string \<times> json) list"

text \<open>
  \<open>is_object\<close>, \<open>is_array\<close>, \<open>is_string\<close>, \<open>is_number_integer\<close>, \<open>contains\<close> and \<open>at\<close> of the C++ library, which
  holds an integer that fits neither 64-bit type as a float.
\<close>

fun is_object :: "json \<Rightarrow> bool" where
  "is_object (JObject ms) = True"
| "is_object _ = False"

fun is_array :: "json \<Rightarrow> bool" where
  "is_array (JArray xs) = True"
| "is_array _ = False"

fun is_string :: "json \<Rightarrow> bool" where
  "is_string (JString s) = True"
| "is_string _ = False"

fun is_number_integer :: "json \<Rightarrow> bool" where
  "is_number_integer (JInt n) = (- 9223372036854775808 \<le> n \<and> n \<le> 18446744073709551615)"
| "is_number_integer _ = False"

fun jat :: "json \<Rightarrow> string \<Rightarrow> json option" where
  "jat (JObject ms) k = map_of ms k"
| "jat _ k = None"

fun elements :: "json \<Rightarrow> json list" where
  "elements (JArray xs) = xs"
| "elements _ = []"

fun get_string :: "json \<Rightarrow> string" where
  "get_string (JString s) = s"
| "get_string _ = []"

text \<open>
  \<open>get<long long> ()\<close>: an integer literal is held as a signed or an unsigned 64-bit value, and an
  unsigned one of \<open>2 ^ 63\<close> or more is converted by wrapping around.
\<close>

fun get_long_long :: "json \<Rightarrow> int" where
  "get_long_long (JInt n) = (if n > 9223372036854775807 then n - 18446744073709551616 else n)"
| "get_long_long _ = 0"

text \<open>A value that an update of one member leaves in place: \<open>d[k] = v\<close> in Python.\<close>

fun put_member :: "string \<Rightarrow> 'v \<Rightarrow> (string \<times> 'v) list \<Rightarrow> (string \<times> 'v) list" where
  "put_member k v [] = [(k, v)]"
| "put_member k v ((k', v') # ms) = (if k' = k then (k, v) # ms else (k', v') # put_member k v ms)"

lemma map_of_put_member [simp]: "map_of (put_member k v ms) = (map_of ms)(k \<mapsto> v)"
  by (induction ms) auto

lemma keys_put_member:
  fixes ms :: "(string \<times> 'v) list"
  shows "set (map fst (put_member k v ms)) = insert k (set (map fst ms))"
  by (induction ms rule: put_member.induct) auto

lemma is_object_iff: "is_object j \<longleftrightarrow> (\<exists>ms. j = JObject ms)"
  by (cases j) auto

lemma is_array_iff: "is_array j \<longleftrightarrow> (\<exists>xs. j = JArray xs)"
  by (cases j) auto

lemma is_string_iff: "is_string j \<longleftrightarrow> (\<exists>s. j = JString s)"
  by (cases j) auto

lemma is_number_integer_iff: "is_number_integer j \<longleftrightarrow> (\<exists>n. j = JInt n \<and> - 9223372036854775808 \<le> n \<and> n \<le> 18446744073709551615)"
  by (cases j) auto

lemmas json_kind_iffs = is_object_iff is_array_iff is_string_iff is_number_integer_iff

lemma jat_Some: "jat j k = Some v \<longleftrightarrow> (\<exists>ms. j = JObject ms \<and> map_of ms k = Some v)"
  by (cases j) auto

end
