(* ===== verification/Config.thy ===== *)
theory Config
  imports Json
begin

text \<open>
  \<open>src/common/config.cpp\<close>: the configuration file. Every \<open>fail_\<close> function prints its message and ends
  the process with status 1, which is \<open>Inl\<close> of the message; the text of the file and the JSON parser
  are arguments.
\<close>

record server_config =
  sc_ip :: string
  sc_port :: nat
  sc_server_threads :: int
  sc_client_threads :: int

record backend_config =
  bc_ip :: string
  bc_port :: nat

record load_balancer_config =
  lb_ip :: string
  lb_port :: nat
  lb_health_interval_ms :: int
  lb_backends :: "backend_config list"

record cfg_file =
  cf_server :: server_config
  cf_load_balancer :: load_balancer_config
  cf_has_load_balancer :: bool

definition empty_load_balancer :: load_balancer_config where
  "empty_load_balancer = \<lparr>lb_ip = [], lb_port = 0, lb_health_interval_ms = 0, lb_backends = []\<rparr>"

type_synonym 'a outcome = "string + 'a"

fun andthen :: "'a outcome \<Rightarrow> ('a \<Rightarrow> 'b outcome) \<Rightarrow> 'b outcome" where
  "andthen (Inl e) f = Inl e"
| "andthen (Inr x) f = f x"

lemma andthen_Inr: "andthen m f = Inr y \<longleftrightarrow> (\<exists>x. m = Inr x \<and> f x = Inr y)"
  by (cases m) auto

section \<open>Failures\<close>

abbreviation squoted :: "string \<Rightarrow> string" where
  "squoted s \<equiv> CHR 0x27 # s @ [CHR 0x27]"

definition fail_missing :: "string \<Rightarrow> 'a outcome" where
  "fail_missing field = Inl (''error: missing required field '' @ squoted field)"

definition fail_type :: "string \<Rightarrow> 'a outcome" where
  "fail_type field = Inl (''error: wrong type for field '' @ squoted field)"

definition fail_custom :: "string \<Rightarrow> string \<Rightarrow> 'a outcome" where
  "fail_custom field detail = Inl (''error: '' @ detail @ '' for field '' @ squoted field)"

definition fail_json :: "string \<Rightarrow> 'a outcome" where
  "fail_json detail = Inl (''error: malformed JSON: '' @ detail)"

lemmas fail_defs = fail_missing_def fail_type_def fail_custom_def fail_json_def

section \<open>Typed access\<close>

definition require_obj :: "json \<Rightarrow> string \<Rightarrow> string \<Rightarrow> json outcome" where
  "require_obj parent key path =
     (case jat parent key of
        None \<Rightarrow> fail_missing path
      | Some v \<Rightarrow> if \<not> is_object v then fail_type path else Inr v)"

definition require_string :: "json \<Rightarrow> string \<Rightarrow> string \<Rightarrow> string outcome" where
  "require_string obj key path =
     (case jat obj key of
        None \<Rightarrow> fail_missing path
      | Some v \<Rightarrow> if \<not> is_string v then fail_type path else Inr (get_string v))"

text \<open>\<open>static_cast<uint16_t>\<close> keeps the low 16 bits.\<close>

definition require_port :: "json \<Rightarrow> string \<Rightarrow> string \<Rightarrow> nat outcome" where
  "require_port obj key path =
     (case jat obj key of
        None \<Rightarrow> fail_missing path
      | Some v \<Rightarrow>
          if \<not> is_number_integer v then fail_type path
          else
            let n = get_long_long v in
            if n < 1 \<or> n > 65535 then fail_custom path ''port must be between 1 and 65535''
            else Inr (nat (n mod 65536)))"

text \<open>\<open>static_cast<int>\<close> keeps the low 32 bits.\<close>

definition require_int :: "json \<Rightarrow> string \<Rightarrow> string \<Rightarrow> int \<Rightarrow> int \<Rightarrow> int outcome" where
  "require_int obj key path lo hi =
     (case jat obj key of
        None \<Rightarrow> fail_missing path
      | Some v \<Rightarrow>
          if \<not> is_number_integer v then fail_type path
          else
            let n = get_long_long v in
            if n < lo \<or> n > hi
            then fail_custom path (''value must be between '' @ int_str lo @ '' and '' @ int_str hi)
            else Inr ((n + 2147483648) mod 4294967296 - 2147483648))"

definition kMaxThreads :: int where "kMaxThreads = 10000"
definition kMaxIntervalMs :: int where "kMaxIntervalMs = 3600000"

section \<open>load_config\<close>

definition load_server :: "json \<Rightarrow> server_config outcome" where
  "load_server doc =
     andthen (require_obj doc ''server'' ''server'') (\<lambda>server.
     andthen (require_string server ''ip'' ''server.ip'') (\<lambda>ip.
     andthen (require_port server ''port'' ''server.port'') (\<lambda>port.
     andthen (require_int server ''server_threads'' ''server.server_threads'' 1 kMaxThreads) (\<lambda>st.
     andthen (require_int server ''client_threads'' ''server.client_threads'' 1 kMaxThreads) (\<lambda>ct.
     Inr \<lparr>sc_ip = ip, sc_port = port, sc_server_threads = st, sc_client_threads = ct\<rparr>)))))"

fun load_backends :: "nat \<Rightarrow> json list \<Rightarrow> backend_config list outcome" where
  "load_backends i [] = Inr []"
| "load_backends i (b # bs) =
     (let p = ''load_balancer.backends['' @ nat_str i @ '']'' in
      if \<not> is_object b then fail_type p
      else
        andthen (require_string b ''ip'' (p @ ''.ip'')) (\<lambda>ip.
        andthen (require_port b ''port'' (p @ ''.port'')) (\<lambda>port.
        andthen (load_backends (Suc i) bs) (\<lambda>rest. Inr (\<lparr>bc_ip = ip, bc_port = port\<rparr> # rest)))))"

definition require_backends :: "json \<Rightarrow> backend_config list outcome" where
  "require_backends lb =
     (case jat lb ''backends'' of
        None \<Rightarrow> fail_missing ''load_balancer.backends''
      | Some backends \<Rightarrow>
          if \<not> is_array backends then fail_type ''load_balancer.backends''
          else if length (elements backends) \<noteq> 4
          then fail_custom ''load_balancer.backends'' ''must have exactly 4 entries''
          else load_backends 0 (elements backends))"

definition load_balancer :: "json \<Rightarrow> load_balancer_config outcome" where
  "load_balancer doc =
     andthen (require_obj doc ''load_balancer'' ''load_balancer'') (\<lambda>lb.
     andthen (require_string lb ''ip'' ''load_balancer.ip'') (\<lambda>ip.
     andthen (require_port lb ''port'' ''load_balancer.port'') (\<lambda>port.
     andthen (require_int lb ''health_interval_ms'' ''load_balancer.health_interval_ms'' 1 kMaxIntervalMs) (\<lambda>iv.
     andthen (require_backends lb) (\<lambda>bs.
     Inr \<lparr>lb_ip = ip, lb_port = port, lb_health_interval_ms = iv, lb_backends = bs\<rparr>)))))"

definition load_config ::
  "(string \<Rightarrow> string option) \<Rightarrow> (string \<Rightarrow> json outcome) \<Rightarrow> string \<Rightarrow> bool \<Rightarrow> cfg_file outcome" where
  "load_config read parse path require_load_balancer =
     (case read path of
        None \<Rightarrow> Inl (''error: cannot open config file '' @ squoted path)
      | Some body \<Rightarrow>
          (case parse body of
             Inl what \<Rightarrow> fail_json what
           | Inr doc \<Rightarrow>
               if \<not> is_object doc then fail_type ''<root>''
               else
                 andthen (load_server doc) (\<lambda>server.
                 if require_load_balancer
                 then andthen (load_balancer doc) (\<lambda>lb.
                   Inr \<lparr>cf_server = server, cf_load_balancer = lb, cf_has_load_balancer = True\<rparr>)
                 else Inr \<lparr>cf_server = server, cf_load_balancer = empty_load_balancer,
                   cf_has_load_balancer = False\<rparr>)))"

section \<open>What is accepted\<close>

text \<open>
  The schema of a configuration, written as a relation between the JSON value and the configuration:
  which members there must be, of which types and in which ranges.
\<close>

definition int_member :: "json \<Rightarrow> string \<Rightarrow> int \<Rightarrow> int \<Rightarrow> int \<Rightarrow> bool" where
  "int_member j k lo hi n \<longleftrightarrow> jat j k = Some (JInt n) \<and> lo \<le> n \<and> n \<le> hi"

definition server_schema :: "json \<Rightarrow> server_config \<Rightarrow> bool" where
  "server_schema j s \<longleftrightarrow> jat j ''ip'' = Some (JString (sc_ip s)) \<and> int_member j ''port'' 1 65535 (int (sc_port s)) \<and>
     int_member j ''server_threads'' 1 10000 (sc_server_threads s) \<and>
     int_member j ''client_threads'' 1 10000 (sc_client_threads s)"

definition backend_schema :: "json \<Rightarrow> backend_config \<Rightarrow> bool" where
  "backend_schema j b \<longleftrightarrow> jat j ''ip'' = Some (JString (bc_ip b)) \<and> int_member j ''port'' 1 65535 (int (bc_port b))"

definition balancer_schema :: "json \<Rightarrow> load_balancer_config \<Rightarrow> bool" where
  "balancer_schema j l \<longleftrightarrow> jat j ''ip'' = Some (JString (lb_ip l)) \<and> int_member j ''port'' 1 65535 (int (lb_port l)) \<and>
     int_member j ''health_interval_ms'' 1 3600000 (lb_health_interval_ms l) \<and>
     (\<exists>bs. jat j ''backends'' = Some (JArray bs) \<and> length bs = 4 \<and> list_all2 backend_schema bs (lb_backends l))"

definition config_schema :: "bool \<Rightarrow> json \<Rightarrow> cfg_file \<Rightarrow> bool" where
  "config_schema lb j c \<longleftrightarrow>
     (\<exists>s. jat j ''server'' = Some s \<and> is_object s \<and> server_schema s (cf_server c)) \<and>
     cf_has_load_balancer c = lb \<and>
     (if lb then \<exists>l. jat j ''load_balancer'' = Some l \<and> is_object l \<and> balancer_schema l (cf_load_balancer c)
      else cf_load_balancer c = empty_load_balancer)"

lemma require_obj_Inr: "require_obj p k path = Inr v \<longleftrightarrow> jat p k = Some v \<and> is_object v"
  by (auto simp: require_obj_def fail_defs split: option.split)

lemma require_string_Inr: "require_string j k path = Inr s \<longleftrightarrow> jat j k = Some (JString s)"
  by (auto simp: require_string_def fail_defs is_string_iff split: option.split)

lemma require_port_Inr: "require_port j k path = Inr n \<longleftrightarrow> int_member j k 1 65535 (int n)"
proof (cases "jat j k")
  case (Some v)
  then show ?thesis by (cases v) (auto simp: require_port_def int_member_def fail_defs)
qed (simp add: require_port_def int_member_def fail_defs)

lemma require_int_Inr:
  assumes "0 \<le> lo" and "hi \<le> 2147483647"
  shows "require_int j k path lo hi = Inr n \<longleftrightarrow> int_member j k lo hi n"
proof (cases "jat j k")
  case (Some v)
  with assms show ?thesis by (cases v) (auto simp: require_int_def int_member_def fail_defs)
qed (simp add: require_int_def int_member_def fail_defs)

lemmas require_Inr = require_obj_Inr require_string_Inr require_port_Inr require_int_Inr

lemma load_server_Inr:
  "load_server j = Inr c \<longleftrightarrow> (\<exists>s. jat j ''server'' = Some s \<and> is_object s \<and> server_schema s c)"
  by (cases c) (auto simp: load_server_def andthen_Inr require_Inr kMaxThreads_def server_schema_def)

lemma backend_object: "backend_schema j b \<Longrightarrow> is_object j"
  by (cases j) (auto simp: backend_schema_def)

lemma load_backends_Inr: "load_backends i js = Inr bs \<longleftrightarrow> list_all2 backend_schema js bs"
proof (induction js arbitrary: i bs)
  case (Cons j js)
  have "backend_schema j b \<longleftrightarrow> is_object j \<and> jat j ''ip'' = Some (JString (bc_ip b)) \<and>
      int_member j ''port'' 1 65535 (int (bc_port b))" for b
    using backend_object [of j b] by (auto simp: backend_schema_def)
  then show ?case
    by (cases "is_object j") (auto simp: Let_def fail_defs andthen_Inr require_Inr Cons.IH list_all2_Cons1
        intro!: exI [where x = "bc_port _"])
qed auto

lemma require_backends_Inr:
  "require_backends j = Inr cs \<longleftrightarrow>
     (\<exists>bs. jat j ''backends'' = Some (JArray bs) \<and> length bs = 4 \<and> list_all2 backend_schema bs cs)"
  by (auto simp: require_backends_def load_backends_Inr fail_defs is_array_iff split: option.split)

lemma load_balancer_Inr:
  "load_balancer j = Inr c \<longleftrightarrow> (\<exists>l. jat j ''load_balancer'' = Some l \<and> is_object l \<and> balancer_schema l c)"
  by (cases c)
    (auto simp: load_balancer_def andthen_Inr require_Inr kMaxIntervalMs_def balancer_schema_def require_backends_Inr)

text \<open>
  C31. \<open>load_config\<close> accepts a file exactly when its text is JSON with the members the schema asks for,
  of the types and in the ranges it asks for, and what it returns is what the file says: no port or
  count is truncated by the narrowing casts. Everything else ends the process with a message.
\<close>

theorem load_config_spec:
  "load_config read parse path lb = Inr c \<longleftrightarrow>
     (\<exists>body doc. read path = Some body \<and> parse body = Inr doc \<and> is_object doc \<and> config_schema lb doc c)"
  by (cases c)
    (auto simp: load_config_def fail_defs config_schema_def andthen_Inr load_server_Inr load_balancer_Inr
      split: option.split sum.split)

end
