(* ===== verification/Client_Main.thy ===== *)
theory Client_Main
  imports Client_Ops Config C_Numbers
begin

text \<open>
  \<open>src/client/main.cpp\<close>: the client's command line. A usage error or a bad configuration is \<open>Inl\<close> of the
  message that is printed before the process ends with status 1.
\<close>

record invocation =
  iv_config_path :: string
  iv_has_requests :: bool
  iv_requests :: nat

text \<open>The loop over \<open>argv[3..]\<close>.\<close>

definition parse_requests :: "string \<Rightarrow> nat option" where
  "parse_requests v =
     (case strtoull v of
        None \<Rightarrow> None
      | Some (n, rest) \<Rightarrow> if rest \<noteq> [] then None else Some n)"

definition client_usage :: "string \<Rightarrow> 'a outcome" where
  "client_usage msg = Inl (''error: '' @ msg)"

fun client_flags :: "string list \<Rightarrow> invocation \<Rightarrow> invocation outcome" where
  "client_flags [] iv = Inr iv"
| "client_flags [a] iv =
     (if a = ''--config'' \<or> a = ''--requests'' then client_usage (''missing value for '' @ a)
      else client_usage (''unknown flag '' @ squoted a))"
| "client_flags (a # v # rest) iv =
     (if a = ''--config'' then client_flags rest (iv\<lparr>iv_config_path := v\<rparr>)
      else if a = ''--requests'' then
        (case parse_requests v of
           None \<Rightarrow> client_usage ''--requests must be a non-negative integer''
         | Some n \<Rightarrow> client_flags rest (iv\<lparr>iv_requests := n, iv_has_requests := True\<rparr>))
      else client_usage (''unknown flag '' @ squoted a))"

text \<open>What \<open>main\<close> is about to do once it has its configuration.\<close>

datatype client_action =
    Do_put string nat string
  | Do_get string nat string string
  | Do_load string nat string nat int

definition client_usage_text :: string where
  "client_usage_text =
     ''usage: client <put <local-path>|get <name>|load <workload-dir> --requests N> [--config <path>]''"

definition client_plan :: "(string \<Rightarrow> cfg_file outcome) \<Rightarrow> string list \<Rightarrow> client_action outcome" where
  "client_plan config argv =
     (case argv of
        op # target # flags \<Rightarrow>
          andthen (client_flags flags \<lparr>iv_config_path = ''config.json'', iv_has_requests = False, iv_requests = 0\<rparr>) (\<lambda>iv.
          if op = ''load'' \<and> \<not> iv_has_requests iv then client_usage ''--requests is required for load''
          else if op \<noteq> ''load'' \<and> iv_has_requests iv then client_usage ''--requests is only valid with load''
          else
            andthen (config (iv_config_path iv)) (\<lambda>cfg.
            let ip = sc_ip (cf_server cfg); port = sc_port (cf_server cfg) in
            if op = ''put'' then Inr (Do_put ip port target)
            else if op = ''get'' then Inr (Do_get ip port target target)
            else if op = ''load'' then Inr (Do_load ip port target (iv_requests iv) (sc_client_threads (cf_server cfg)))
            else client_usage (''unknown operation '' @ squoted op @ '' (expected put, get, or load)'')))
      | _ \<Rightarrow> client_usage client_usage_text)"

text \<open>Exit status and message of a put or a get.\<close>

definition put_status :: "exchange_result \<Rightarrow> nat \<times> string" where
  "put_status r = (if ex_ok r then (0, []) else (1, ''put failed: '' @ ex_error r))"

definition get_status :: "exchange_result \<Rightarrow> nat \<times> string" where
  "get_status r = (if ex_ok r then (0, []) else (1, ''get failed: '' @ ex_error r))"

section \<open>Numbers\<close>

lemma parse_requests_nat_str: "n \<le> u64_max \<Longrightarrow> parse_requests (nat_str n) = Some n"
  by (simp add: parse_requests_def strtoull_nat_str)

text \<open>\<open>strtoull\<close> takes a sign: one less than zero requests is the largest number of them.\<close>

lemma parse_requests_negative: "parse_requests ''-1'' = Some u64_max"
  by (simp add: parse_requests_def strtoull_def strto_parts_def is_space_def is_digit_def ord_def digit_val_def
      dec_val_def u64_max_def)

end
