(* ===== verification/Load_Client.thy ===== *)
theory Load_Client
  imports Client_Main Transition "HOL-Library.Multiset" "HOL-Library.List_Lexorder" "HOL-Library.Char_ord"
begin

text \<open>
  \<open>src/client/load.cpp\<close>: the load generator. Its threads share two atomic counters; one step is one
  \<open>fetch_add\<close> of the request counter or one whole request, so a run is any interleaving of such steps.
  Every request meets a \<open>world\<close> of its own (see \<open>Client_Ops\<close>), and the random choices of file and of
  operation are free.
\<close>

section \<open>The workload\<close>

definition base_name :: "string \<Rightarrow> string" where
  "base_name path = (if SLASH \<in> set path then rev (takeWhile (\<lambda>c. c \<noteq> SLASH) (rev path)) else path)"

text \<open>\<open>entries\<close> is what \<open>readdir\<close> yields, \<open>None\<close> when the directory cannot be opened.\<close>

definition list_workload_files :: "(string \<Rightarrow> string list option) \<Rightarrow> (string \<Rightarrow> bool) \<Rightarrow> string \<Rightarrow> string list" where
  "list_workload_files entries is_reg dir =
     (case entries dir of
        None \<Rightarrow> []
      | Some names \<Rightarrow>
          sort (filter is_reg (map (\<lambda>name. dir @ ''/'' @ name) (filter (\<lambda>n. n \<noteq> ''.'' \<and> n \<noteq> ''..'') names))))"

section \<open>State and steps\<close>

datatype client_thread = Looping | Working nat | Stopped

record load_state =
  ls_counter :: nat
  ls_failures :: nat
  ls_threads :: "client_thread list"
  ls_results :: "(nat \<times> exchange_result) list"
  ls_log :: "string list"
  ls_aborted :: bool

text \<open>\<open>counter->fetch_add (1)\<close> and the test that follows it.\<close>

definition take_index :: "nat \<Rightarrow> nat \<Rightarrow> load_state \<Rightarrow> load_state" where
  "take_index n t s =
     (let idx = ls_counter s in
      s\<lparr>ls_counter := u64_add idx 1, ls_threads := (ls_threads s)[t := if idx \<ge> n then Stopped else Working idx]\<rparr>)"

definition worker_request :: "world \<Rightarrow> string \<Rightarrow> nat \<Rightarrow> string \<Rightarrow> bool \<Rightarrow> exchange_result option" where
  "worker_request w ip port path heads =
     (if heads then fst (get_file w ip port (base_name path) ''/dev/null'') else put_file w ip port path)"

definition note_result :: "nat \<Rightarrow> nat \<Rightarrow> exchange_result \<Rightarrow> load_state \<Rightarrow> load_state" where
  "note_result t idx r s =
     (let s1 = s\<lparr>ls_threads := (ls_threads s)[t := Looping], ls_results := ls_results s @ [(idx, r)]\<rparr> in
      if ex_ok r then s1
      else s1\<lparr>ls_failures := u64_add (ls_failures s) 1,
              ls_log := ls_log s @ [''load: request failed: '' @ ex_error r]\<rparr>)"

text \<open>
  The third step is an exception that nothing catches: the client's buffer for a response cannot be
  allocated, and the process ends.
\<close>

inductive load_step :: "nat \<Rightarrow> string list \<Rightarrow> string \<Rightarrow> nat \<Rightarrow> load_state \<Rightarrow> load_state \<Rightarrow> bool"
  for n files ip port where
  take_step: "\<not> ls_aborted s \<Longrightarrow> t < length (ls_threads s) \<Longrightarrow> ls_threads s ! t = Looping \<Longrightarrow>
     load_step n files ip port s (take_index n t s)"
| serve_step: "\<not> ls_aborted s \<Longrightarrow> t < length (ls_threads s) \<Longrightarrow> ls_threads s ! t = Working idx \<Longrightarrow> path \<in> set files \<Longrightarrow>
     worker_request w ip port path heads = Some r \<Longrightarrow> load_step n files ip port s (note_result t idx r s)"
| crash_step: "\<not> ls_aborted s \<Longrightarrow> t < length (ls_threads s) \<Longrightarrow> ls_threads s ! t = Working idx \<Longrightarrow> path \<in> set files \<Longrightarrow>
     worker_request w ip port path heads = None \<Longrightarrow> load_step n files ip port s (s\<lparr>ls_aborted := True\<rparr>)"

inductive_cases load_stepE: "load_step n files ip port s s'"

section \<open>run_load\<close>

text \<open>The seeding uploads, one world each; \<open>None\<close> when the process ends.\<close>

fun seed_loop :: "(nat \<Rightarrow> world) \<Rightarrow> string \<Rightarrow> nat \<Rightarrow> string list \<Rightarrow> nat \<Rightarrow> string list \<Rightarrow> (nat \<times> string list) option" where
  "seed_loop ws ip port [] failures msgs = Some (failures, msgs)"
| "seed_loop ws ip port (path # paths) failures msgs =
     (case put_file (ws 0) ip port path of
        None \<Rightarrow> None
      | Some r \<Rightarrow>
          if ex_ok r then seed_loop (\<lambda>i. ws (Suc i)) ip port paths failures msgs
          else seed_loop (\<lambda>i. ws (Suc i)) ip port paths (u64_add failures 1)
            (msgs @ [''load: seeding failed for '' @ squoted path @ '': '' @ ex_error r]))"

definition n_threads :: "int \<Rightarrow> nat" where
  "n_threads client_threads = nat (if client_threads > 0 then client_threads else 1)"

definition load_start :: "nat \<Rightarrow> string list \<Rightarrow> int \<Rightarrow> load_state" where
  "load_start failures msgs client_threads =
     \<lparr>ls_counter = 0, ls_failures = failures, ls_threads = replicate (n_threads client_threads) Looping,
      ls_results = [], ls_log = msgs, ls_aborted = False\<rparr>"

definition load_begin ::
  "(nat \<Rightarrow> world) \<Rightarrow> string \<Rightarrow> nat \<Rightarrow> string \<Rightarrow> string list \<Rightarrow> int \<Rightarrow> load_state option outcome" where
  "load_begin ws ip port dir files client_threads =
     (if files = [] then Inl (''error: workload directory '' @ squoted dir @ '' is missing or has no files'')
      else Inr (case seed_loop ws ip port files 0 [] of
                  None \<Rightarrow> None
                | Some (failures, msgs) \<Rightarrow> Some (load_start failures msgs client_threads)))"

text \<open>All threads joined; what \<open>run_load\<close> then returns.\<close>

definition load_joined :: "load_state \<Rightarrow> bool" where
  "load_joined s \<longleftrightarrow> (\<forall>t \<in> set (ls_threads s). t = Stopped)"

definition load_result :: "load_state \<Rightarrow> bool" where
  "load_result s \<longleftrightarrow> ls_failures s = 0"

section \<open>Invariant\<close>

lemma sum_list_update_add:
  fixes f :: "'a \<Rightarrow> 'b :: comm_monoid_add"
  assumes "i < length xs"
  shows "sum_list (map f (xs[i := x])) + f (xs ! i) = sum_list (map f xs) + f x"
  using assms
proof (induction xs arbitrary: i)
  case (Cons y ys)
  then show ?case by (cases i) (auto simp: ac_simps)
qed simp

fun held_index :: "client_thread \<Rightarrow> nat multiset" where
  "held_index (Working i) = {#i#}"
| "held_index _ = {#}"

fun stopped_one :: "client_thread \<Rightarrow> nat" where
  "stopped_one Stopped = 1"
| "stopped_one _ = 0"

fun effort :: "client_thread \<Rightarrow> nat" where
  "effort Looping = 1"
| "effort (Working i) = 2"
| "effort Stopped = 0"

abbreviation held :: "load_state \<Rightarrow> nat multiset" where
  "held s \<equiv> sum_list (map held_index (ls_threads s))"

abbreviation n_stopped :: "load_state \<Rightarrow> nat" where
  "n_stopped s \<equiv> sum_list (map stopped_one (ls_threads s))"

lemma n_stopped_le: "sum_list (map stopped_one ts) \<le> length ts"
proof (induction ts)
  case (Cons t ts)
  then show ?case by (cases t) auto
qed simp

lemma all_stopped_iff: "(\<forall>t \<in> set ts. t = Stopped) \<longleftrightarrow> sum_list (map stopped_one ts) = length ts"
proof (induction ts)
  case (Cons t ts)
  with n_stopped_le [of ts] show ?case by (cases t) auto
qed simp

lemma all_stopped_held: "\<forall>t \<in> set ts. t = Stopped \<Longrightarrow> sum_list (map held_index ts) = {#}"
  by (induction ts) auto

definition load_inv :: "nat \<Rightarrow> nat \<Rightarrow> nat \<Rightarrow> load_state \<Rightarrow> bool" where
  "load_inv n f0 k s \<longleftrightarrow>
     length (ls_threads s) = k \<and>
     mset (map fst (ls_results s)) + held s = mset [0..<min n (ls_counter s)] \<and>
     ls_counter s - n = n_stopped s \<and>
     ls_failures s = f0 + length (filter (\<lambda>(i, r). \<not> ex_ok r) (ls_results s))"

lemma load_inv_results:
  assumes "load_inv n f0 k s"
  shows "length (ls_results s) \<le> n"
proof -
  have "size (mset (map fst (ls_results s)) + held s) = min n (ls_counter s)"
    using assms by (simp add: load_inv_def)
  then show ?thesis by simp
qed

lemma load_inv_start: "load_inv n f0 (n_threads c) (load_start f0 msgs c)"
proof -
  have "sum_list (map held_index (replicate m Looping)) = {#}" "sum_list (map stopped_one (replicate m Looping)) = 0" for m
    by (induction m) auto
  then show ?thesis by (simp add: load_inv_def load_start_def)
qed

lemma load_inv_take:
  assumes "load_inv n f0 k s" and "n + k \<le> u64_max" and "t < length (ls_threads s)" and "ls_threads s ! t = Looping"
  shows "load_inv n f0 k (take_index n t s)"
proof -
  let ?x = "if ls_counter s \<ge> n then Stopped else Working (ls_counter s)"
  have "n_stopped s < k"
  proof -
    have "\<not> (\<forall>t \<in> set (ls_threads s). t = Stopped)" using assms(3,4) nth_mem by fastforce
    with n_stopped_le [of "ls_threads s"] all_stopped_iff [of "ls_threads s"] assms(1)
    show ?thesis by (simp add: load_inv_def)
  qed
  with assms(1,2) have c: "u64_add (ls_counter s) 1 = Suc (ls_counter s)"
    by (subst u64_add_exact) (auto simp: load_inv_def)
  have "held (take_index n t s) = held s + held_index ?x" "n_stopped (take_index n t s) = n_stopped s + stopped_one ?x"
    using sum_list_update_add [OF assms(3), of held_index ?x] sum_list_update_add [OF assms(3), of stopped_one ?x] assms(4)
    by (simp_all add: take_index_def Let_def)
  moreover have "mset [0..<min n (ls_counter s)] + held_index ?x = mset [0..<min n (Suc (ls_counter s))]"
    by (simp add: atLeast0_lessThan_Suc)
  ultimately show ?thesis
    using assms(1) c by (auto simp: load_inv_def take_index_def Let_def ac_simps)
qed

lemma note_result_fields [simp]:
  "ls_threads (note_result t idx r s) = (ls_threads s)[t := Looping]"
  "ls_results (note_result t idx r s) = ls_results s @ [(idx, r)]"
  "ls_counter (note_result t idx r s) = ls_counter s"
  "ls_aborted (note_result t idx r s) = ls_aborted s"
  "ls_failures (note_result t idx r s) = (if ex_ok r then ls_failures s else u64_add (ls_failures s) 1)"
  by (simp_all add: note_result_def Let_def)

lemma load_inv_note:
  assumes "load_inv n f0 k s" and "f0 + n \<le> u64_max" and "t < length (ls_threads s)" and "ls_threads s ! t = Working idx"
  shows "load_inv n f0 k (note_result t idx r s)"
proof -
  let ?bad = "\<lambda>(i :: nat, r). \<not> ex_ok r" and ?s = "note_result t idx r s"
  have inv: "length (ls_threads s) = k" "mset (map fst (ls_results s)) + held s = mset [0..<min n (ls_counter s)]"
    "ls_counter s - n = n_stopped s" "ls_failures s = f0 + length (filter ?bad (ls_results s))"
    using assms(1) by (simp_all add: load_inv_def)
  have h: "held s = held ?s + {#idx#}" and st: "n_stopped ?s = n_stopped s"
    using sum_list_update_add [OF assms(3), of held_index Looping] sum_list_update_add [OF assms(3), of stopped_one Looping] assms(4)
    by simp_all
  have all: "mset (map fst (ls_results ?s)) + held ?s = mset [0..<min n (ls_counter ?s)]"
    using inv(2) unfolding h by simp
  have "length (ls_results s) < n"
  proof -
    have "size (mset (map fst (ls_results s)) + held s) \<le> n" unfolding inv(2) by simp
    then show ?thesis unfolding h by simp
  qed
  with length_filter_le [of ?bad "ls_results s"] assms(2) have "length (filter ?bad (ls_results s)) + f0 < u64_max"
    by linarith
  then have "ls_failures ?s = f0 + length (filter ?bad (ls_results ?s))" using inv(4) by simp
  with inv st all show ?thesis unfolding load_inv_def by simp
qed

section \<open>Runs\<close>

text \<open>A run starts with \<open>f0\<close> failed uploads of the seeding, with no overflow of the counters in sight.\<close>

definition load_init :: "nat \<Rightarrow> nat \<Rightarrow> int \<Rightarrow> load_state \<Rightarrow> bool" where
  "load_init n f0 c s \<longleftrightarrow> (\<exists>msgs. s = load_start f0 msgs c) \<and> f0 + n \<le> u64_max \<and> n + n_threads c \<le> u64_max"

definition load_ready :: "nat \<Rightarrow> nat \<Rightarrow> int \<Rightarrow> load_state \<Rightarrow> bool" where
  "load_ready n f0 c s \<longleftrightarrow> load_inv n f0 (n_threads c) s \<and> f0 + n \<le> u64_max \<and>
     n + n_threads c \<le> u64_max"

definition load_fin :: "load_state \<Rightarrow> bool" where
  "load_fin s \<longleftrightarrow> ls_aborted s \<or> load_joined s"

definition load_work :: "nat \<Rightarrow> load_state \<Rightarrow> nat" where
  "load_work n s = (if ls_aborted s then 0 else Suc (2 * (n - ls_counter s) + sum_list (map effort (ls_threads s))))"

lemma load_ready_step:
  assumes "load_ready n f0 c s" and "load_step n files ip port s s'"
  shows "load_ready n f0 c s'"
  using assms(2)
proof cases
  case (take_step t)
  with assms(1) load_inv_take show ?thesis by (auto simp: load_ready_def)
next
  case (serve_step t idx path w heads r)
  with assms(1) load_inv_note show ?thesis by (auto simp: load_ready_def)
next
  case (crash_step t idx path w heads)
  with assms(1) show ?thesis by (simp add: load_ready_def load_inv_def)
qed

lemma load_work_step:
  assumes "load_ready n f0 c s" and "load_step n files ip port s s'"
  shows "load_work n s' < load_work n s"
  using assms(2)
proof cases
  case (take_step t)
  have "u64_add (ls_counter s) 1 = Suc (ls_counter s)"
  proof -
    have "n_stopped s \<noteq> length (ls_threads s)" using take_step(3,4) all_stopped_iff [of "ls_threads s"] nth_mem by fastforce
    with n_stopped_le [of "ls_threads s"] assms(1) show ?thesis
      by (subst u64_add_exact) (auto simp: load_ready_def load_inv_def)
  qed
  with take_step sum_list_update_add [OF take_step(3), of effort "if ls_counter s \<ge> n then Stopped else Working (ls_counter s)"]
  show ?thesis by (auto simp: load_work_def take_index_def Let_def)
next
  case (serve_step t idx path w heads r)
  with sum_list_update_add [OF serve_step(3), of effort Looping] show ?thesis
    by (auto simp: load_work_def)
next
  case (crash_step t idx path w heads)
  then show ?thesis by (simp add: load_work_def)
qed

lemma load_step_exists:
  assumes "\<not> load_fin s" and "files \<noteq> []"
  shows "\<exists>s'. load_step n files ip port s s'"
proof -
  from assms(1) obtain t where t: "\<not> ls_aborted s" "t < length (ls_threads s)" "ls_threads s ! t \<noteq> Stopped"
    by (auto simp: load_fin_def load_joined_def in_set_conv_nth)
  from assms(2) have f: "hd files \<in> set files" by simp
  show ?thesis
  proof (cases "ls_threads s ! t")
    case (Working idx)
    fix w :: world
    show ?thesis
    proof (cases "worker_request w ip port (hd files) True")
      case None
      with load_step.crash_step [OF t(1,2) Working f] show ?thesis by blast
    next
      case (Some r)
      with load_step.serve_step [OF t(1,2) Working f] show ?thesis by blast
    qed
  next
    case Looping
    from load_step.take_step [OF t(1,2) this] show ?thesis by blast
  qed (use t(3) in blast)
qed

interpretation load_run: invariance "load_init n f0 c" "load_step n files ip port" "load_ready n f0 c"
  for n f0 :: nat and c :: int and files :: "string list" and ip :: string and port :: nat
proof (unfold_locales, goal_cases)
  case (1 s)
  then show ?case by (auto simp: load_init_def load_ready_def load_inv_start)
next
  case (2 s s')
  then show ?case by (auto intro: load_ready_step)
qed

interpretation load_end: progress "load_step n files ip port" "\<lambda>s. load_ready n f0 c s \<and> files \<noteq> []" load_fin "load_work n"
  for n f0 :: nat and c :: int and files :: "string list" and ip :: string and port :: nat
proof (unfold_locales, goal_cases)
  case (1 s s')
  then show ?case by (auto intro: load_ready_step)
next
  case (2 s s')
  then show ?case by (auto intro: load_work_step)
next
  case (3 s)
  then show ?case by (auto intro: load_step_exists)
qed

text \<open>A run in which no process ends early can be continued until every thread has stopped.\<close>

definition calm_world :: world where
  "calm_world = \<lparr>w_socket = False, w_ip_valid = \<lambda>_. False, w_reachable = \<lambda>_ _. False,
     w_conn = \<lparr>out = [], send_script = [], send_calls = 0, inbox = []\<rparr>, w_local = \<lambda>_. None, w_alloc = \<lambda>_. True,
     w_writable = \<lambda>_. False, w_disk = 0\<rparr>"

lemma load_step_calm:
  assumes "\<not> ls_aborted s" and "\<not> load_joined s" and "files \<noteq> []"
  shows "\<exists>s'. load_step n files ip port s s' \<and> \<not> ls_aborted s'"
proof -
  from assms(2) obtain t where t: "t < length (ls_threads s)" "ls_threads s ! t \<noteq> Stopped"
    by (auto simp: load_joined_def in_set_conv_nth)
  from assms(3) have f: "hd files \<in> set files" by simp
  show ?thesis
  proof (cases "ls_threads s ! t")
    case (Working idx)
    have "worker_request calm_world ip port (hd files) False =
        Some (ex_fail (''cannot open local file '' @ quoted (hd files)))"
      by (simp add: worker_request_def put_file_def calm_world_def)
    from load_step.serve_step [OF assms(1) t(1) Working f this] assms(1) show ?thesis by fastforce
  next
    case Looping
    from load_step.take_step [OF assms(1) t(1) this] have "load_step n files ip port s (take_index n t s)" .
    moreover have "\<not> ls_aborted (take_index n t s)" using assms(1) by (simp add: take_index_def Let_def)
    ultimately show ?thesis by blast
  qed (use t(2) in blast)
qed

interpretation load_calm: progress "\<lambda>s s'. load_step n files ip port s s' \<and> \<not> ls_aborted s'"
  "\<lambda>s. load_ready n f0 c s \<and> files \<noteq> [] \<and> \<not> ls_aborted s" load_joined "load_work n"
  for n f0 :: nat and c :: int and files :: "string list" and ip :: string and port :: nat
proof (unfold_locales, goal_cases)
  case (1 s s')
  then show ?case by (auto intro: load_ready_step)
next
  case (2 s s')
  then show ?case by (auto intro: load_work_step)
next
  case (3 s)
  then show ?case by (auto intro: load_step_calm)
qed

lemma load_work_le: "load_ready n f0 c s \<Longrightarrow> load_work n s \<le> 2 * n + 2 * n_threads c + 1"
proof -
  have "sum_list (map effort ts) \<le> 2 * length ts" for ts
  proof (induction ts)
    case (Cons t ts)
    then show ?case by (cases t) auto
  qed simp
  from this [of "ls_threads s"] show "load_ready n f0 c s \<Longrightarrow> load_work n s \<le> 2 * n + 2 * n_threads c + 1"
    by (auto simp: load_work_def load_ready_def load_inv_def)
qed

section \<open>Properties\<close>

lemma load_joined_inv:
  assumes "load_ready n f0 c s" and "load_joined s"
  shows "mset (map fst (ls_results s)) = mset [0..<n]" and "ls_counter s = n + n_threads c"
    and "ls_failures s = f0 + length (filter (\<lambda>(i, r). \<not> ex_ok r) (ls_results s))"
proof -
  have k: "n_stopped s = n_threads c" and held: "held s = {#}"
    using assms all_stopped_iff [of "ls_threads s"] all_stopped_held [of "ls_threads s"]
    by (auto simp: load_joined_def load_ready_def load_inv_def)
  then have "0 < n_stopped s" by (simp add: n_threads_def)
  with assms(1) k have "ls_counter s = n + n_threads c" by (auto simp: load_ready_def load_inv_def)
  with assms(1) held show "mset (map fst (ls_results s)) = mset [0..<n]" "ls_counter s = n + n_threads c"
    "ls_failures s = f0 + length (filter (\<lambda>(i, r). \<not> ex_ok r) (ls_results s))"
    by (auto simp: load_ready_def load_inv_def)
qed

text \<open>
  C32. The load client issues exactly the requests it was asked for, whatever the interleaving of its
  threads: when all of them have stopped, the finished requests carry the indices \<open>0\<close> to \<open>n - 1\<close>, each
  once, and \<open>run_load\<close> reports success exactly when the seeding uploads and all those requests
  succeeded. No counter wraps around as long as \<open>n\<close> plus the number of threads fits 64 bits.
\<close>

theorem load_issues_all:
  assumes "reach (load_init n f0 c) (load_step n files ip port) s" and "load_joined s"
  shows "mset (map fst (ls_results s)) = mset [0..<n] \<and>
    (load_result s \<longleftrightarrow> f0 = 0 \<and> (\<forall>(i, r) \<in> set (ls_results s). ex_ok r))"
  using load_joined_inv [OF load_run.inv_reach [OF assms(1)] assms(2)]
  by (auto simp: load_result_def filter_empty_conv)

text \<open>
  C33. The load client ends: from every reachable state in which the process is alive the threads can be
  run until all have stopped, and no run, under any interleaving, has more than two steps for each
  request and each thread (and one more) before the threads have stopped or an exception has ended
  the process.
\<close>

theorem load_ends:
  assumes "reach (load_init n f0 c) (load_step n files ip port) s" and "files \<noteq> []" and "\<not> ls_aborted s"
  shows "(\<exists>s'. (load_step n files ip port)\<^sup>*\<^sup>* s s' \<and> load_joined s' \<and> \<not> ls_aborted s') \<and>
    (\<forall>k s'. ((\<lambda>s s'. \<not> load_fin s \<and> load_step n files ip port s s') ^^ k) s s' \<longrightarrow> k \<le> 2 * n + 2 * n_threads c + 1)"
proof (intro conjI allI impI)
  have r: "load_ready n f0 c s \<and> files \<noteq> []" using load_run.inv_reach [OF assms(1)] assms(2) by blast
  with load_calm.reaches_fin [of n f0 c s files ip port] assms(3) obtain s' where
    s': "(\<lambda>s s'. load_step n files ip port s s' \<and> \<not> ls_aborted s')\<^sup>*\<^sup>* s s'" "load_joined s'" "\<not> ls_aborted s'" by auto
  have "(load_step n files ip port)\<^sup>*\<^sup>* s s'" by (rule mono_rtranclp [rule_format, OF _ s'(1)]) blast
  with s' show "\<exists>s'. (load_step n files ip port)\<^sup>*\<^sup>* s s' \<and> load_joined s' \<and> \<not> ls_aborted s'" by blast
  fix k s'
  assume "((\<lambda>s s'. \<not> load_fin s \<and> load_step n files ip port s s') ^^ k) s s'"
  from load_end.run_bounded [OF this r] load_work_le [of n f0 c s] r show "k \<le> 2 * n + 2 * n_threads c + 1" by simp
qed

section \<open>A run of one thread\<close>

text \<open>One request, one thread, one file that cannot be opened: the request fails and is reported.\<close>

definition tiny_end :: load_state where
  "tiny_end = take_index 1 0 (note_result 0 0 (ex_fail (''cannot open local file '' @ quoted ''w/f''))
     (take_index 1 0 (load_start 0 [] 1)))"

lemma tiny_start: "reach (load_init 1 0 1) (load_step 1 [''w/f''] ip port) (load_start 0 [] 1)"
  by (rule reach_init) (auto simp: load_init_def u64_max_def n_threads_def)

lemma tiny_run: "reach (load_init 1 0 1) (load_step 1 [''w/f''] ip port) tiny_end"
proof -
  let ?R = "reach (load_init 1 0 1) (load_step 1 [''w/f''] ip port)"
  let ?s0 = "load_start 0 [] 1" and ?r = "ex_fail (''cannot open local file '' @ quoted ''w/f'')"
  let ?s1 = "take_index 1 0 ?s0"
  let ?s2 = "note_result 0 0 ?r ?s1"
  have f: "\<not> ls_aborted ?s0" "ls_threads ?s0 = [Looping]" "ls_counter ?s0 = 0"
    by (simp_all add: load_start_def n_threads_def)
  then have "load_step 1 [''w/f''] ip port ?s0 ?s1" by (intro load_step.take_step) simp_all
  with tiny_start have s1: "?R ?s1" by (rule reach_step)
  have g: "\<not> ls_aborted ?s1" "ls_threads ?s1 = [Working 0]" using f by (simp_all add: take_index_def)
  have "worker_request calm_world ip port ''w/f'' False = Some ?r"
    by (simp add: worker_request_def put_file_def calm_world_def)
  then have "load_step 1 [''w/f''] ip port ?s1 ?s2" using g by (intro load_step.serve_step) simp_all
  with s1 have s2: "?R ?s2" by (rule reach_step)
  have "load_step 1 [''w/f''] ip port ?s2 (take_index 1 0 ?s2)" using g by (intro load_step.take_step) simp_all
  with s2 have "?R (take_index 1 0 ?s2)" by (rule reach_step)
  then show ?thesis by (simp only: tiny_end_def)
qed

lemma tiny_joined: "load_joined tiny_end" "ls_failures tiny_end = 1"
  by (simp_all add: tiny_end_def load_joined_def take_index_def load_start_def n_threads_def u64_max_def ex_fail_def)

theorem load_issues_all_witness: "map fst (ls_results tiny_end) = [0] \<and> \<not> load_result tiny_end"
proof -
  have "mset (map fst (ls_results tiny_end)) = mset [0]"
    using load_issues_all [OF tiny_run [of "[]" 0] tiny_joined(1)] by simp
  then show ?thesis using tiny_joined(2) by (cases "ls_results tiny_end") (auto simp: load_result_def)
qed

theorem load_ends_witness: "\<exists>s'. (load_step 1 [''w/f''] ''127.0.0.1'' 9100)\<^sup>*\<^sup>* (load_start 0 [] 1) s' \<and> load_joined s'"
  using load_ends [OF tiny_start [of "''127.0.0.1''" 9100]] by (auto simp: load_start_def)

end
