(* ===== verification/Py_Base.thy ===== *)
theory Py_Base
  imports Prelude Complex_Main
begin

text \<open>
  What the analysis scripts (\<open>scripts/*.py\<close>) use of Python itself: exceptions as values, text
  methods, \<open>int\<close> on text, iteration over the lines of a file, slices, and floats.

  Text is a list of code points below 256 (\<^typ>\<open>char\<close>); file decoding is the identity, which it
  is for the ASCII files the server and the scripts write.
\<close>

section \<open>Exceptions\<close>

datatype py_error = ValueError | KeyError | TypeError | AttributeError | ZeroDivisionError
  | OverflowError | CsvError | FileNotFoundError | SystemExit string

type_synonym 'a py = "py_error + 'a"

fun py_bind :: "'a py \<Rightarrow> ('a \<Rightarrow> 'b py) \<Rightarrow> 'b py" where
  "py_bind (Inl e) f = Inl e"
| "py_bind (Inr x) f = f x"

lemma py_bind_Inr: "py_bind m f = Inr y \<longleftrightarrow> (\<exists>x. m = Inr x \<and> f x = Inr y)"
  by (cases m) auto

text \<open>A comprehension whose elements may raise: the first exception wins.\<close>

fun py_map :: "('a \<Rightarrow> 'b py) \<Rightarrow> 'a list \<Rightarrow> 'b list py" where
  "py_map f [] = Inr []"
| "py_map f (x # xs) = py_bind (f x) (\<lambda>y. py_bind (py_map f xs) (\<lambda>ys. Inr (y # ys)))"

lemma py_map_Inr: "py_map f xs = Inr ys \<longleftrightarrow> list_all2 (\<lambda>x y. f x = Inr y) xs ys"
  by (induction xs arbitrary: ys) (auto simp: py_bind_Inr list_all2_Cons1)

lemma py_map_ok: "(\<And>x. x \<in> set xs \<Longrightarrow> f x = Inr (g x)) \<Longrightarrow> py_map f xs = Inr (map g xs)"
  by (induction xs) auto

lemma py_map_mem: "py_map f xs = Inr ys \<Longrightarrow> y \<in> set ys \<Longrightarrow> \<exists>x \<in> set xs. f x = Inr y"
  by (induction xs arbitrary: ys) (auto simp: py_bind_Inr)

lemma py_map_map: "py_map f (map g xs) = py_map (\<lambda>x. f (g x)) xs"
  by (induction xs) auto

fun py_filter :: "('a \<Rightarrow> bool py) \<Rightarrow> 'a list \<Rightarrow> 'a list py" where
  "py_filter p [] = Inr []"
| "py_filter p (x # xs) =
     py_bind (p x) (\<lambda>b. py_bind (py_filter p xs) (\<lambda>ys. Inr (if b then x # ys else ys)))"

lemma py_filter_ok: "(\<And>x. x \<in> set xs \<Longrightarrow> p x = Inr (q x)) \<Longrightarrow> py_filter p xs = Inr (filter q xs)"
  by (induction xs) auto

lemma py_filter_Inr:
  "py_filter p xs = Inr ys \<Longrightarrow> (\<forall>x \<in> set xs. p x = Inr (projr (p x))) \<and> ys = filter (\<lambda>x. projr (p x)) xs"
  by (induction xs arbitrary: ys) (auto simp: py_bind_Inr)

section \<open>Text\<close>

text \<open>\<open>str.isspace\<close> below 256, which is what \<open>str.strip\<close> removes and \<open>\S\<close> excludes.\<close>

definition py_space :: "char \<Rightarrow> bool" where
  "py_space c \<longleftrightarrow> (9 \<le> ord c \<and> ord c \<le> 13) \<or> (28 \<le> ord c \<and> ord c \<le> 32) \<or> ord c = 133 \<or> ord c = 160"

definition py_strip :: "string \<Rightarrow> string" where
  "py_strip s = rev (dropWhile py_space (rev (dropWhile py_space s)))"

text \<open>\<open>str.lower\<close> below 256.\<close>

definition lower_char :: "char \<Rightarrow> char" where
  "lower_char c =
     (if (65 \<le> ord c \<and> ord c \<le> 90) \<or> (192 \<le> ord c \<and> ord c \<le> 222 \<and> ord c \<noteq> 215)
      then char_of (ord c + 32) else c)"

definition py_lower :: "string \<Rightarrow> string" where
  "py_lower s = map lower_char s"

text \<open>\<open>pat in s\<close>, \<open>s.startswith (pat)\<close>, \<open>s.endswith (pat)\<close>, \<open>s.split (sep)\<close>, \<open>sep.join (xs)\<close>.\<close>

fun starts_with :: "string \<Rightarrow> string \<Rightarrow> bool" where
  "starts_with [] s = True"
| "starts_with (p # ps) [] = False"
| "starts_with (p # ps) (c # s) = (p = c \<and> starts_with ps s)"

lemma starts_with_prefix: "starts_with p s \<longleftrightarrow> prefix p s"
  by (induction p s rule: starts_with.induct) auto

definition ends_with :: "string \<Rightarrow> string \<Rightarrow> bool" where
  "ends_with p s = starts_with (rev p) (rev s)"

fun contains :: "string \<Rightarrow> string \<Rightarrow> bool" where
  "contains p [] = (p = [])"
| "contains p (c # s) = (starts_with p (c # s) \<or> contains p s)"

fun py_split :: "char \<Rightarrow> string \<Rightarrow> string list" where
  "py_split sep [] = [[]]"
| "py_split sep (c # s) =
     (if c = sep then [] # py_split sep s
      else case py_split sep s of w # ws \<Rightarrow> (c # w) # ws | [] \<Rightarrow> [[c]])"

fun py_join :: "string \<Rightarrow> string list \<Rightarrow> string" where
  "py_join sep [] = []"
| "py_join sep [x] = x"
| "py_join sep (x # y # xs) = x @ sep @ py_join sep (y # xs)"

section \<open>int on text\<close>

text \<open>Digits with single underscores between them.\<close>

fun digits_us :: "bool \<Rightarrow> string \<Rightarrow> bool" where
  "digits_us after_digit [] = after_digit"
| "digits_us after_digit (c # s) =
     (if is_digit c then digits_us True s
      else if c = CHR ''_'' \<and> after_digit then digits_us False s
      else False)"

definition py_int :: "string \<Rightarrow> int py" where
  "py_int s =
     (let t = rev (dropWhile is_space (rev (dropWhile is_space s)));
          (neg, d) = (case t of c # r \<Rightarrow> if c = CHR ''-'' then (True, r)
                        else if c = CHR ''+'' then (False, r) else (False, t) | [] \<Rightarrow> (False, []));
          ds = filter is_digit d in
      if \<not> digits_us False d \<or> length ds > 4300 then Inl ValueError
      else Inr (if neg then - int (dec_val ds) else int (dec_val ds)))"

lemma digits_us_digits: "list_all is_digit s \<Longrightarrow> digits_us b s \<longleftrightarrow> (s \<noteq> [] \<or> b)"
  by (induction b s rule: digits_us.induct) auto

lemma filter_digits: "list_all is_digit s \<Longrightarrow> filter is_digit s = s"
  by (simp add: list_all_iff)

lemma py_int_digits:
  assumes "s \<noteq> []" and "list_all is_digit s" and "length s \<le> 4300"
  shows "py_int s = Inr (int (dec_val s))"
proof -
  have space: "\<not> is_space c" if "c \<in> set s" for c
    using assms(2) that is_digit_not_space by (auto simp: list_all_iff)
  have d: "dropWhile is_space xs = xs" if "set xs \<subseteq> set s" for xs
    using that space by (cases xs) auto
  have "rev (dropWhile is_space (rev (dropWhile is_space s))) = s"
    by (simp add: d)
  moreover obtain c t where "s = c # t" "c \<noteq> CHR ''-''" "c \<noteq> CHR ''+''"
    using assms(1,2) is_digit_neq(8,9) by (cases s) auto
  ultimately show ?thesis
    using assms digits_us_digits [OF assms(2), of False] filter_digits [OF assms(2)]
    unfolding py_int_def Let_def by simp
qed

lemma py_int_nat_str [parse_simps]: "length (nat_str n) \<le> 4300 \<Longrightarrow> py_int (nat_str n) = Inr (int n)"
  using py_int_digits [of "nat_str n"] by simp

section \<open>Lines of a file\<close>

text \<open>
  Iterating over a text file: a line ends at \<open>\n\<close>, \<open>\r\n\<close> or a lone \<open>\r\<close>. With \<open>newline=""\<close> the
  ending is kept; otherwise it is translated to \<open>\n\<close>, which the callers strip.
\<close>

fun line_head :: "string \<Rightarrow> string" where
  "line_head [] = []"
| "line_head (c # s) =
     (if c = NL then [NL]
      else if c = CR then (case s of d # _ \<Rightarrow> if d = NL then [CR, NL] else [CR] | [] \<Rightarrow> [CR])
      else c # line_head s)"

lemma line_head_nonempty [simp]: "line_head s = [] \<longleftrightarrow> s = []"
  by (cases s) (auto split: list.splits)

function py_lines :: "string \<Rightarrow> string list" where
  "py_lines s = (if s = [] then [] else line_head s # py_lines (drop (length (line_head s)) s))"
  by pat_completeness auto
termination
  by (relation "measure length") (auto simp: length_greater_0_conv)

declare py_lines.simps [simp del]

lemma py_lines_Nil [simp]: "py_lines [] = []"
  by (simp add: py_lines.simps)

lemma line_head_line: "NL \<notin> set l \<Longrightarrow> CR \<notin> set l \<Longrightarrow> line_head (l @ NL # s) = l @ [NL]"
  by (induction l) auto

lemma py_lines_line:
  "NL \<notin> set l \<Longrightarrow> CR \<notin> set l \<Longrightarrow> py_lines (l @ NL # s) = (l @ [NL]) # py_lines s"
  by (subst py_lines.simps) (simp add: line_head_line)

section \<open>Slices and sorting\<close>

text \<open>\<open>xs[k:]\<close>: a negative \<open>k\<close> counts from the end, and out of range is clamped.\<close>

definition slice_from :: "'a list \<Rightarrow> int \<Rightarrow> 'a list" where
  "slice_from xs k = (if 0 \<le> k then drop (nat k) xs else drop (length xs - nat (- k)) xs)"

text \<open>\<open>sorted (xs, key=f)\<close> is stable: \<^const>\<open>sort_key\<close>.\<close>

section \<open>Floats\<close>

text \<open>
  A finite binary64 value is the rational it denotes. \<open>fl\<close> rounds to the nearest one, ties to even,
  with gradual underflow; a magnitude of \<open>2 ^ 1024\<close> or more has overflowed.
\<close>

definition round_half_even :: "rat \<Rightarrow> int" where
  "round_half_even x =
     (let f = \<lfloor>x\<rfloor>; d = x - of_int f in
      if d < 1 / 2 then f else if d > 1 / 2 then f + 1 else if even f then f else f + 1)"

fun bit_length :: "nat \<Rightarrow> nat" where
  "bit_length n = (if n = 0 then 0 else Suc (bit_length (n div 2)))"

declare bit_length.simps [simp del]

definition pow2 :: "int \<Rightarrow> rat" where
  "pow2 e = (if 0 \<le> e then 2 ^ nat e else 1 / 2 ^ nat (- e))"

text \<open>The exponent of a positive rational: \<open>2 ^ e \<le> x < 2 ^ (e + 1)\<close>.\<close>

definition exponent_of :: "rat \<Rightarrow> int" where
  "exponent_of x =
     (let (n, d) = quotient_of x; e = int (bit_length (nat n)) - int (bit_length (nat d)) in
      if pow2 e \<le> x then e else e - 1)"

definition fl :: "rat \<Rightarrow> rat" where
  "fl x =
     (if x = 0 then 0
      else let e = max (exponent_of \<bar>x\<bar> - 52) (-1074) in of_int (round_half_even (x / pow2 e)) * pow2 e)"

definition fl_overflow :: "rat \<Rightarrow> bool" where
  "fl_overflow v \<longleftrightarrow> pow2 1024 \<le> \<bar>v\<bar>"

datatype pyfloat = Fin rat | Infinite bool

text \<open>\<open>a / b\<close> on two ints, \<open>float (a)\<close> of an int, and \<open>a / b\<close> on two finite floats.\<close>

definition true_div :: "int \<Rightarrow> int \<Rightarrow> rat py" where
  "true_div a b =
     (if b = 0 then Inl ZeroDivisionError
      else let v = fl (of_int a / of_int b) in if fl_overflow v then Inl OverflowError else Inr v)"

definition float_of_int :: "int \<Rightarrow> rat py" where
  "float_of_int a = (let v = fl (of_int a) in if fl_overflow v then Inl OverflowError else Inr v)"

definition float_div :: "rat \<Rightarrow> rat \<Rightarrow> pyfloat py" where
  "float_div a b =
     (if b = 0 then Inl ZeroDivisionError
      else let v = fl (a / b) in Inr (if fl_overflow v then Infinite (v < 0) else Fin v))"

section \<open>Formatted numbers\<close>

fun pad_zero :: "nat \<Rightarrow> string \<Rightarrow> string" where
  "pad_zero w s = replicate (w - length s) (CHR ''0'') @ s"

text \<open>\<open>f"{x:.kf}"\<close>: the exact value rounded half to even in decimal.\<close>

definition fmt_fixed :: "nat \<Rightarrow> rat \<Rightarrow> string" where
  "fmt_fixed k x =
     (let n = nat (round_half_even (\<bar>x\<bar> * 10 ^ k)); sgn = (if x < 0 then ''-'' else '''') in
      if k = 0 then sgn @ nat_str n
      else sgn @ nat_str (n div 10 ^ k) @ ''.'' @ pad_zero k (nat_str (n mod 10 ^ k)))"

fun fmt_float :: "nat \<Rightarrow> pyfloat \<Rightarrow> string" where
  "fmt_float k (Fin x) = fmt_fixed k x"
| "fmt_float k (Infinite neg) = (if neg then ''-inf'' else ''inf'')"

text \<open>\<open>f"{s:w}"\<close> of a number aligns right, of text aligns left.\<close>

definition pad_left :: "nat \<Rightarrow> string \<Rightarrow> string" where
  "pad_left w s = replicate (w - length s) SP @ s"

definition pad_right :: "nat \<Rightarrow> string \<Rightarrow> string" where
  "pad_right w s = s @ replicate (w - length s) SP"

text \<open>Formatting \<open>None\<close> with a float format raises.\<close>

fun fmt_option :: "nat \<Rightarrow> rat option \<Rightarrow> string py" where
  "fmt_option k None = Inl TypeError"
| "fmt_option k (Some x) = Inr (fmt_fixed k x)"

section \<open>Programs that print\<close>

text \<open>What has been printed, and how the program ended or what it returned.\<close>

datatype out_line = Out string | Err string

type_synonym 'a run = "out_line list \<times> 'a py"

fun run_bind :: "'a run \<Rightarrow> ('a \<Rightarrow> 'b run) \<Rightarrow> 'b run" where
  "run_bind (out, Inl e) f = (out, Inl e)"
| "run_bind (out, Inr x) f = (case f x of (out', y) \<Rightarrow> (out @ out', y))"

definition say :: "string \<Rightarrow> unit run" where "say l = ([Out l], Inr ())"
definition complain :: "string \<Rightarrow> unit run" where "complain l = ([Err l], Inr ())"
definition lift_py :: "'a py \<Rightarrow> 'a run" where "lift_py m = ([], m)"

fun run_each :: "('a \<Rightarrow> unit run) \<Rightarrow> 'a list \<Rightarrow> unit run" where
  "run_each f [] = ([], Inr ())"
| "run_each f (x # xs) = run_bind (f x) (\<lambda>_. run_each f xs)"

end
