(* ===== verification/Py_Csv.thy ===== *)
theory Py_Csv
  imports Py_Base
begin

text \<open>
  Python's \<open>csv.reader\<close> in its default (excel) dialect and \<open>csv.DictReader\<close>, on which
  \<open>load_rows\<close> of \<open>scripts/common.py\<close> rests: the character automaton of the standard library, fed
  with the lines of the file and an end-of-line mark after each.
\<close>

section \<open>The reader automaton\<close>

datatype csv_state = START_RECORD | START_FIELD | IN_FIELD | IN_QUOTED | QUOTE_IN_QUOTED | EAT_CRNL

record csv_reader =
  cstate :: csv_state
  cfield :: string
  cfields :: "string list"

definition csv_start :: csv_reader where
  "csv_start = \<lparr>cstate = START_RECORD, cfield = [], cfields = []\<rparr>"

definition field_limit :: nat where "field_limit = 131072"

definition save_field :: "csv_reader \<Rightarrow> csv_reader" where
  "save_field r = r\<lparr>cfields := cfields r @ [cfield r], cfield := []\<rparr>"

definition add_char :: "char \<Rightarrow> csv_reader \<Rightarrow> csv_reader py" where
  "add_char c r =
     (if length (cfield r) \<ge> field_limit then Inl CsvError else Inr (r\<lparr>cfield := cfield r @ [c]\<rparr>))"

text \<open>\<open>None\<close> is the end-of-line mark.\<close>

definition is_nl :: "char option \<Rightarrow> bool" where
  "is_nl c \<longleftrightarrow> c = None \<or> c = Some NL \<or> c = Some CR"

definition after_nl :: "char option \<Rightarrow> csv_state" where
  "after_nl c = (if c = None then START_RECORD else EAT_CRNL)"

definition start_field :: "char option \<Rightarrow> csv_reader \<Rightarrow> csv_reader py" where
  "start_field c r =
     (if is_nl c then Inr ((save_field r)\<lparr>cstate := after_nl c\<rparr>)
      else if c = Some QUOTE then Inr (r\<lparr>cstate := IN_QUOTED\<rparr>)
      else if c = Some COMMA then Inr ((save_field r)\<lparr>cstate := START_FIELD\<rparr>)
      else py_bind (add_char (the c) r) (\<lambda>r. Inr (r\<lparr>cstate := IN_FIELD\<rparr>)))"

definition csv_char :: "char option \<Rightarrow> csv_reader \<Rightarrow> csv_reader py" where
  "csv_char c r =
     (case cstate r of
        START_RECORD \<Rightarrow>
          if c = None then Inr r
          else if is_nl c then Inr (r\<lparr>cstate := EAT_CRNL\<rparr>)
          else start_field c r
      | START_FIELD \<Rightarrow> start_field c r
      | IN_FIELD \<Rightarrow>
          if is_nl c then Inr ((save_field r)\<lparr>cstate := after_nl c\<rparr>)
          else if c = Some COMMA then Inr ((save_field r)\<lparr>cstate := START_FIELD\<rparr>)
          else add_char (the c) r
      | IN_QUOTED \<Rightarrow>
          if c = None then Inr r
          else if c = Some QUOTE then Inr (r\<lparr>cstate := QUOTE_IN_QUOTED\<rparr>)
          else add_char (the c) r
      | QUOTE_IN_QUOTED \<Rightarrow>
          if c = Some QUOTE then py_bind (add_char QUOTE r) (\<lambda>r. Inr (r\<lparr>cstate := IN_QUOTED\<rparr>))
          else if c = Some COMMA then Inr ((save_field r)\<lparr>cstate := START_FIELD\<rparr>)
          else if is_nl c then Inr ((save_field r)\<lparr>cstate := after_nl c\<rparr>)
          else py_bind (add_char (the c) r) (\<lambda>r. Inr (r\<lparr>cstate := IN_FIELD\<rparr>))
      | EAT_CRNL \<Rightarrow>
          if c = Some NL \<or> c = Some CR then Inr r
          else if c = None then Inr (r\<lparr>cstate := START_RECORD\<rparr>)
          else Inl CsvError)"

fun csv_chars :: "char option list \<Rightarrow> csv_reader \<Rightarrow> csv_reader py" where
  "csv_chars [] r = Inr r"
| "csv_chars (c # cs) r = py_bind (csv_char c r) (csv_chars cs)"

definition csv_line :: "string \<Rightarrow> csv_reader \<Rightarrow> csv_reader py" where
  "csv_line l r = csv_chars (map Some l @ [None]) r"

text \<open>
  Records: a record ends when a line leaves the automaton in \<open>START_RECORD\<close>; a quoted field that is
  still open at the end of the file is closed there.
\<close>

fun csv_records :: "string list \<Rightarrow> csv_reader \<Rightarrow> string list list py" where
  "csv_records [] r =
     (if cfield r \<noteq> [] \<or> cstate r = IN_QUOTED then Inr [cfields (save_field r)] else Inr [])"
| "csv_records (l # ls) r =
     py_bind (csv_line l r) (\<lambda>r1.
       if cstate r1 = START_RECORD
       then py_bind (csv_records ls csv_start) (\<lambda>recs. Inr (cfields r1 # recs))
       else csv_records ls r1)"

definition csv_read :: "string \<Rightarrow> string list list py" where
  "csv_read text = csv_records (py_lines text) csv_start"

section \<open>DictReader\<close>

text \<open>
  The first record names the columns; empty records after it are skipped. A short record gives
  \<open>None\<close> for the missing columns, what a long one has too many goes under the key \<open>None\<close>, which no
  caller reads. Among columns of equal name the last one wins.
\<close>

type_synonym csv_dict = "string \<rightharpoonup> string option"

definition dict_row :: "string list \<Rightarrow> string list \<Rightarrow> csv_dict" where
  "dict_row names fs =
     map_of (rev (zip names (map Some fs @ replicate (length names - length fs) None)))"

definition dict_reader :: "string \<Rightarrow> csv_dict list py" where
  "dict_reader text =
     py_bind (csv_read text) (\<lambda>recs.
       case recs of
         [] \<Rightarrow> Inr []
       | names # rest \<Rightarrow> Inr (map (dict_row names) (filter (\<lambda>f. f \<noteq> []) rest)))"

section \<open>Rows without quoting\<close>

text \<open>
  A field that the automaton reads back as it stands: no comma, no line end, no leading quote. A
  record of such fields, joined by commas, is read back as those fields.
\<close>

definition plain_field :: "string \<Rightarrow> bool" where
  "plain_field f \<longleftrightarrow>
     COMMA \<notin> set f \<and> NL \<notin> set f \<and> CR \<notin> set f \<and> (f \<noteq> [] \<longrightarrow> hd f \<noteq> QUOTE) \<and> length f \<le> field_limit"

lemma csv_chars_append: "csv_chars (xs @ ys) r = py_bind (csv_chars xs r) (csv_chars ys)"
proof (induction xs arbitrary: r)
  case (Cons c xs)
  then show ?case by (cases "csv_char c r") auto
qed simp

lemma csv_chars_field:
  "COMMA \<notin> set f \<Longrightarrow> NL \<notin> set f \<Longrightarrow> CR \<notin> set f \<Longrightarrow> length (cfield r) + length f \<le> field_limit \<Longrightarrow>
   cstate r = IN_FIELD \<Longrightarrow> csv_chars (map Some f) r = Inr (r\<lparr>cfield := cfield r @ f\<rparr>)"
  by (induction f arbitrary: r) (auto simp: csv_char_def is_nl_def add_char_def)

text \<open>A field is read from the start of a record, if it is not empty, or of a field.\<close>

lemma csv_chars_start:
  assumes "plain_field f" and "f \<noteq> []" and "cstate r = START_FIELD \<or> cstate r = START_RECORD" and "cfield r = []"
  shows "csv_chars (map Some f) r = Inr (r\<lparr>cfield := f, cstate := IN_FIELD\<rparr>)"
proof -
  obtain c g where f: "f = c # g" using assms(2) by (cases f) auto
  have "csv_char (Some c) r = Inr (r\<lparr>cfield := [c], cstate := IN_FIELD\<rparr>)"
    using assms f by (auto simp: csv_char_def start_field_def is_nl_def add_char_def plain_field_def field_limit_def)
  moreover have "csv_chars (map Some g) (r\<lparr>cfield := [c], cstate := IN_FIELD\<rparr>) =
      Inr (r\<lparr>cfield := f, cstate := IN_FIELD\<rparr>)"
    using assms(1) f csv_chars_field [of g "r\<lparr>cfield := [c], cstate := IN_FIELD\<rparr>"] by (auto simp: plain_field_def)
  ultimately show ?thesis by (simp add: f)
qed

text \<open>A field and its delimiter: a comma, or the end of the record (a newline and the mark).\<close>

lemma csv_chars_field_comma:
  assumes "plain_field f" and "cstate r = START_FIELD \<or> cstate r = START_RECORD" and "cfield r = []"
  shows "csv_chars (map Some (f @ [COMMA])) r = Inr (r\<lparr>cfields := cfields r @ [f], cstate := START_FIELD\<rparr>)"
proof (cases "f = []")
  case True
  with assms show ?thesis
    by (auto simp: csv_char_def start_field_def is_nl_def save_field_def)
next
  case False
  with csv_chars_start [OF assms(1) False assms(2,3)] show ?thesis
    using assms(3) by (simp add: csv_chars_append csv_char_def is_nl_def save_field_def)
qed

lemma csv_chars_field_end:
  assumes "plain_field f" and "cstate r = START_FIELD" and "cfield r = []"
  shows "csv_chars (map Some (f @ [NL]) @ [None]) r = Inr (r\<lparr>cfields := cfields r @ [f], cstate := START_RECORD\<rparr>)"
proof (cases "f = []")
  case True
  with assms show ?thesis
    by (auto simp: csv_char_def start_field_def is_nl_def save_field_def after_nl_def)
next
  case False
  with csv_chars_start [OF assms(1) False _ assms(3)] assms(2,3) show ?thesis
    by (simp add: csv_chars_append csv_char_def is_nl_def save_field_def after_nl_def)
qed

definition csv_row_text :: "string list \<Rightarrow> string" where
  "csv_row_text fs = py_join [COMMA] fs @ [NL]"

lemma csv_line_append: "csv_line (a @ b) r = py_bind (csv_chars (map Some a) r) (csv_line b)"
  by (cases "csv_chars (map Some a) r") (simp_all add: csv_line_def csv_chars_append)

lemma csv_line_comma:
  assumes "plain_field f" and "cstate r = START_FIELD \<or> cstate r = START_RECORD" and "cfield r = []"
  shows "csv_line (csv_row_text (f # g # fs)) r =
    csv_line (csv_row_text (g # fs)) (r\<lparr>cfields := cfields r @ [f], cstate := START_FIELD\<rparr>)"
proof -
  have "csv_row_text (f # g # fs) = (f @ [COMMA]) @ csv_row_text (g # fs)"
    by (simp add: csv_row_text_def)
  then show ?thesis
    using csv_chars_field_comma [OF assms] by (simp only: csv_line_append py_bind.simps)
qed

lemma csv_line_fields:
  "list_all plain_field fs \<Longrightarrow> fs \<noteq> [] \<Longrightarrow> cstate r = START_FIELD \<Longrightarrow> cfield r = [] \<Longrightarrow>
     csv_line (csv_row_text fs) r = Inr (r\<lparr>cfields := cfields r @ fs, cstate := START_RECORD\<rparr>)"
proof (induction fs arbitrary: r rule: induct_list012)
  case (2 f)
  then show ?case using csv_chars_field_end [of f r] by (simp add: csv_line_def csv_row_text_def)
next
  case (3 f g fs)
  then show ?case by (simp add: csv_line_comma)
qed simp

lemma csv_line_row:
  assumes "list_all plain_field (f # g # fs)"
  shows "csv_line (csv_row_text (f # g # fs)) csv_start = Inr (csv_start\<lparr>cfields := f # g # fs\<rparr>)"
  using assms csv_line_comma [of f csv_start g fs]
    csv_line_fields [of "g # fs" "csv_start\<lparr>cfields := [f], cstate := START_FIELD\<rparr>"]
  by (simp add: csv_start_def)

lemma csv_row_text_line:
  assumes "list_all plain_field fs"
  shows "py_lines (csv_row_text fs @ s) = csv_row_text fs # py_lines s"
proof -
  have "NL \<notin> set (py_join [COMMA] fs) \<and> CR \<notin> set (py_join [COMMA] fs)"
    using assms by (induction "[COMMA]" fs rule: py_join.induct) (auto simp: plain_field_def)
  then show ?thesis by (simp add: csv_row_text_def py_lines_line)
qed

theorem csv_read_rows:
  assumes "list_all (\<lambda>fs. list_all plain_field fs \<and> 2 \<le> length fs) rows"
  shows "csv_read (concat (map csv_row_text rows)) = Inr rows"
  using assms
proof (induction rows)
  case (Cons row rows)
  then obtain f g fs where row: "row = f # g # fs" by (cases row; cases "tl row") auto
  with Cons show ?case
    using csv_row_text_line [of row "concat (map csv_row_text rows)"] csv_line_row [of f g fs]
    by (simp add: csv_read_def csv_start_def)
qed (simp add: csv_read_def csv_start_def)

end
