(* ===== verification/Py_Common.thy ===== *)
theory Py_Common
  imports Py_Csv
begin

text \<open>
  \<open>scripts/common.py\<close>: the constants of the experiments, reading the metrics file, leaving out the
  seeding uploads, the nearest-rank percentile and the size classes.
\<close>

definition QUANTUM :: nat where "QUANTUM = 8192"
definition N_REQUESTS :: nat where "N_REQUESTS = 1000"
definition REFERENCE_SERVER_THREADS :: nat where "REFERENCE_SERVER_THREADS = 4"
definition REFERENCE_CLIENT_THREADS :: nat where "REFERENCE_CLIENT_THREADS = 8"
definition SINGLE_SERVER_THREADS :: nat where "SINGLE_SERVER_THREADS = 1"

section \<open>load_rows\<close>

text \<open>
  A loaded row: the dictionary with the six integer columns replaced, which are kept beside the
  cells that stay text.
\<close>

record row =
  r_cells :: csv_dict
  r_bytes :: int
  r_rounds :: int
  r_forfeited :: int
  r_arrival :: int
  r_start :: int
  r_finish :: int

text \<open>\<open>int (r[k])\<close>: a missing key, a \<open>None\<close> cell and a cell that is no number raise.\<close>

definition int_cell :: "csv_dict \<Rightarrow> string \<Rightarrow> int py" where
  "int_cell d k =
     (case d k of None \<Rightarrow> Inl KeyError | Some None \<Rightarrow> Inl TypeError | Some (Some s) \<Rightarrow> py_int s)"

definition INT_COLUMNS :: "string list" where
  "INT_COLUMNS = [''bytes'', ''rounds'', ''forfeited_bytes'', ''arrival_ns'', ''start_ns'', ''finish_ns'']"

definition to_row :: "csv_dict \<Rightarrow> row py" where
  "to_row d =
     py_bind (py_map (int_cell d) INT_COLUMNS) (\<lambda>vs.
       Inr \<lparr>r_cells = d, r_bytes = vs ! 0, r_rounds = vs ! 1, r_forfeited = vs ! 2,
            r_arrival = vs ! 3, r_start = vs ! 4, r_finish = vs ! 5\<rparr>)"

definition load_rows :: "string option \<Rightarrow> row list py" where
  "load_rows file =
     (case file of
        None \<Rightarrow> Inl FileNotFoundError
      | Some text \<Rightarrow> py_bind (dict_reader text) (py_map to_row))"

section \<open>exclude_seed_rows, nearest_rank_percentile, size_class\<close>

definition exclude_seed_rows :: "row list \<Rightarrow> int \<Rightarrow> row list" where
  "exclude_seed_rows rows seed_count = slice_from (sort_key r_arrival rows) seed_count"

definition nearest_rank_percentile :: "'a list \<Rightarrow> int \<Rightarrow> 'a option" where
  "nearest_rank_percentile sorted_values p =
     (let n = int (length sorted_values) in
      if n = 0 then None
      else let idx = - ((- p * n) div 100) - 1; idx = max 0 (min idx (n - 1)) in
           Some (sorted_values ! nat idx))"

datatype size = Small | Medium | Large

definition size_class :: "string \<Rightarrow> int \<Rightarrow> size" where
  "size_class fname num_bytes =
     (let name = py_lower fname in
      if contains ''small'' name then Small
      else if contains ''medium'' name then Medium
      else if contains ''large'' name then Large
      else if num_bytes < 5 * 1024 then Small
      else if num_bytes < 80 * 1024 then Medium
      else Large)"

text \<open>\<open>size_class (r["filename"], r["bytes"])\<close>; \<open>None.lower\<close> does not exist.\<close>

definition row_class :: "row \<Rightarrow> size py" where
  "row_class r =
     (case r_cells r ''filename'' of
        None \<Rightarrow> Inl KeyError
      | Some None \<Rightarrow> Inl AttributeError
      | Some (Some f) \<Rightarrow> Inr (size_class f (r_bytes r)))"

section \<open>Properties\<close>

lemma load_rows_class:
  assumes "r_cells r ''filename'' = Some (Some f)"
  shows "row_class r = Inr (size_class f (r_bytes r))"
  using assms by (simp add: row_class_def)

lemma sort_key_split:
  fixes rows :: "row list"
  shows "mset (sort_key r_arrival rows) = mset rows" "sorted (map r_arrival (sort_key r_arrival rows))"
    "filter (\<lambda>r. r_arrival r = t) (sort_key r_arrival rows) = filter (\<lambda>r. r_arrival r = t) rows"
  by (simp_all add: sort_key_stable)

text \<open>
  \<open>exclude_seed_rows\<close> drops the \<open>seed_count\<close> rows that arrived first and nothing else: the rows
  are split into dropped and kept ones, everything dropped arrived no later than everything kept,
  the kept rows come in order of arrival, and rows of equal arrival keep their order in the file.
\<close>

lemma exclude_seed_rows_spec:
  "0 \<le> k \<Longrightarrow>
     \<exists>dropped. mset (dropped @ exclude_seed_rows rows k) = mset rows \<and>
       length dropped = min (nat k) (length rows) \<and>
       sorted (map r_arrival (dropped @ exclude_seed_rows rows k)) \<and>
       (\<forall>t. filter (\<lambda>r. r_arrival r = t) (dropped @ exclude_seed_rows rows k) =
            filter (\<lambda>r. r_arrival r = t) rows)"
  by (rule exI [of _ "take (nat k) (sort_key r_arrival rows)"])
    (simp add: exclude_seed_rows_def slice_from_def sort_key_split min.commute del: mset_append filter_append map_append)

definition sample_row :: "int \<Rightarrow> row" where
  "sample_row t = \<lparr>r_cells = (\<lambda>_. None), r_bytes = 1, r_rounds = 1, r_forfeited = 0, r_arrival = t,
     r_start = t + 1, r_finish = t + 5\<rparr>"

theorem exclude_seed_rows_spec_witness:
  "\<exists>dropped. mset (dropped @ exclude_seed_rows [sample_row 9, sample_row 3] 1) = mset [sample_row 9, sample_row 3] \<and>
     length dropped = 1"
  using exclude_seed_rows_spec [of 1 "[sample_row 9, sample_row 3]"] by auto

text \<open>The rank the code computes: the ceiling of \<open>p n / 100\<close>.\<close>

lemma rank_index:
  fixes p :: int and n :: nat
  assumes "0 < n" and "0 < p" and "p \<le> 100"
  defines "k \<equiv> nat (- ((- p * int n) div 100))"
  shows "max 0 (min (- ((- p * int n) div 100) - 1) (int n - 1)) = int k - 1" and "0 < k" and "k \<le> n"
    and "p * int n \<le> 100 * int k" and "100 * (int k - 1) < p * int n"
proof -
  let ?q = "- ((- p * int n) div 100)"
  have ceil: "100 * - ((- x) div 100) \<ge> x \<and> 100 * (- ((- x) div 100) - 1) < x" for x :: int
    by presburger
  have q: "100 * ?q \<ge> p * int n" "100 * (?q - 1) < p * int n"
    using ceil [of "p * int n"] by simp_all
  have pos: "0 < p * int n" using assms(1,2) by simp
  have "p * int n \<le> 100 * int n" using assms(3) by (intro mult_right_mono) auto
  then have "0 < ?q" "?q \<le> int n" using q pos by linarith+
  then show "max 0 (min (?q - 1) (int n - 1)) = int k - 1" "0 < k" "k \<le> n"
    "p * int n \<le> 100 * int k" "100 * (int k - 1) < p * int n"
    using q by (simp_all add: k_def)
qed

text \<open>
  C29. \<open>nearest_rank_percentile\<close> is the nearest-rank percentile: of \<open>n\<close> sorted values it returns one
  of them, at least \<open>p\<close> percent of the values are at most as large, and fewer than \<open>p\<close> percent are
  smaller.
\<close>

theorem nearest_rank_percentile_spec:
  assumes "sorted xs" and "xs \<noteq> []" and "0 < p" and "p \<le> 100"
  shows "\<exists>v \<in> set xs. nearest_rank_percentile xs p = Some v \<and>
     p * int (length xs) \<le> 100 * int (length (filter (\<lambda>x. x \<le> v) xs)) \<and>
     100 * int (length (filter (\<lambda>x. x < v) xs)) < p * int (length xs)"
proof -
  let ?n = "length xs"
  define k where "k = nat (- ((- p * int ?n) div 100))"
  have "0 < ?n" using assms(2) by simp
  note rank = rank_index [OF this assms(3,4), folded k_def]
  let ?v = "xs ! (k - 1)"
  have k: "k - 1 < ?n" using rank(2,3) by linarith
  have val: "nearest_rank_percentile xs p = Some ?v"
    using rank(1,2) assms(2) by (simp add: nearest_rank_percentile_def Let_def nat_diff_distrib)
  have "xs ! i \<le> ?v" if "i < k" for i
    using that k by (intro sorted_nth_mono [OF assms(1)]) arith+
  then have "filter (\<lambda>x. x \<le> ?v) (take k xs) = take k xs"
    by (auto simp: filter_id_conv in_set_conv_nth)
  then have le: "k \<le> length (filter (\<lambda>x. x \<le> ?v) xs)"
    using rank(3) length_filter_le [of "\<lambda>x. x \<le> ?v" "drop k xs"]
    by (metis append_take_drop_id filter_append le_add1 length_append length_take min.absorb2)
  have "?v \<le> xs ! i" if "k - 1 \<le> i" "i < ?n" for i
    using that by (intro sorted_nth_mono [OF assms(1)])
  then have "filter (\<lambda>x. x < ?v) (drop (k - 1) xs) = []"
    by (auto simp: filter_empty_conv in_set_conv_nth not_less less_diff_conv add.commute)
  then have "length (filter (\<lambda>x. x < ?v) xs) \<le> k - 1"
    by (metis (no_types, lifting) append_Nil2 append_take_drop_id filter_append le_trans length_filter_le
        length_take min.cobounded2)
  moreover have "int (k - 1) = int k - 1" using rank(2) by simp
  ultimately have lt: "int (length (filter (\<lambda>x. x < ?v) xs)) \<le> int k - 1" by linarith
  show ?thesis
  proof (rule bexI [of _ ?v], intro conjI)
    show "p * int ?n \<le> 100 * int (length (filter (\<lambda>x. x \<le> ?v) xs))"
      by (rule order_trans [OF rank(4)]) (use le in simp)
    show "100 * int (length (filter (\<lambda>x. x < ?v) xs)) < p * int ?n"
      by (rule le_less_trans [OF mult_left_mono [OF lt] rank(5)]) simp
  qed (use val k in auto)
qed

theorem nearest_rank_percentile_spec_witness:
  "\<exists>v \<in> set [10, 20, 30 :: int]. nearest_rank_percentile [10, 20, 30] 50 = Some v \<and> v = 20"
  using nearest_rank_percentile_spec [of "[10, 20, 30 :: int]" 50]
  by (auto simp: nearest_rank_percentile_def)

end
