(* ===== verification/Gen_Workload.thy ===== *)
theory Gen_Workload
  imports Py_Common
begin

text \<open>
  \<open>scripts/gen_workload.py\<close>: the three workload files. A \<open>random.Random\<close> object is the sequence of
  its future draws: \<open>randbelow n\<close>, on which \<open>choice\<close> and \<open>randint\<close> rest, is the next draw brought
  below \<open>n\<close>, so every sequence of results a generator can give is one such object and what is proved
  holds for every seed. Lengths are naturals; every call asks for at least one byte.
\<close>

section \<open>The generator\<close>

record rng =
  draws :: "nat \<Rightarrow> nat"
  drawn :: nat

definition randbelow :: "nat \<Rightarrow> rng \<Rightarrow> nat \<times> rng" where
  "randbelow n g = (draws g (drawn g) mod n, g\<lparr>drawn := Suc (drawn g)\<rparr>)"

definition randint :: "nat \<Rightarrow> nat \<Rightarrow> rng \<Rightarrow> nat \<times> rng" where
  "randint a b g = (case randbelow (b - a + 1) g of (k, g1) \<Rightarrow> (a + k, g1))"

definition choice :: "'a list \<Rightarrow> rng \<Rightarrow> 'a \<times> rng" where
  "choice xs g = (case randbelow (length xs) g of (k, g1) \<Rightarrow> (xs ! k, g1))"

section \<open>Lines\<close>

definition WORDS :: "string list" where
  "WORDS = [''the'', ''quick'', ''brown'', ''fox'', ''jumps'', ''over'', ''the'', ''lazy'', ''dog'', ''while'',
     ''packets'', ''traverse'', ''the'', ''network'', ''stack'', ''and'', ''the'', ''scheduler'', ''drains'',
     ''its'', ''queue'', ''in'', ''careful'', ''deterministic'', ''order'']"

definition fit_to_length :: "string list \<Rightarrow> nat \<Rightarrow> string" where
  "fit_to_length ws content_len =
     (let line = py_join [SP] ws in
      if length line < content_len then line @ replicate (content_len - length line) SP
      else take content_len line)"

function pick_words :: "nat \<Rightarrow> nat \<Rightarrow> string list \<Rightarrow> rng \<Rightarrow> string list \<times> rng" where
  "pick_words target_len len ws g =
     (if len < target_len - 1 then
        (case choice WORDS g of (w, g1) \<Rightarrow> pick_words target_len (len + length w + 1) (ws @ [w]) g1)
      else (ws, g))"
  by pat_completeness auto
termination
  by (relation "measure (\<lambda>(target_len, len, ws, g). target_len - 1 - len)") auto

declare pick_words.simps [simp del]

definition make_short_line :: "rng \<Rightarrow> nat \<Rightarrow> string \<times> rng" where
  "make_short_line g target_len =
     (case pick_words target_len 0 [] g of (ws, g1) \<Rightarrow> (fit_to_length ws (target_len - 1) @ [NL], g1))"

definition make_long_line :: "rng \<Rightarrow> nat \<Rightarrow> string \<times> rng" where
  "make_long_line g target_len =
     (case pick_words target_len 0 [] g of (ws, g1) \<Rightarrow> (fit_to_length ws (target_len - 1) @ [NL], g1))"

section \<open>Files\<close>

text \<open>A file is the list of the lines written to it. Loops stop once \<open>target_bytes\<close> are written.\<close>

function ordinary_loop :: "nat \<Rightarrow> nat \<Rightarrow> rng \<Rightarrow> string list" where
  "ordinary_loop target_bytes written g =
     (if written < target_bytes then
        (case randint 60 79 g of (line_len, g1) \<Rightarrow>
         case make_short_line g1 line_len of (line, g2) \<Rightarrow>
           line # ordinary_loop target_bytes (written + length line) g2)
      else [])"
  by pat_completeness auto
termination
  by (relation "measure (\<lambda>(target_bytes, written, g). target_bytes - written)")
    (auto simp: make_short_line_def split: prod.splits)

declare ordinary_loop.simps [simp del]

definition write_ordinary_file :: "nat \<Rightarrow> rng \<Rightarrow> string" where
  "write_ordinary_file target_bytes g = concat (ordinary_loop target_bytes 0 g)"

function large_loop ::
  "nat \<Rightarrow> nat \<Rightarrow> int \<Rightarrow> nat \<Rightarrow> nat \<Rightarrow> nat \<Rightarrow> int \<Rightarrow> rng \<Rightarrow> string list" where
  "large_loop target_bytes long_line_len gap_bytes written short_written long_lines_left next_long_at g =
     (if written < target_bytes then
        if long_lines_left > 0 \<and> int short_written \<ge> next_long_at then
          (case make_long_line g long_line_len of (line, g1) \<Rightarrow>
             line # large_loop target_bytes long_line_len gap_bytes (written + length line) short_written
                      (long_lines_left - 1) (next_long_at + gap_bytes) g1)
        else
          (case randint 60 79 g of (line_len, g1) \<Rightarrow>
           case make_short_line g1 line_len of (line, g2) \<Rightarrow>
             line # large_loop target_bytes long_line_len gap_bytes (written + length line)
                      (short_written + length line) long_lines_left next_long_at g2)
      else [])"
  by pat_completeness auto
termination
  by (relation "measure (\<lambda>(target_bytes, l, gp, written, s, n, x, g). target_bytes - written)")
    (auto simp: make_short_line_def make_long_line_def split: prod.splits)

declare large_loop.simps [simp del]

definition large_gap :: "nat \<Rightarrow> nat \<Rightarrow> nat \<Rightarrow> int" where
  "large_gap target_bytes num_long_lines long_line_len =
     (let total_short_bytes = int target_bytes - int num_long_lines * int long_line_len in
      total_short_bytes div (int num_long_lines + 1))"

definition large_lines :: "nat \<Rightarrow> nat \<Rightarrow> nat \<Rightarrow> rng \<Rightarrow> string list" where
  "large_lines target_bytes num_long_lines long_line_len g =
     (let gap_bytes = large_gap target_bytes num_long_lines long_line_len in
      large_loop target_bytes long_line_len gap_bytes 0 0 num_long_lines gap_bytes g)"

definition write_large_with_long_lines :: "nat \<Rightarrow> nat \<Rightarrow> nat \<Rightarrow> rng \<Rightarrow> string" where
  "write_large_with_long_lines target_bytes num_long_lines long_line_len g =
     concat (large_lines target_bytes num_long_lines long_line_len g)"

text \<open>\<open>main\<close>: \<open>seeded s\<close> is \<open>random.Random (s)\<close>.\<close>

definition workload :: "(nat \<Rightarrow> rng) \<Rightarrow> (string \<times> string) list" where
  "workload seeded =
     [(''small.txt'', write_ordinary_file 1024 (seeded 1)),
      (''medium.txt'', write_ordinary_file (30 * 1024) (seeded 2)),
      (''large.txt'', write_large_with_long_lines (150 * 1024) 6 20000 (seeded 3))]"

section \<open>The lines\<close>

definition text_line :: "nat \<Rightarrow> string \<Rightarrow> bool" where
  "text_line n l \<longleftrightarrow> (\<exists>c. l = c @ [NL] \<and> NL \<notin> set c) \<and> length l = n"

lemma choice_in: "xs \<noteq> [] \<Longrightarrow> choice xs g = (x, g1) \<Longrightarrow> x \<in> set xs"
  by (auto simp: choice_def randbelow_def)

lemma join_no_nl: "\<forall>w \<in> set ws. NL \<notin> set w \<Longrightarrow> NL \<notin> set (py_join [SP] ws)"
  by (induction "[SP]" ws rule: py_join.induct) auto

lemma WORDS_no_nl: "w \<in> set WORDS \<Longrightarrow> NL \<notin> set w"
  by (auto simp: WORDS_def)

lemma WORDS_nonempty: "WORDS \<noteq> []"
  by (simp add: WORDS_def)

lemma pick_words_no_nl:
  "pick_words t n ws g = (ws', g') \<Longrightarrow> \<forall>w \<in> set ws. NL \<notin> set w \<Longrightarrow> \<forall>w \<in> set ws'. NL \<notin> set w"
proof (induction t n ws g arbitrary: ws' g' rule: pick_words.induct)
  case (1 t n ws g)
  show ?case
  proof (cases "n < t - 1")
    case True
    obtain w g1 where ch: "choice WORDS g = (w, g1)" by (cases "choice WORDS g")
    with True "1.prems"(1) have "pick_words t (n + length w + 1) (ws @ [w]) g1 = (ws', g')"
      by (subst (asm) pick_words.simps) simp
    moreover have "NL \<notin> set w" using choice_in [OF WORDS_nonempty ch] by (rule WORDS_no_nl)
    then have "\<forall>w \<in> set (ws @ [w]). NL \<notin> set w" using "1.prems"(2) by simp
    ultimately show ?thesis by (rule "1.IH" [OF True ch [symmetric]])
  next
    case False
    with "1.prems" show ?thesis by (subst (asm) pick_words.simps) simp
  qed
qed

lemma fit_to_length_spec:
  "\<forall>w \<in> set ws. NL \<notin> set w \<Longrightarrow> NL \<notin> set (fit_to_length ws n)" "length (fit_to_length ws n) = n"
  using join_no_nl [of ws] by (auto simp: fit_to_length_def Let_def dest: in_set_takeD)

lemma make_line_spec:
  assumes "1 \<le> n"
  shows "make_short_line g n = (l, g1) \<Longrightarrow> text_line n l" "make_long_line g n = (l, g1) \<Longrightarrow> text_line n l"
proof -
  obtain ws g2 where p: "pick_words n 0 [] g = (ws, g2)" by (cases "pick_words n 0 [] g")
  note no_nl = fit_to_length_spec [of ws "n - 1"] pick_words_no_nl [OF p]
  show "make_short_line g n = (l, g1) \<Longrightarrow> text_line n l" "make_long_line g n = (l, g1) \<Longrightarrow> text_line n l"
    using no_nl assms by (auto simp: make_short_line_def make_long_line_def p text_line_def)
qed

lemma short_line:
  assumes "randint 60 79 g = (n, g1)" and "make_short_line g1 n = (l, g2)"
  shows "60 \<le> length l" "length l \<le> 79" "text_line (length l) l"
proof -
  have n: "60 \<le> n" "n \<le> 79" using assms(1) by (auto simp: randint_def randbelow_def)
  with make_line_spec(1) [OF _ assms(2)] have "text_line n l" by simp
  with n show "60 \<le> length l" "length l \<le> 79" "text_line (length l) l" by (auto simp: text_line_def)
qed

lemma split_text_lines: "\<forall>l \<in> set ls. \<exists>n. text_line n l \<Longrightarrow> split_lines (concat ls) = ls"
proof (induction ls)
  case (Cons l ls)
  then obtain c where "l = c @ [NL]" "NL \<notin> set c" by (auto simp: text_line_def)
  with Cons show ?case using split_lines_line [of c "concat ls"] by simp
qed simp

section \<open>The files\<close>

lemma ordinary_loop_spec:
  "(\<forall>l \<in> set (ordinary_loop t n g). 60 \<le> length l \<and> length l \<le> 79 \<and> text_line (length l) l) \<and>
   (n < t \<longrightarrow> t \<le> n + length (concat (ordinary_loop t n g)) \<and> n + length (concat (ordinary_loop t n g)) < t + 79)"
proof (induction t n g rule: ordinary_loop.induct)
  case (1 t n g)
  show ?case
  proof (cases "n < t")
    case True
    obtain k g1 where r: "randint 60 79 g = (k, g1)" by (cases "randint 60 79 g")
    obtain l g2 where m: "make_short_line g1 k = (l, g2)" by (cases "make_short_line g1 k")
    note l = short_line [OF r m]
    have eq: "ordinary_loop t n g = l # ordinary_loop t (n + length l) g2"
      using True r m by (subst ordinary_loop.simps) simp
    note IH = "1.IH" [OF True r [symmetric] m [symmetric]]
    show ?thesis
    proof (cases "n + length l < t")
      case True
      with IH l show ?thesis by (simp add: eq)
    next
      case False
      then have "ordinary_loop t (n + length l) g2 = []" by (subst ordinary_loop.simps) simp
      with False True l show ?thesis by (simp add: eq)
    qed
  next
    case False
    then show ?thesis by (subst (1 2 3) ordinary_loop.simps) simp
  qed
qed

text \<open>
  An ordinary workload file consists of lines of 60 to 79 bytes, whatever the generator draws,
  and overshoots its target size by less than one line.
\<close>

lemma ordinary_file_spec:
  "(\<forall>l \<in> set (split_lines (write_ordinary_file t g)). 60 \<le> length l \<and> length l \<le> 79) \<and>
   t \<le> length (write_ordinary_file t g) \<and> length (write_ordinary_file t g) < t + 79"
proof -
  note spec = ordinary_loop_spec [of t 0 g]
  then have "split_lines (concat (ordinary_loop t 0 g)) = ordinary_loop t 0 g"
    by (intro split_text_lines) blast
  moreover have "t = 0 \<Longrightarrow> ordinary_loop t 0 g = []" by (subst ordinary_loop.simps) simp
  ultimately show ?thesis using spec by (cases "t = 0") (auto simp: write_ordinary_file_def)
qed

theorem ordinary_file_spec_witness:
  "length (write_ordinary_file 1024 \<lparr>draws = \<lambda>i. i * 7, drawn = 0\<rparr>) \<in> {1024..<1103}"
  using ordinary_file_spec [of 1024 "\<lparr>draws = \<lambda>i. i * 7, drawn = 0\<rparr>"] by simp

text \<open>
  The loop of the large file while it still owes long lines: the short lines written so far are less
  than one line beyond the place of the next long line, so the target is not reached before the last
  one is out. \<open>j\<close> long lines have been written and \<open>k\<close> are left.
\<close>

definition large_inv :: "nat \<Rightarrow> nat \<Rightarrow> int \<Rightarrow> nat \<Rightarrow> nat \<Rightarrow> nat \<Rightarrow> int \<Rightarrow> nat \<Rightarrow> bool" where
  "large_inv t len gap w s k next j \<longleftrightarrow>
     79 < len \<and> 0 \<le> gap \<and> int w = int s + int j * int len \<and> next = (int j + 1) * gap \<and>
     (0 < k \<longrightarrow> int s < next + 79) \<and> (int j + int k) * (gap + int len) \<le> int t"

lemma div_times_le: "(a :: int) div (int n + 1) * (int n + 1) \<le> a"
  using div_mult_mod_eq [of a "int n + 1"] pos_mod_sign [of "int n + 1" a] by linarith

lemma large_inv_bound:
  assumes "large_inv t len gap w s k next j" and "0 < k"
  shows "w < t" and "w + len < t + 79"
proof -
  have "(int j + 1) * (gap + int len) \<le> (int j + int k) * (gap + int len)"
    using assms by (intro mult_right_mono) (auto simp: large_inv_def)
  moreover have "(int j + 1) * (gap + int len) = next + (int w - int s) + int len"
    using assms by (simp add: large_inv_def algebra_simps)
  ultimately have "next + (int w - int s) + int len \<le> int t" "int s < next + 79" "79 < int len"
    using assms by (auto simp: large_inv_def)
  then show "w < t" "w + len < t + 79" by linarith+
qed

lemma large_inv_long:
  assumes "large_inv t len gap w s k next j" and "0 < k"
  shows "large_inv t len gap (w + len) s (k - 1) (next + gap) (Suc j)"
  using assms by (auto simp: large_inv_def algebra_simps of_nat_diff)

lemma large_inv_short:
  assumes "large_inv t len gap w s k next j" and "n \<le> 79" and "\<not> (0 < k \<and> next \<le> int s)"
  shows "large_inv t len gap (w + n) (s + n) k next j"
  using assms by (auto simp: large_inv_def)

lemma large_loop_spec:
  "large_inv t len gap w s k next j \<Longrightarrow>
     (\<forall>l \<in> set (large_loop t len gap w s k next g).
        text_line (length l) l \<and> (60 \<le> length l \<and> length l \<le> 79 \<or> length l = len)) \<and>
     length (filter (\<lambda>l. 79 < length l) (large_loop t len gap w s k next g)) = k \<and>
     (w < t \<longrightarrow> t \<le> w + length (concat (large_loop t len gap w s k next g)) \<and>
        w + length (concat (large_loop t len gap w s k next g)) < t + 79)"
proof (induction t len gap w s k "next" g arbitrary: j rule: large_loop.induct)
  case (1 t len gap w s k nxt g)
  note inv = "1.prems"
  have stop: "large_loop t len gap w' s' k' nxt' g' = []" if "\<not> w' < t" for w' s' k' nxt' g'
    using that by (subst large_loop.simps) simp
  consider (fin) "\<not> w < t" | (long) "w < t" "0 < k \<and> nxt \<le> int s" | (short) "w < t" "\<not> (0 < k \<and> nxt \<le> int s)"
    by blast
  then show ?case
  proof cases
    case fin
    with large_inv_bound(1) [OF inv] have "k = 0" by blast
    with stop [OF fin] fin show ?thesis by simp
  next
    case long
    obtain l g1 where m: "make_long_line g len = (l, g1)" by (cases "make_long_line g len")
    have l: "text_line len l" using make_line_spec(2) [OF _ m] inv by (simp add: large_inv_def)
    then have len: "length l = len" by (simp add: text_line_def)
    have eq: "large_loop t len gap w s k nxt g = l # large_loop t len gap (w + len) s (k - 1) (nxt + gap) g1"
      using long m len by (subst large_loop.simps) simp
    have big: "79 < len" using inv by (simp add: large_inv_def)
    note IH = "1.IH"(1) [OF long(1,2) m [symmetric], unfolded len, OF large_inv_long [OF inv]]
    show ?thesis
    proof (cases "w + len < t")
      case True
      with IH long l len big show ?thesis by (simp add: eq)
    next
      case False
      with IH long l len big large_inv_bound(2) [OF inv] show ?thesis by (simp add: eq stop)
    qed
  next
    case short
    obtain n g1 where r: "randint 60 79 g = (n, g1)" by (cases "randint 60 79 g")
    obtain l g2 where m: "make_short_line g1 n = (l, g2)" by (cases "make_short_line g1 n")
    note l = short_line [OF r m]
    have eq: "large_loop t len gap w s k nxt g = l # large_loop t len gap (w + length l) (s + length l) k nxt g2"
      by (subst large_loop.simps) (simp only: if_P [OF short(1)] if_not_P [OF short(2)] r m prod.case)
    note IH = "1.IH"(2) [OF short r [symmetric] m [symmetric] large_inv_short [OF inv l(2) short(2)]]
    show ?thesis
    proof (cases "w + length l < t")
      case True
      with IH l short show ?thesis by (simp add: eq)
    next
      case False
      with IH l short show ?thesis unfolding eq stop [OF False] by simp
    qed
  qed
qed

lemma large_file_facts:
  assumes "num * len \<le> t" and "79 < len" and "0 < t"
  shows "(\<forall>l \<in> set (split_lines (write_large_with_long_lines t num len g)).
       60 \<le> length l \<and> length l \<le> 79 \<or> length l = len) \<and>
    length (filter (\<lambda>l. length l = len) (split_lines (write_large_with_long_lines t num len g))) = num \<and>
    t \<le> length (write_large_with_long_lines t num len g) \<and>
    length (write_large_with_long_lines t num len g) < t + 79"
proof -
  let ?gap = "large_gap t num len" and ?ls = "large_lines t num len g"
  have "int num * int len \<le> int t" using assms(1) by (metis of_nat_le_iff of_nat_mult)
  then have pos: "0 \<le> ?gap" by (simp add: large_gap_def pos_imp_zdiv_nonneg_iff)
  have "?gap * (int num + 1) \<le> int t - int num * int len"
    unfolding large_gap_def Let_def by (rule div_times_le)
  then have "int num * (?gap + int len) \<le> int t" using pos by (simp add: algebra_simps)
  then have "large_inv t len ?gap 0 0 num ?gap 0" using pos assms(2) by (simp add: large_inv_def)
  from large_loop_spec [OF this, of g] assms(3)
  have spec: "\<forall>l \<in> set ?ls. text_line (length l) l \<and> (60 \<le> length l \<and> length l \<le> 79 \<or> length l = len)"
    "length (filter (\<lambda>l. 79 < length l) ?ls) = num" "t \<le> length (concat ?ls)" "length (concat ?ls) < t + 79"
    by (simp_all add: large_lines_def Let_def)
  have "split_lines (concat ?ls) = ?ls" using spec(1) by (intro split_text_lines) blast
  moreover have "filter (\<lambda>l. 79 < length l) ?ls = filter (\<lambda>l. length l = len) ?ls"
    using spec(1) assms(2) by (intro filter_cong) auto
  ultimately show ?thesis using spec by (simp add: write_large_with_long_lines_def)
qed

text \<open>
  C26. The large workload file has exactly the long lines it is asked for, whatever the generator
  draws: if the long lines fit the target size and are longer than an ordinary line, the file
  consists of lines of 60 to 79 bytes and of exactly \<open>num_long_lines\<close> lines of \<open>long_line_len\<close>
  bytes, and overshoots its target by less than one ordinary line.
\<close>

theorem large_file_spec:
  assumes "num * len \<le> t" and "79 < len" and "0 < t"
  shows "(\<forall>l \<in> set (split_lines (write_large_with_long_lines t num len g)).
       60 \<le> length l \<and> length l \<le> 79 \<or> length l = len) \<and>
    length (filter (\<lambda>l. length l = len) (split_lines (write_large_with_long_lines t num len g))) = num \<and>
    t \<le> length (write_large_with_long_lines t num len g) \<and>
    length (write_large_with_long_lines t num len g) < t + 79"
  using assms by (rule large_file_facts)

theorem large_file_spec_witness:
  "length (filter (\<lambda>l. length l = 20000)
     (split_lines (write_large_with_long_lines (150 * 1024) 6 20000 \<lparr>draws = \<lambda>i. i * 7, drawn = 0\<rparr>))) = 6"
  using large_file_spec [of 6 20000 "150 * 1024" "\<lparr>draws = \<lambda>i. i * 7, drawn = 0\<rparr>"] by simp

end
