(* ===== verification/Csv_Roundtrip.thy ===== *)
theory Csv_Roundtrip
  imports Csv_Writer Py_Common
begin

text \<open>
  The contract between the server and the analysis scripts: what \<open>CsvWriter\<close> writes, \<open>load_rows\<close>
  reads back.
\<close>

definition csv_columns :: "string list" where
  "csv_columns = [''request_id'', ''op'', ''filename'', ''bytes'', ''rounds'', ''forfeited_bytes'',
     ''arrival_ns'', ''start_ns'', ''finish_ns'']"

definition csv_fields :: "request \<Rightarrow> string list" where
  "csv_fields req = [nat_str (rid req), op_to_string (rop req), filename req, nat_str (bytes req),
     nat_str (rounds req), nat_str (forfeited_bytes req), nat_str (arrival_ns req),
     nat_str (start_ns req), nat_str (finish_ns req)]"

lemma csv_row_fields: "csv_row req = csv_row_text (csv_fields req)"
  by (simp add: csv_row_def csv_row_text_def csv_fields_def)

lemma kHeader_columns: "kHeader @ [NL] = csv_row_text csv_columns"
  by (simp add: kHeader_def csv_row_text_def csv_columns_def)

lemma nat_str_length: "n < 10 ^ k \<Longrightarrow> 0 < k \<Longrightarrow> length (nat_str n) \<le> k"
proof (induction n arbitrary: k rule: nat_str.induct)
  case (1 n)
  show ?case
  proof (cases "n < 10")
    case True
    with "1.prems" show ?thesis by (simp add: nat_str.simps [of n])
  next
    case False
    with "1.prems" obtain j where k: "k = Suc j" "0 < j"
      by (cases k; cases "k - 1") auto
    with "1.prems" have "n div 10 < 10 ^ j" by (simp add: less_mult_imp_div_less mult.commute)
    with "1.IH" [OF False this k(2)] k show ?thesis using False by (simp add: nat_str.simps [of n])
  qed
qed

lemma nat_str_u64: "n \<le> u64_max \<Longrightarrow> length (nat_str n) \<le> 20"
  by (rule nat_str_length) (simp_all add: u64_max_def)

definition u64_fields :: "request \<Rightarrow> bool" where
  "u64_fields req \<longleftrightarrow> rid req \<le> u64_max \<and> bytes req \<le> u64_max \<and> rounds req \<le> u64_max \<and>
     forfeited_bytes req \<le> u64_max \<and> arrival_ns req \<le> u64_max \<and> start_ns req \<le> u64_max \<and> finish_ns req \<le> u64_max"

lemma plain_nat_str: "n \<le> u64_max \<Longrightarrow> plain_field (nat_str n)"
  using nat_str_u64 [of n] nat_str_digits [of _ n] is_digit_neq hd_nat_str_digit [of n]
  by (fastforce simp: plain_field_def field_limit_def)

lemma plain_csv_fields:
  assumes "u64_fields req" and "plain_field (filename req)"
  shows "list_all plain_field (csv_fields req)"
proof -
  have "plain_field (op_to_string (rop req))"
    by (cases "rop req") (simp_all add: plain_field_def field_limit_def)
  with assms show ?thesis by (simp add: csv_fields_def u64_fields_def plain_nat_str)
qed

definition row_of :: "request \<Rightarrow> row" where
  "row_of req =
     \<lparr>r_cells = dict_row csv_columns (csv_fields req), r_bytes = int (bytes req), r_rounds = int (rounds req),
      r_forfeited = int (forfeited_bytes req), r_arrival = int (arrival_ns req),
      r_start = int (start_ns req), r_finish = int (finish_ns req)\<rparr>"

lemma to_row_of:
  assumes "u64_fields req"
  shows "to_row (dict_row csv_columns (csv_fields req)) = Inr (row_of req)"
proof -
  let ?d = "dict_row csv_columns (csv_fields req)"
  have num: "int_cell ?d k = Inr (int n)" if "?d k = Some (Some (nat_str n))" "n \<le> u64_max" for k n
    using that nat_str_u64 [of n] by (simp add: int_cell_def py_int_nat_str)
  have "?d ''bytes'' = Some (Some (nat_str (bytes req)))" "?d ''rounds'' = Some (Some (nat_str (rounds req)))"
    "?d ''forfeited_bytes'' = Some (Some (nat_str (forfeited_bytes req)))"
    "?d ''arrival_ns'' = Some (Some (nat_str (arrival_ns req)))"
    "?d ''start_ns'' = Some (Some (nat_str (start_ns req)))"
    "?d ''finish_ns'' = Some (Some (nat_str (finish_ns req)))"
    by (simp_all add: dict_row_def csv_columns_def csv_fields_def)
  from this [THEN num] show ?thesis
    using assms by (simp add: to_row_def INT_COLUMNS_def row_of_def u64_fields_def)
qed

lemma csv_roundtrip_rows:
  assumes "\<forall>req \<in> set reqs. u64_fields req \<and> plain_field (filename req)"
  shows "load_rows (Some (out_text (csv_close (fold write_row reqs csv_open)))) = Inr (map row_of reqs)"
proof -
  have content: "out_text (csv_close (fold write_row reqs csv_open)) =
      concat (map csv_row_text (csv_columns # map csv_fields reqs))"
    using fold_write_row [of csv_open reqs]
    by (simp add: csv_open_def csv_close_def csv_row_fields [abs_def] kHeader_columns [simplified] comp_def)
  have "list_all plain_field csv_columns"
    by (simp add: csv_columns_def plain_field_def field_limit_def)
  then have "list_all (\<lambda>fs. list_all plain_field fs \<and> 2 \<le> length fs) (csv_columns # map csv_fields reqs)"
    using assms plain_csv_fields by (auto simp: list_all_iff csv_columns_def csv_fields_def)
  note read = csv_read_rows [OF this]
  have "filter (\<lambda>f. f \<noteq> []) (map csv_fields reqs) = map csv_fields reqs"
    by (auto simp: filter_id_conv csv_fields_def)
  then have "dict_reader (out_text (csv_close (fold write_row reqs csv_open))) =
      Inr (map (dict_row csv_columns) (map csv_fields reqs))"
    unfolding content dict_reader_def read by simp
  moreover have "py_map to_row (map (dict_row csv_columns) (map csv_fields reqs)) = Inr (map row_of reqs)"
    using assms py_map_ok [of reqs "\<lambda>req. to_row (dict_row csv_columns (csv_fields req))" row_of] to_row_of
    by (simp add: py_map_map)
  ultimately show ?thesis
    by (simp add: load_rows_def)
qed

lemma row_of_cells:
  "r_cells (row_of req) ''filename'' = Some (Some (filename req))"
  "r_cells (row_of req) ''op'' = Some (Some (op_to_string (rop req)))"
  by (simp_all add: row_of_def dict_row_def csv_columns_def csv_fields_def)



end
