(* ===== verification/Py_Metrics.thy ===== *)
theory Py_Metrics
  imports Csv_Roundtrip
begin

text \<open>
  \<open>scripts/metrics.py\<close>: the metrics of one run, the A14 and \<open>send\<close> counts read from a server log, and
  the collection of a results directory. A directory is a map from paths to file contents.
\<close>

section \<open>Constants\<close>

definition CLASSES :: "size list" where "CLASSES = [Small, Medium, Large]"

definition CELLS :: "string list" where
  "CELLS = [''fcfs_ref'', ''sjf_ref'', ''rr_ref'', ''drr_ref'', ''fcfs_st1'', ''rr_st1'']"

definition REFERENCE :: "string list" where
  "REFERENCE = [''fcfs_ref'', ''sjf_ref'', ''rr_ref'', ''drr_ref'']"

definition fmt_count :: "nat option \<Rightarrow> string" where
  "fmt_count x = (case x of None \<Rightarrow> ''n/a'' | Some n \<Rightarrow> fmt_fixed 0 (fl (of_nat n)))"

section \<open>Server logs\<close>

text \<open>
  The regular expression \<open>A14_RE\<close>. Every repetition in it is followed by a character it cannot
  match, so it matches in at most one way and is decided from left to right.
\<close>

definition eat :: "string \<Rightarrow> string \<Rightarrow> string option" where
  "eat lit s = (if starts_with lit s then Some (drop (length lit) s) else None)"

definition eat_some :: "(char \<Rightarrow> bool) \<Rightarrow> string \<Rightarrow> string option" where
  "eat_some p s = (if takeWhile p s = [] then None else Some (dropWhile p s))"

definition a14_match :: "string \<Rightarrow> bool" where
  "a14_match s =
     (case Option.bind (Option.bind (Option.bind (Option.bind (Option.bind (Option.bind (Option.bind
             (eat ''A14 request_id='' s) (eat_some is_digit)) (eat '' filename=''))
             (eat_some (\<lambda>c. \<not> py_space c))) (eat '' line_bytes='')) (eat_some is_digit))
             (eat '' quantum='')) (eat_some is_digit) of
        Some rest \<Rightarrow> rest = [] \<or> rest = [NL]
      | None \<Rightarrow> False)"

definition count_a14 :: "string option \<Rightarrow> nat option" where
  "count_a14 file =
     (case file of
        None \<Rightarrow> None
      | Some text \<Rightarrow> Some (length (filter (\<lambda>line. a14_match (py_strip line)) (py_lines text))))"

text \<open>\<open>re.search (r"send_calls=(\d+)", line)\<close>: the leftmost occurrence.\<close>

fun search_calls :: "string \<Rightarrow> string option" where
  "search_calls [] = None"
| "search_calls (c # s) =
     (case eat ''send_calls='' (c # s) of
        Some t \<Rightarrow> (if takeWhile is_digit t \<noteq> [] then Some (takeWhile is_digit t) else search_calls s)
      | None \<Rightarrow> search_calls s)"

fun first_calls :: "string list \<Rightarrow> int option py" where
  "first_calls [] = Inr None"
| "first_calls (line # ls) =
     (case search_calls line of
        Some ds \<Rightarrow> py_bind (py_int ds) (\<lambda>n. Inr (Some n))
      | None \<Rightarrow> first_calls ls)"

definition send_calls_of :: "string option \<Rightarrow> int option py" where
  "send_calls_of file = (case file of None \<Rightarrow> Inr None | Some text \<Rightarrow> first_calls (py_lines text))"

section \<open>run_metrics\<close>

record class_metrics =
  c_n :: nat
  c_n_get :: nat
  c_slow_med :: "rat option"
  c_slow_p99 :: "rat option"
  c_wait_avg_ns :: rat
  c_wait_p50_ns :: "int option"
  c_wait_p99_ns :: "int option"
  c_forfeited :: int
  c_rounds_mean_get :: rat
  c_rounds_max_get :: int

record metrics =
  m_n :: nat
  m_wait_p50_ns :: "int option"
  m_wait_p99_ns :: "int option"
  m_resp_p50_ns :: "int option"
  m_resp_p99_ns :: "int option"
  m_throughput :: pyfloat
  m_by_class :: "(size \<times> class_metrics) list"

definition py_max :: "int list \<Rightarrow> int py" where
  "py_max xs = (if xs = [] then Inl ValueError else Inr (Max (set xs)))"

definition py_min :: "int list \<Rightarrow> int py" where
  "py_min xs = (if xs = [] then Inl ValueError else Inr (Min (set xs)))"

definition waiting_of :: "row \<Rightarrow> int" where "waiting_of r = r_start r - r_arrival r"
definition response_of :: "row \<Rightarrow> int" where "response_of r = r_finish r - r_arrival r"

definition op_is_get :: "row \<Rightarrow> bool py" where
  "op_is_get r = (case r_cells r ''op'' of None \<Rightarrow> Inl KeyError | Some v \<Rightarrow> Inr (v = Some ''GET''))"

text \<open>\<open>sum (xs) / len (xs)\<close> if there are any, else \<open>0.0\<close>.\<close>

definition mean_or_zero :: "int list \<Rightarrow> rat py" where
  "mean_or_zero xs = (if xs \<noteq> [] then true_div (sum_list xs) (int (length xs)) else Inr 0)"

text \<open>A quotient of floats with a divisor of at least 1 in magnitude cannot overflow.\<close>

definition float_quot :: "rat \<Rightarrow> rat \<Rightarrow> rat" where
  "float_quot a b = fl (a / b)"

definition slowdowns :: "row list \<Rightarrow> rat list py" where
  "slowdowns rows =
     py_bind (py_map (\<lambda>r. true_div (response_of r) (r_bytes r)) (filter (\<lambda>r. r_bytes r > 0) rows))
       (\<lambda>xs. Inr (sort xs))"

definition class_rows :: "row list \<Rightarrow> size \<Rightarrow> row list py" where
  "class_rows rows cls = py_filter (\<lambda>r. py_bind (row_class r) (\<lambda>c. Inr (c = cls))) rows"

definition class_metrics_of :: "row list \<Rightarrow> size \<Rightarrow> class_metrics py" where
  "class_metrics_of rows cls =
     py_bind (class_rows rows cls) (\<lambda>crows.
     py_bind (slowdowns crows) (\<lambda>slow.
     let cw = sort (map waiting_of crows) in
     py_bind (py_filter op_is_get crows) (\<lambda>gets.
     py_bind (mean_or_zero cw) (\<lambda>wait_avg.
     py_bind (mean_or_zero (map r_rounds gets)) (\<lambda>rounds_mean.
     Inr \<lparr>c_n = length crows, c_n_get = length gets,
          c_slow_med = nearest_rank_percentile slow 50, c_slow_p99 = nearest_rank_percentile slow 99,
          c_wait_avg_ns = wait_avg,
          c_wait_p50_ns = nearest_rank_percentile cw 50, c_wait_p99_ns = nearest_rank_percentile cw 99,
          c_forfeited = sum_list (map r_forfeited crows),
          c_rounds_mean_get = rounds_mean,
          c_rounds_max_get = (if gets = [] then 0 else Max (set (map r_rounds gets)))\<rparr>)))))"

definition run_metrics :: "string option \<Rightarrow> int \<Rightarrow> metrics py" where
  "run_metrics file seed_count =
     py_bind (load_rows file) (\<lambda>all_rows.
     let rows = exclude_seed_rows all_rows seed_count;
         waiting = sort (map waiting_of rows);
         response = sort (map response_of rows) in
     py_bind (py_max (map r_finish rows)) (\<lambda>max_finish.
     py_bind (py_min (map r_arrival rows)) (\<lambda>min_arrival.
     py_bind (float_of_int (max_finish - min_arrival)) (\<lambda>span.
     py_bind (float_of_int (int (length rows))) (\<lambda>n.
     py_bind (float_div n (float_quot span 1000000000)) (\<lambda>throughput.
     py_bind (py_map (\<lambda>cls. py_bind (class_metrics_of rows cls) (\<lambda>cm. Inr (cls, cm))) CLASSES) (\<lambda>by_class.
     Inr \<lparr>m_n = length rows,
          m_wait_p50_ns = nearest_rank_percentile waiting 50,
          m_wait_p99_ns = nearest_rank_percentile waiting 99,
          m_resp_p50_ns = nearest_rank_percentile response 50,
          m_resp_p99_ns = nearest_rank_percentile response 99,
          m_throughput = throughput, m_by_class = by_class\<rparr>)))))))"

section \<open>load_all\<close>

definition path_join :: "string \<Rightarrow> string \<Rightarrow> string" where
  "path_join a b =
     (if starts_with ''/'' b then b
      else if a = [] \<or> ends_with ''/'' a then a @ b else a @ ''/'' @ b)"

record collected =
  d_cells :: "(string \<times> metrics) list"
  d_a14 :: "(string \<times> nat option) list"
  d_rerun :: "(string \<times> metrics) list"
  d_aside :: "(string \<times> metrics \<times> int option) list"

type_synonym files = "string \<rightharpoonup> string"

text \<open>A loop body that adds an entry when the file exists.\<close>

definition metrics_if :: "files \<Rightarrow> string \<Rightarrow> int \<Rightarrow> metrics option py" where
  "metrics_if fs p seed_count =
     (if fs p = None then Inr None else py_bind (run_metrics (fs p) seed_count) (\<lambda>m. Inr (Some m)))"

fun load_cells :: "files \<Rightarrow> string \<Rightarrow> int \<Rightarrow> string list \<Rightarrow> collected \<Rightarrow> collected py" where
  "load_cells fs d k [] out = Inr out"
| "load_cells fs d k (cell # cs) out =
     py_bind (metrics_if fs (path_join d (cell @ ''.csv'')) k) (\<lambda>m.
     let out1 = (case m of None \<Rightarrow> out
                 | Some m \<Rightarrow> out\<lparr>d_cells := d_cells out @ [(cell, m)],
                     d_a14 := d_a14 out @ [(cell, count_a14 (fs (path_join d (cell @ ''.server.log''))))]\<rparr>) in
     py_bind (metrics_if fs (path_join d (cell @ ''_rerun.csv'')) k) (\<lambda>rm.
     let out2 = (case rm of None \<Rightarrow> out1 | Some m \<Rightarrow> out1\<lparr>d_rerun := d_rerun out1 @ [(cell, m)]\<rparr>) in
     load_cells fs d k cs out2))"

fun load_aside :: "files \<Rightarrow> string \<Rightarrow> int \<Rightarrow> string list \<Rightarrow> collected \<Rightarrow> collected py" where
  "load_aside fs d k [] out = Inr out"
| "load_aside fs d k (name # ns) out =
     py_bind (metrics_if fs (path_join (path_join d name) ''fcfs_ref.csv'') k) (\<lambda>m.
       case m of
         None \<Rightarrow> load_aside fs d k ns out
       | Some m \<Rightarrow>
           py_bind (send_calls_of (fs (path_join (path_join d name) ''fcfs_ref.server.log''))) (\<lambda>sc.
             load_aside fs d k ns (out\<lparr>d_aside := d_aside out @ [(name, m, sc)]\<rparr>)))"

definition load_all :: "files \<Rightarrow> string \<Rightarrow> int \<Rightarrow> collected py" where
  "load_all fs results_dir seed_count =
     py_bind (load_cells fs results_dir seed_count CELLS \<lparr>d_cells = [], d_a14 = [], d_rerun = [], d_aside = []\<rparr>)
       (load_aside fs results_dir seed_count [''aside_p1'', ''aside_p10''])"

section \<open>Properties\<close>

lemma class_rows_Inr:
  assumes "class_rows rows cls = Inr crows"
  shows "\<forall>r \<in> set rows. row_class r = Inr (projr (row_class r))"
    and "crows = filter (\<lambda>r. projr (row_class r) = cls) rows"
proof -
  from py_filter_Inr [OF assms [unfolded class_rows_def]]
  have ok: "\<forall>r \<in> set rows. py_bind (row_class r) (\<lambda>c. Inr (c = cls)) =
        Inr (projr (py_bind (row_class r) (\<lambda>c. Inr (c = cls))))"
    and crows: "crows = filter (\<lambda>r. projr (py_bind (row_class r) (\<lambda>c. Inr (c = cls)))) rows" by blast+
  show cls: "\<forall>r \<in> set rows. row_class r = Inr (projr (row_class r))"
  proof
    fix r assume "r \<in> set rows"
    with ok show "row_class r = Inr (projr (row_class r))" by (cases "row_class r") auto
  qed
  show "crows = filter (\<lambda>r. projr (row_class r) = cls) rows"
    unfolding crows
  proof (rule filter_cong [OF refl])
    fix r assume "r \<in> set rows"
    with cls obtain c where "row_class r = Inr c" by blast
    then show "projr (py_bind (row_class r) (\<lambda>c. Inr (c = cls))) = (projr (row_class r) = cls)"
      by simp
  qed
qed

lemma class_metrics_Inr:
  assumes "class_metrics_of rows cls = Inr cm"
  obtains crows where "class_rows rows cls = Inr crows" "c_n cm = length crows"
    "c_forfeited cm = sum_list (map r_forfeited crows)"
  using assms by (auto simp: class_metrics_of_def py_bind_Inr Let_def)

lemma run_metrics_Inr:
  assumes "run_metrics file k = Inr m"
  obtains all_rows where "load_rows file = Inr all_rows" "m_n m = length (exclude_seed_rows all_rows k)"
    "py_map (\<lambda>cls. py_bind (class_metrics_of (exclude_seed_rows all_rows k) cls) (\<lambda>cm. Inr (cls, cm))) CLASSES =
       Inr (m_by_class m)"
  using assms by (auto simp: run_metrics_def py_bind_Inr Let_def)

lemma three_classes:
  fixes f :: "'a \<Rightarrow> size" and g :: "'a \<Rightarrow> 'b::comm_monoid_add"
  shows "sum_list (map g (filter (\<lambda>r. f r = Small) rows)) + (sum_list (map g (filter (\<lambda>r. f r = Medium) rows)) +
     sum_list (map g (filter (\<lambda>r. f r = Large) rows))) = sum_list (map g rows)"
proof (induction rows)
  case (Cons r rows)
  then show ?case by (cases "f r") (auto simp: ac_simps)
qed simp

text \<open>
  C27. The three size classes partition the run: whenever \<open>run_metrics\<close> succeeds it reports every
  class once, in the order small, medium, large; their row counts add up to the number of rows that
  are not seeding uploads, and their forfeited bytes to the forfeited bytes of those rows.
\<close>

theorem run_metrics_partition:
  assumes "run_metrics file k = Inr m"
  shows "map fst (m_by_class m) = CLASSES \<and>
    (\<exists>all_rows. load_rows file = Inr all_rows \<and>
       m_n m = length (exclude_seed_rows all_rows k) \<and>
       sum_list (map (c_n \<circ> snd) (m_by_class m)) = m_n m \<and>
       sum_list (map (c_forfeited \<circ> snd) (m_by_class m)) =
         sum_list (map r_forfeited (exclude_seed_rows all_rows k)))"
proof -
  from run_metrics_Inr [OF assms] obtain all_rows where load: "load_rows file = Inr all_rows"
    and n: "m_n m = length (exclude_seed_rows all_rows k)"
    and by_class: "py_map (\<lambda>cls. py_bind (class_metrics_of (exclude_seed_rows all_rows k) cls) (\<lambda>cm. Inr (cls, cm))) CLASSES =
       Inr (m_by_class m)" .
  let ?rows = "exclude_seed_rows all_rows k"
  from by_class have "\<exists>c1 c2 c3. m_by_class m = [(Small, c1), (Medium, c2), (Large, c3)] \<and>
      class_metrics_of ?rows Small = Inr c1 \<and> class_metrics_of ?rows Medium = Inr c2 \<and>
      class_metrics_of ?rows Large = Inr c3"
    by (auto simp: CLASSES_def py_bind_Inr)
  then obtain c1 c2 c3 where m: "m_by_class m = [(Small, c1), (Medium, c2), (Large, c3)]"
    and cm: "class_metrics_of ?rows Small = Inr c1" "class_metrics_of ?rows Medium = Inr c2"
      "class_metrics_of ?rows Large = Inr c3" by blast
  let ?rows_of = "\<lambda>cls. filter (\<lambda>r. projr (row_class r) = cls) ?rows"
  have fields: "c_n c = length (?rows_of cls)" "c_forfeited c = sum_list (map r_forfeited (?rows_of cls))"
    if "class_metrics_of ?rows cls = Inr c" for cls c
    using class_metrics_Inr [OF that] class_rows_Inr(2) by metis+
  have "length (?rows_of Small) + (length (?rows_of Medium) + length (?rows_of Large)) = length ?rows"
    using three_classes [of "\<lambda>_. 1 :: nat" "\<lambda>r. projr (row_class r)" ?rows]
    by (simp add: sum_list_triv)
  moreover note three_classes [of r_forfeited "\<lambda>r. projr (row_class r)" ?rows]
  ultimately show ?thesis
    using load n m cm [THEN fields(1)] cm [THEN fields(2)] by (simp add: CLASSES_def)
qed

text \<open>A metrics file with one finished download, for the witnesses.\<close>

definition sample_done :: request where
  "sample_done = new_request\<lparr>rid := 4, filename := ''small.txt'', bytes := 1000000000, arrival_ns := 5, start_ns := 6,
     finish_ns := 1000000005, rounds := 1\<rparr>"

definition sample_csv :: string where
  "sample_csv = out_text (csv_close (fold write_row [sample_done] csv_open))"

lemma sample_load: "load_rows (Some sample_csv) = Inr [row_of sample_done]"
  unfolding sample_csv_def
  using csv_roundtrip_rows [of "[sample_done]"]
  by (simp add: sample_done_def u64_fields_def u64_max_def new_request_def plain_field_def field_limit_def)

lemma fl_samples: "fl 1 = 1" "fl 1000000000 = 1000000000"
  by (simp_all add: fl_def exponent_of_def bit_length.simps pow2_def round_half_even_def)

lemma sample_class: "row_class (row_of sample_done) = Inr Small"
  by (simp add: row_class_def row_of_def dict_row_def csv_columns_def csv_fields_def sample_done_def
      new_request_def size_class_def py_lower_def lower_char_def ord_def)

lemma sample_metrics: "\<exists>m. run_metrics (Some sample_csv) 0 = Inr m"
proof -
  let ?r = "row_of sample_done"
  note cls = sample_class
  have get: "op_is_get ?r = Inr True"
    by (simp add: op_is_get_def row_of_def dict_row_def csv_columns_def csv_fields_def sample_done_def new_request_def)
  have nums: "r_bytes ?r = 1000000000" "r_arrival ?r = 5" "r_start ?r = 6" "r_finish ?r = 1000000005" "r_rounds ?r = 1"
    by (simp_all add: row_of_def sample_done_def new_request_def)
  have over: "\<not> fl_overflow 1" "\<not> fl_overflow 1000000000" by (simp_all add: fl_overflow_def pow2_def)
  have rows: "exclude_seed_rows [?r] 0 = [?r]" by (simp add: exclude_seed_rows_def slice_from_def)
  have "\<exists>cm. class_metrics_of [?r] c = Inr cm" for c
    by (cases c) (simp_all add: class_metrics_of_def class_rows_def cls get slowdowns_def true_div_def
        response_of_def waiting_of_def nums fl_samples over mean_or_zero_def Let_def)
  then obtain cm where "\<And>c. class_metrics_of [?r] c = Inr (cm c)" by metis
  then show ?thesis
    by (simp add: run_metrics_def sample_load rows py_max_def py_min_def nums float_of_int_def fl_samples over
        float_div_def float_quot_def CLASSES_def Let_def)
qed

theorem run_metrics_partition_witness:
  "map fst (m_by_class (projr (run_metrics (Some sample_csv) 0))) = CLASSES"
proof -
  from sample_metrics obtain m where m: "run_metrics (Some sample_csv) 0 = Inr m" by blast
  from run_metrics_partition [OF m] m show ?thesis by simp
qed

end
