(* ===== verification/Py_Analysis.thy ===== *)
theory Py_Analysis
  imports Py_Metrics
begin

text \<open>
  \<open>scripts/analysis.py\<close> and \<open>scripts/compare_rr_drr.py\<close>: the two command line reports over metrics
  files. Their arguments (parsed by \<open>argparse\<close>) are the arguments of the definitions; a file is
  given by its contents, \<open>None\<close> if it does not exist.
\<close>

fun size_str :: "size \<Rightarrow> string" where
  "size_str Small = ''small''"
| "size_str Medium = ''medium''"
| "size_str Large = ''large''"

section \<open>analysis.py\<close>

definition opt_str :: "int option \<Rightarrow> string" where
  "opt_str x = (case x of None \<Rightarrow> ''None'' | Some i \<Rightarrow> int_str i)"

text \<open>\<open>n / window_s if window_s > 0 else float ("inf")\<close>.\<close>

definition throughput_of :: "row list \<Rightarrow> pyfloat py" where
  "throughput_of rows =
     py_bind (py_max (map r_finish rows)) (\<lambda>max_finish.
     py_bind (py_min (map r_arrival rows)) (\<lambda>min_arrival.
     py_bind (float_of_int (max_finish - min_arrival)) (\<lambda>span.
     let window_s = float_quot span 1000000000 in
     if window_s > 0 then py_bind (float_of_int (int (length rows))) (\<lambda>n. float_div n window_s)
     else Inr (Infinite False))))"

fun slow_by_class :: "row list \<Rightarrow> (size \<Rightarrow> rat list) \<Rightarrow> (size \<Rightarrow> rat list) py" where
  "slow_by_class [] acc = Inr acc"
| "slow_by_class (r # rs) acc =
     (if r_bytes r = 0 then slow_by_class rs acc
      else py_bind (true_div (response_of r) (r_bytes r)) (\<lambda>sd.
           py_bind (row_class r) (\<lambda>cls. slow_by_class rs (acc(cls := acc cls @ [sd])))))"

text \<open>The two percentiles of a list that is not empty.\<close>

definition med_p99 :: "rat list \<Rightarrow> string" where
  "med_p99 vals =
     ''median='' @ fmt_fixed 3 (the (nearest_rank_percentile vals 50)) @
     ''  p99='' @ fmt_fixed 3 (the (nearest_rank_percentile vals 99)) @
     ''  (n='' @ nat_str (length vals) @ '')''"

definition analysis_main :: "string option \<Rightarrow> int \<Rightarrow> bool \<Rightarrow> unit run" where
  "analysis_main csv seed_count slowdown =
     run_bind (lift_py (load_rows csv)) (\<lambda>all_rows.
     let rows = exclude_seed_rows all_rows seed_count in
     if rows = [] then
       run_bind (complain ''error: no non-seed rows found - check --seed-count'') (\<lambda>_.
         lift_py (Inl (SystemExit ''1'')))
     else
       let waiting = sort (map waiting_of rows) in
       run_bind (lift_py (throughput_of rows)) (\<lambda>thr.
       run_bind (say (''N (excl. '' @ int_str seed_count @ '' seed rows) = '' @ nat_str (length rows))) (\<lambda>_.
       run_bind (say (''waiting p50 = '' @ opt_str (nearest_rank_percentile waiting 50) @ '' ns'')) (\<lambda>_.
       run_bind (say (''waiting p99 = '' @ opt_str (nearest_rank_percentile waiting 99) @ '' ns'')) (\<lambda>_.
       run_bind (say (''throughput  = '' @ fmt_float 2 thr @ '' req/s'')) (\<lambda>_.
       if \<not> slowdown then lift_py (Inr ())
       else
         run_bind (lift_py (slow_by_class rows (\<lambda>_. []))) (\<lambda>by_class.
         run_bind (say (NL # ''normalised slowdown (ns/byte) by size class:'')) (\<lambda>_.
         run_each (\<lambda>cls. let vals = sort (by_class cls) in
             if vals = [] then lift_py (Inr ())
             else say (''  '' @ size_str cls @ '': '' @ med_p99 vals)) CLASSES))))))))"

section \<open>compare_rr_drr.py\<close>

definition count_a14_fires :: "string option \<Rightarrow> nat py" where
  "count_a14_fires logf =
     (case logf of
        None \<Rightarrow> Inl FileNotFoundError
      | Some text \<Rightarrow>
          Inr (foldl (\<lambda>count line. if a14_match (py_strip line) then count + 1 else count) 0 (py_lines text)))"

fun forfeited_loop :: "row list \<Rightarrow> (size \<rightharpoonup> int) \<Rightarrow> (size \<rightharpoonup> int) py" where
  "forfeited_loop [] totals = Inr totals"
| "forfeited_loop (r # rs) totals =
     py_bind (row_class r) (\<lambda>cls.
       forfeited_loop rs
         (totals(cls \<mapsto> (case totals cls of None \<Rightarrow> 0 | Some t \<Rightarrow> t) + r_forfeited r)))"

definition forfeited_by_class :: "row list \<Rightarrow> (size \<rightharpoonup> int) py" where
  "forfeited_by_class rows = forfeited_loop rows Map.empty"

fun slow_file_loop :: "row list \<Rightarrow> string \<Rightarrow> rat list py" where
  "slow_file_loop [] fname = Inr []"
| "slow_file_loop (r # rs) fname =
     (case r_cells r ''filename'' of
        None \<Rightarrow> Inl KeyError
      | Some f \<Rightarrow>
          if f = Some fname \<and> r_bytes r > 0
          then py_bind (true_div (response_of r) (r_bytes r)) (\<lambda>sd.
               py_bind (slow_file_loop rs fname) (\<lambda>sds. Inr (sd # sds)))
          else slow_file_loop rs fname)"

definition slowdown_for_file :: "row list \<Rightarrow> string \<Rightarrow> rat list py" where
  "slowdown_for_file rows fname = py_bind (slow_file_loop rows fname) (\<lambda>xs. Inr (sort xs))"

definition class_total :: "(size \<rightharpoonup> int) \<Rightarrow> size \<Rightarrow> int" where
  "class_total totals cls = (case totals cls of None \<Rightarrow> 0 | Some t \<Rightarrow> t)"

definition compare_main ::
  "string option \<Rightarrow> string option \<Rightarrow> string option \<Rightarrow> int \<Rightarrow> string \<Rightarrow> unit run" where
  "compare_main rr_csv drr_csv rr_log seed_count long_line_file =
     run_bind (lift_py (load_rows rr_csv)) (\<lambda>rr_all.
     run_bind (lift_py (load_rows drr_csv)) (\<lambda>drr_all.
     let rr_rows = exclude_seed_rows rr_all seed_count; drr_rows = exclude_seed_rows drr_all seed_count in
     run_bind (say ''forfeited_bytes by size class:'') (\<lambda>_.
     run_bind (run_each (\<lambda>cls.
         run_bind (lift_py (forfeited_by_class rr_rows)) (\<lambda>rr_f.
         run_bind (lift_py (forfeited_by_class drr_rows)) (\<lambda>drr_f.
         say (''  '' @ size_str cls @ '': rr='' @ int_str (class_total rr_f cls) @
              ''  drr='' @ int_str (class_total drr_f cls))))) CLASSES) (\<lambda>_.
     run_bind (lift_py (count_a14_fires rr_log)) (\<lambda>fires.
     run_bind (say (NL # ''A14 fired '' @ nat_str fires @ '' time(s) under rr (drr never takes this path, A16)'')) (\<lambda>_.
     run_each (\<lambda>(label, rows).
         run_bind (lift_py (slowdown_for_file rows long_line_file)) (\<lambda>vals.
         if vals = [] then complain (NL # label @ '': no rows for '' @ long_line_file)
         else say (NL # label @ '' slowdown for '' @ long_line_file @ '' (ns/byte): '' @ med_p99 vals)))
       [(''rr'', rr_rows), (''drr'', drr_rows)]))))))"

section \<open>Properties\<close>

lemma forfeited_loop_sum:
  "forfeited_loop rows totals = Inr totals' \<Longrightarrow>
     class_total totals' cls =
       class_total totals cls + sum_list (map r_forfeited (filter (\<lambda>r. projr (row_class r) = cls) rows))"
proof (induction rows arbitrary: totals)
  case (Cons r rows)
  then obtain c where c: "row_class r = Inr c" by (auto simp: py_bind_Inr)
  with Cons.prems have "forfeited_loop rows (totals(c \<mapsto> class_total totals c + r_forfeited r)) = Inr totals'"
    by (simp add: class_total_def)
  from Cons.IH [OF this] c show ?case by (auto simp: class_total_def)
qed (simp add: class_total_def)

lemma forfeited_loop_ok:
  "\<forall>r \<in> set rows. row_class r = Inr (projr (row_class r)) \<Longrightarrow> \<exists>totals'. forfeited_loop rows totals = Inr totals'"
proof (induction rows arbitrary: totals)
  case (Cons r rows)
  then obtain c where "row_class r = Inr c" by auto
  with Cons show ?case by simp
qed simp

text \<open>
  C28. The two scripts agree on the forfeited bytes: whenever \<open>metrics.py\<close> has metrics for a file,
  \<open>compare_rr_drr.py\<close> computes the same total for every size class (0 for a class without rows).
\<close>

theorem forfeited_agrees:
  assumes "run_metrics file k = Inr m" and "load_rows file = Inr all_rows"
  shows "\<exists>totals. forfeited_by_class (exclude_seed_rows all_rows k) = Inr totals \<and>
     (\<forall>(cls, cm) \<in> set (m_by_class m). class_total totals cls = c_forfeited cm)"
proof -
  let ?rows = "exclude_seed_rows all_rows k"
  from run_metrics_Inr [OF assms(1)] assms(2)
  have by_class: "py_map (\<lambda>cls. py_bind (class_metrics_of ?rows cls) (\<lambda>cm. Inr (cls, cm))) CLASSES = Inr (m_by_class m)"
    by auto
  then obtain cm0 where "class_metrics_of ?rows Small = Inr cm0" by (auto simp: CLASSES_def py_bind_Inr)
  then obtain crows where "class_rows ?rows Small = Inr crows" by (rule class_metrics_Inr)
  from class_rows_Inr(1) [OF this] forfeited_loop_ok obtain totals
    where totals: "forfeited_loop ?rows Map.empty = Inr totals" by blast
  have "class_total totals cls = c_forfeited cm" if "(cls, cm) \<in> set (m_by_class m)" for cls cm
  proof -
    from py_map_mem [OF by_class that] have "class_metrics_of ?rows cls = Inr cm"
      by (auto simp: py_bind_Inr)
    with class_metrics_Inr class_rows_Inr(2)
    have "c_forfeited cm = sum_list (map r_forfeited (filter (\<lambda>r. projr (row_class r) = cls) ?rows))" by metis
    with forfeited_loop_sum [OF totals, of cls] show ?thesis by (simp add: class_total_def)
  qed
  with totals show ?thesis by (auto simp: forfeited_by_class_def)
qed

theorem forfeited_agrees_witness:
  "\<exists>totals. forfeited_by_class (exclude_seed_rows [row_of sample_done] 0) = Inr totals"
proof -
  from sample_metrics obtain m where m: "run_metrics (Some sample_csv) 0 = Inr m" by blast
  from forfeited_agrees [OF m sample_load] show ?thesis by blast
qed

text \<open>
  C37. Runs of no measurable duration: if every remaining request finished at the instant the first
  one arrived, \<open>analysis.py\<close> reports an infinite throughput while \<open>metrics.py\<close>, and with it
  \<open>summarize.py\<close> and \<open>make_report.py\<close>, divides by zero. With no remaining rows \<open>analysis.py\<close> exits
  with its error message and \<open>metrics.py\<close> raises \<open>ValueError\<close>.
\<close>

theorem degenerate_runs:
  assumes "load_rows file = Inr all_rows" and "exclude_seed_rows all_rows k = rows"
  shows "(rows = [] \<longrightarrow> run_metrics file k = Inl ValueError \<and>
      analysis_main file k s = ([Err ''error: no non-seed rows found - check --seed-count''], Inl (SystemExit ''1''))) \<and>
    (rows \<noteq> [] \<longrightarrow> Max (set (map r_finish rows)) = Min (set (map r_arrival rows)) \<longrightarrow>
      float_of_int (int (length rows)) = Inr n \<longrightarrow>
      run_metrics file k = Inl ZeroDivisionError \<and> throughput_of rows = Inr (Infinite False))"
proof -
  have z: "float_of_int 0 = Inr 0" "float_quot 0 1000000000 = 0"
    by (simp_all add: float_of_int_def fl_def fl_overflow_def pow2_def float_quot_def)
  have "run_metrics file k = Inl ValueError \<and>
      analysis_main file k s = ([Err ''error: no non-seed rows found - check --seed-count''], Inl (SystemExit ''1''))"
    if "rows = []"
    using that assms(2)
    by (simp add: run_metrics_def assms(1) py_max_def analysis_main_def lift_py_def complain_def Let_def)
  moreover have "run_metrics file k = Inl ZeroDivisionError \<and> throughput_of rows = Inr (Infinite False)"
    if "rows \<noteq> []" "Max (set (map r_finish rows)) = Min (set (map r_arrival rows))"
      "float_of_int (int (length rows)) = Inr n"
    using that assms(2)
    by (simp add: run_metrics_def assms(1) py_max_def py_min_def throughput_of_def Let_def z float_div_def)
  ultimately show ?thesis by blast
qed

theorem degenerate_runs_witness:
  "run_metrics (Some sample_csv) 1 = Inl ValueError"
  using degenerate_runs [OF sample_load, of 1 "[]"] by (simp add: exclude_seed_rows_def slice_from_def)

end
