(* ===== verification/Log_Roundtrip.thy ===== *)
theory Log_Roundtrip
  imports Slice Py_Analysis
begin

text \<open>
  The contract between the server's A14 log line (\<open>log_a14_fire\<close>) and the two scripts that count
  such lines with a regular expression.
\<close>

lemma eat_append [simp]: "eat lit (lit @ s) = Some s"
  by (simp add: eat_def starts_with_prefix)

lemma eat_some_stop: "xs \<noteq> [] \<Longrightarrow> list_all p xs \<Longrightarrow> \<not> p c \<Longrightarrow> eat_some p (xs @ c # s) = Some (c # s)"
  by (simp add: eat_some_def takeWhile_append_stop dropWhile_append_stop)

lemma eat_some_end: "xs \<noteq> [] \<Longrightarrow> list_all p xs \<Longrightarrow> eat_some p xs = Some []"
  by (simp add: eat_some_def takeWhile_all dropWhile_all)

lemma digit_not_py_space: "is_digit c \<Longrightarrow> \<not> py_space c"
  by (auto simp: is_digit_def py_space_def)

lemma py_strip_line:
  assumes "s \<noteq> []" and "\<not> py_space (hd s)" and "\<not> py_space (last s)"
  shows "py_strip (s @ [NL]) = s"
proof -
  have "py_space NL" by (simp add: py_space_def ord_def)
  moreover have "dropWhile py_space (s @ [NL]) = s @ [NL]"
    using assms(1,2) by (cases s) simp_all
  moreover have "dropWhile py_space (rev s) = rev s"
    using assms(1,3) by (cases s rule: rev_cases) simp_all
  ultimately show ?thesis by (simp add: py_strip_def)
qed

text \<open>A file name that the pattern \<open>\S+\<close> matches: not empty and without white space.\<close>

definition solid_name :: "string \<Rightarrow> bool" where
  "solid_name f \<longleftrightarrow> f \<noteq> [] \<and> list_all (\<lambda>c. \<not> py_space c) f"

definition a14_body :: "nat \<Rightarrow> string \<Rightarrow> nat \<Rightarrow> nat \<Rightarrow> string" where
  "a14_body i f l q =
     ''A14 request_id='' @ nat_str i @ '' filename='' @ f @ '' line_bytes='' @ nat_str l @ '' quantum='' @ nat_str q"

lemma a14_body_match:
  assumes "solid_name f"
  shows "a14_match (a14_body i f l q)"
proof -
  have sp: "py_space SP" by (simp add: py_space_def ord_def)
  have d: "\<not> is_digit SP" by (simp add: is_digit_def ord_def)
  have "eat_some is_digit (nat_str i @ '' filename='' @ s) = Some ('' filename='' @ s)"
    "eat_some is_digit (nat_str l @ '' quantum='' @ s) = Some ('' quantum='' @ s)" for s
    using eat_some_stop [of "nat_str i" is_digit SP "''filename='' @ s"]
      eat_some_stop [of "nat_str l" is_digit SP "''quantum='' @ s"] d by simp_all
  moreover have "eat_some (\<lambda>c. \<not> py_space c) (f @ '' line_bytes='' @ s) = Some ('' line_bytes='' @ s)" for s
    using eat_some_stop [of f "\<lambda>c. \<not> py_space c" SP "''line_bytes='' @ s"] sp assms by (simp add: solid_name_def)
  moreover have "eat_some is_digit (nat_str q) = Some []" by (rule eat_some_end) simp_all
  ultimately show ?thesis
    by (simp only: a14_match_def a14_body_def eat_append Option.bind.simps option.case) simp
qed

lemma a14_line_match:
  assumes "solid_name f"
  shows "a14_match (py_strip (log_a14_fire i f l q))"
proof -
  have "log_a14_fire i f l q = a14_body i f l q @ [NL]" by (simp add: log_a14_fire_def a14_body_def)
  moreover have "last (a14_body i f l q) = last (nat_str q)" by (simp add: a14_body_def)
  moreover have "\<not> py_space (last (nat_str q))"
    by (rule digit_not_py_space [OF nat_str_digits [OF last_in_set]]) simp
  moreover have "\<not> py_space (hd (a14_body i f l q))" by (simp add: a14_body_def py_space_def ord_def)
  moreover have "a14_body i f l q \<noteq> []" by (simp add: a14_body_def)
  ultimately show ?thesis using a14_body_match [OF assms] by (simp add: py_strip_line)
qed

lemma a14_lines:
  assumes "solid_name f"
  shows "py_lines (log_a14_fire i f l q @ s) = log_a14_fire i f l q # py_lines s"
proof -
  have "NL \<notin> set (nat_str n)" "CR \<notin> set (nat_str n)" for n
    using nat_str_digits is_digit_neq(2,3) by blast+
  moreover have "NL \<notin> set f" "CR \<notin> set f"
    using assms by (auto simp: solid_name_def list_all_iff py_space_def ord_def)
  ultimately have "NL \<notin> set (a14_body i f l q)" "CR \<notin> set (a14_body i f l q)"
    by (auto simp: a14_body_def)
  from py_lines_line [OF this, of s] show ?thesis by (simp add: log_a14_fire_def a14_body_def)
qed

lemma a14_log_lines:
  "solid_name f \<Longrightarrow>
     py_lines (concat (map (\<lambda>l. log_a14_fire i f (len l) q) ls)) = map (\<lambda>l. log_a14_fire i f (len l) q) ls"
  by (induction ls) (simp_all add: a14_lines)

lemma count_a14_log:
  assumes "solid_name f"
  shows "count_a14 (Some (concat (map (\<lambda>l. log_a14_fire i f (len l) q) ls))) = Some (length ls)"
proof -
  have "filter (\<lambda>line. a14_match (py_strip line)) (map (\<lambda>l. log_a14_fire i f (len l) q) ls) =
      map (\<lambda>l. log_a14_fire i f (len l) q) ls"
    using a14_line_match [OF assms] by (auto simp: filter_id_conv)
  then show ?thesis by (simp add: count_a14_def a14_log_lines [OF assms])
qed

text \<open>The loop of \<open>compare_rr_drr.py\<close> counts what the generator expression of \<open>metrics.py\<close> counts.\<close>

lemma count_fires_eq: "count_a14_fires file = (case count_a14 file of None \<Rightarrow> Inl FileNotFoundError | Some n \<Rightarrow> Inr n)"
proof -
  have "foldl (\<lambda>count line. if a14_match (py_strip line) then count + 1 else count) (k :: nat) ls =
      k + length (filter (\<lambda>line. a14_match (py_strip line)) ls)" for k ls
    by (induction ls arbitrary: k) auto
  then show ?thesis by (simp add: count_a14_fires_def count_a14_def split: option.splits)
qed

end
