(* ===== verification/Server_Boot.thy ===== *)
theory Server_Boot
  imports Server_Runs Config
begin

text \<open>
  How the server starts: \<open>main\<close> of \<open>src/server/main.cpp\<close> up to the worker threads. The command line, the
  configuration, the metrics file and the listening socket come in this order, and each of them can
  end the process with a message; whether files can be written and sockets opened is an argument.
\<close>

record boot_env =
  be_is_dir :: "string \<Rightarrow> bool"
  be_read :: "string \<Rightarrow> string option"
  be_parse :: "string \<Rightarrow> json outcome"
  be_writable :: "string \<Rightarrow> bool"
  be_socket :: "string option"
  be_ip_valid :: "string \<Rightarrow> bool"
  be_bind :: "string \<Rightarrow> nat \<Rightarrow> string option"
  be_listen :: "string option"

text \<open>\<open>Some e\<close> in one of the last fields is the text of the error the call ends with.\<close>

definition make_listening_socket :: "boot_env \<Rightarrow> string \<Rightarrow> nat \<Rightarrow> unit outcome" where
  "make_listening_socket v ip port =
     (case be_socket v of
        Some e \<Rightarrow> Inl (''error: socket() failed: '' @ e)
      | None \<Rightarrow>
          if \<not> (ip = [] \<or> ip = ''0.0.0.0'') \<and> \<not> be_ip_valid v ip
          then Inl (''error: invalid server.ip in config: '' @ ip)
          else
            (case be_bind v ip port of
               Some e \<Rightarrow> Inl (''error: bind() failed: '' @ e)
             | None \<Rightarrow>
                 (case be_listen v of
                    Some e \<Rightarrow> Inl (''error: listen() failed: '' @ e)
                  | None \<Rightarrow> Inr ())))"

definition start_message :: "args \<Rightarrow> server_config \<Rightarrow> string" where
  "start_message a s =
     ''server: CLI parsed OK (sched='' @ a_sched a @ '', quantum='' @
     (if a_has_quantum a then nat_str (a_quantum a) else ''n/a'') @ '', file='' @ a_file_dir a @
     '', p='' @ int_str (a_p_lines a) @ '', config='' @ a_config_path a @ '', metrics-out='' @ a_metrics_out a @
     ''). Listening on '' @ sc_ip s @ '':'' @ nat_str (sc_port s) @ '' with '' @ int_str (sc_server_threads s) @
     '' worker thread(s).'' @ [NL]"

definition server_boot :: "boot_env \<Rightarrow> fsys \<Rightarrow> string list \<Rightarrow> (args \<times> server_config \<times> server) outcome" where
  "server_boot v fs argv =
     (case parse_args (be_is_dir v) argv of
        Inl e \<Rightarrow> Inl (''error: '' @ e)
      | Inr a \<Rightarrow>
          andthen (load_config (be_read v) (be_parse v) (a_config_path a) False) (\<lambda>cfg.
          if \<not> be_writable v (a_metrics_out a)
          then Inl (''error: cannot open metrics output file '' @ squoted (a_metrics_out a))
          else
            andthen (make_listening_socket v (sc_ip (cf_server cfg)) (sc_port (cf_server cfg))) (\<lambda>_.
            let st = server_init fs (nat (sc_server_threads (cf_server cfg))) in
            Inr (a, cf_server cfg, st\<lparr>sv_log := start_message a (cf_server cfg)\<rparr>))))"

text \<open>
  A server that starts has an accepted command line, a port that exists and between 1 and 10000 workers,
  and its state is the initial one, up to the line it has logged.
\<close>

lemma boot_accepted:
  assumes "server_boot v fs argv = Inr (a, s, st)"
  shows "parse_args (be_is_dir v) argv = Inr a" and "1 \<le> sc_port s" "sc_port s \<le> 65535"
    and "1 \<le> length (sv_workers st)" "length (sv_workers st) \<le> 10000"
    and "st\<lparr>sv_log := []\<rparr> = server_init fs (nat (sc_server_threads s))"
proof -
  from assms obtain cfg where a: "parse_args (be_is_dir v) argv = Inr a" and s: "s = cf_server cfg"
    and c: "load_config (be_read v) (be_parse v) (a_config_path a) False = Inr cfg"
    and st: "st = (server_init fs (nat (sc_server_threads s)))\<lparr>sv_log := start_message a s\<rparr>"
    by (auto simp: server_boot_def andthen_Inr Let_def split: sum.splits if_splits)
  from c have "\<exists>j. load_server j = Inr s" by (auto simp: load_config_def s fail_defs andthen_Inr split: option.splits sum.splits if_splits)
  then obtain j where "server_schema j s" by (auto simp: load_server_Inr)
  then show "1 \<le> sc_port s" "sc_port s \<le> 65535" "1 \<le> length (sv_workers st)" "length (sv_workers st) \<le> 10000"
    by (auto simp: server_schema_def int_member_def st server_init_def)
  show "parse_args (be_is_dir v) argv = Inr a" by (rule a)
  show "st\<lparr>sv_log := []\<rparr> = server_init fs (nat (sc_server_threads s))" by (simp add: st server_init_def)
qed

end
