(* ===== verification/Run_Experiments.thy ===== *)
theory Run_Experiments
  imports Server_Boot Client_Main Py_Metrics
begin

text \<open>
  \<open>scripts/run_experiments.py\<close>: the table of runs, the configuration and the command lines of one
  run, and the selection of runs. What a run does to the outside is the list of events it causes;
  what it meets there (health replies, whether the server still runs and stops in time) is an
  argument.
\<close>

section \<open>The table of runs\<close>

record run_spec =
  e_name :: string
  e_sched :: string
  e_server_threads :: nat
  e_quantum :: "nat option"

definition run_spec_of :: "string \<Rightarrow> string \<Rightarrow> nat \<Rightarrow> nat option \<Rightarrow> run_spec" where
  "run_spec_of n s t q = \<lparr>e_name = n, e_sched = s, e_server_threads = t, e_quantum = q\<rparr>"

definition RUNS :: "run_spec list" where
  "RUNS =
     [run_spec_of ''fcfs_ref'' ''fcfs'' REFERENCE_SERVER_THREADS None,
      run_spec_of ''sjf_ref'' ''sjf'' REFERENCE_SERVER_THREADS None,
      run_spec_of ''rr_ref'' ''rr'' REFERENCE_SERVER_THREADS (Some QUANTUM),
      run_spec_of ''drr_ref'' ''drr'' REFERENCE_SERVER_THREADS (Some QUANTUM),
      run_spec_of ''fcfs_st1'' ''fcfs'' SINGLE_SERVER_THREADS None,
      run_spec_of ''rr_st1'' ''rr'' SINGLE_SERVER_THREADS (Some QUANTUM)]"

definition WARMUP_RUN :: run_spec where
  "WARMUP_RUN = run_spec_of ''warmup'' ''fcfs'' REFERENCE_SERVER_THREADS None"

definition WARMUP_REQUESTS :: int where "WARMUP_REQUESTS = 300"

definition EXTRA_RUNS :: "run_spec list" where
  "EXTRA_RUNS =
     [run_spec_of ''drr_st1'' ''drr'' SINGLE_SERVER_THREADS (Some QUANTUM),
      run_spec_of ''sjf_st1'' ''sjf'' SINGLE_SERVER_THREADS None]"

section \<open>Configuration and health\<close>

text \<open>
  The base configuration is the value \<open>json.load\<close> returns; what is written is the changed value.
  Indexing with a name raises \<open>KeyError\<close> on a dict without it and \<open>TypeError\<close> on anything else.
\<close>

definition make_config :: "nat \<Rightarrow> nat \<Rightarrow> json \<Rightarrow> json py" where
  "make_config server_threads port cfg =
     (case cfg of
        JObject ms \<Rightarrow>
          (case map_of ms ''server'' of
             None \<Rightarrow> Inl KeyError
           | Some (JObject srv) \<Rightarrow>
               Inr (JObject (put_member ''server''
                 (JObject (put_member ''port'' (JInt (int port))
                   (put_member ''client_threads'' (JInt (int REFERENCE_CLIENT_THREADS))
                     (put_member ''server_threads'' (JInt (int server_threads)) srv)))) ms))
           | Some _ \<Rightarrow> Inl TypeError)
      | _ \<Rightarrow> Inl TypeError)"

text \<open>
  \<open>wait_for_health\<close> over the attempts that fit before the deadline: \<open>None\<close> is an \<open>OSError\<close>, otherwise
  what \<open>recv\<close> returned.
\<close>

fun wait_for_health :: "string option list \<Rightarrow> bool" where
  "wait_for_health [] = False"
| "wait_for_health (attempt # later) =
     (case attempt of
        None \<Rightarrow> wait_for_health later
      | Some reply \<Rightarrow> if starts_with ''OK '' reply then True else wait_for_health later)"

section \<open>run_one\<close>

record exp_args =
  x_server_bin :: string
  x_client_bin :: string
  x_results_dir :: string
  x_requests :: int
  x_p :: "int option"

record run_env =
  v_replies :: "string option list"
  v_alive :: bool
  v_stops :: bool

datatype exp_event = Make_dirs string | Write_config string json | Print string | Complain string
  | Start_server "string list" string | Run_client "string list" | Terminate | Wait_server "nat option" | Kill
  | Remove_tree string

definition server_cmd :: "run_spec \<Rightarrow> exp_args \<Rightarrow> string \<Rightarrow> string list" where
  "server_cmd run args results_dir =
     [x_server_bin args, ''--sched'', e_sched run, ''--file'', path_join results_dir (e_name run @ ''.data''),
      ''--config'', path_join results_dir (e_name run @ ''.config.json''),
      ''--metrics-out'', path_join results_dir (e_name run @ ''.csv'')] @
     (case e_quantum run of None \<Rightarrow> [] | Some q \<Rightarrow> [''--quantum'', nat_str q]) @
     (case x_p args of None \<Rightarrow> [] | Some p \<Rightarrow> [''--p'', int_str p])"

definition client_cmd :: "run_spec \<Rightarrow> exp_args \<Rightarrow> string \<Rightarrow> string \<Rightarrow> string list" where
  "client_cmd run args workload_dir results_dir =
     [x_client_bin args, ''load'', workload_dir, ''--requests'', int_str (x_requests args),
      ''--config'', path_join results_dir (e_name run @ ''.config.json'')]"

text \<open>Stopping the server: \<open>terminate\<close>, \<open>wait\<close> with a time limit, \<open>kill\<close> when it passes.\<close>

definition stop_server :: "run_env \<Rightarrow> nat \<Rightarrow> bool \<Rightarrow> exp_event list" where
  "stop_server v limit wait_after_kill =
     (if v_alive v then
        [Terminate, Wait_server (Some limit)] @
        (if v_stops v then [] else Kill # (if wait_after_kill then [Wait_server None] else []))
      else [])"

definition run_one ::
  "run_spec \<Rightarrow> nat \<Rightarrow> exp_args \<Rightarrow> string \<Rightarrow> string \<Rightarrow> json \<Rightarrow> run_env \<Rightarrow> exp_event list \<times> bool py" where
  "run_one run index args results_dir workload_dir base v =
     (let port = 9100 + index;
          config_path = path_join results_dir (e_name run @ ''.config.json'');
          data_dir = path_join results_dir (e_name run @ ''.data'');
          csv_path = path_join results_dir (e_name run @ ''.csv'');
          log_path = path_join results_dir (e_name run @ ''.server.log'');
          tag = ''['' @ e_name run @ ''] '' in
      case make_config (e_server_threads run) port base of
        Inl e \<Rightarrow> ([Make_dirs results_dir], Inl e)
      | Inr cfg \<Rightarrow>
          let cmd = server_cmd run args results_dir; client = client_cmd run args workload_dir results_dir;
              start = [Make_dirs results_dir, Write_config config_path cfg, Make_dirs data_dir,
                Print (tag @ ''starting server: '' @ py_join [SP] cmd), Start_server cmd log_path] in
          if \<not> wait_for_health (v_replies v) then
            (start @ [Complain (tag @ ''server never became healthy on port '' @ nat_str port @
                '' - is the accept loop (S2/S3) implemented yet? see '' @ log_path)] @ stop_server v 5 False,
             Inr False)
          else
            (start @ [Print (tag @ ''running load: '' @ py_join [SP] client), Run_client client,
               Print (tag @ ''shutting down server'')] @ stop_server v 10 True @
               [Print (tag @ ''done -> '' @ csv_path)],
             Inr True))"

section \<open>main\<close>

text \<open>\<open>only\<close>: the names after \<open>--only\<close>, if that was given and not empty.\<close>

definition only_names :: "string option \<Rightarrow> string list option" where
  "only_names arg =
     (case arg of None \<Rightarrow> None | Some s \<Rightarrow> if s = [] then None else Some (py_split (CHR '','') s))"

definition selected :: "string list option \<Rightarrow> bool \<Rightarrow> run_spec \<Rightarrow> bool" where
  "selected only with_extras run =
     (if only = None \<and> run \<in> set EXTRA_RUNS \<and> \<not> with_extras then False
      else case only of Some names \<Rightarrow> e_name run \<in> set names | None \<Rightarrow> True)"

fun run_selected ::
  "(nat \<times> run_spec) list \<Rightarrow> string list option \<Rightarrow> bool \<Rightarrow> exp_args \<Rightarrow> string \<Rightarrow> json \<Rightarrow> (string \<Rightarrow> run_env) \<Rightarrow>
     exp_event list \<times> string list py" where
  "run_selected [] only ex args wd base env = ([], Inr [])"
| "run_selected ((i, run) # rest) only ex args wd base env =
     (if \<not> selected only ex run then run_selected rest only ex args wd base env
      else case run_one run i args (x_results_dir args) wd base (env (e_name run)) of
             (ev, Inl e) \<Rightarrow> (ev, Inl e)
           | (ev, Inr ok) \<Rightarrow>
               (case run_selected rest only ex args wd base env of
                  (ev2, r) \<Rightarrow> (ev @ ev2, py_bind r (\<lambda>fs. Inr (if ok then fs else e_name run # fs)))))"

definition experiments_main ::
  "string option \<Rightarrow> bool \<Rightarrow> bool \<Rightarrow> exp_args \<Rightarrow> string \<Rightarrow> json \<Rightarrow> (string \<Rightarrow> run_env) \<Rightarrow> exp_event list \<times> unit py" where
  "experiments_main only_arg no_warmup with_extras args workload_dir base env =
     (let warm_dir = path_join (x_results_dir args) ''_warmup'';
          warmup = (if no_warmup then ([], Inr True)
            else case run_one WARMUP_RUN 30 (args\<lparr>x_requests := WARMUP_REQUESTS\<rparr>) warm_dir workload_dir base
                   (env (e_name WARMUP_RUN)) of
              (ev, Inl e) \<Rightarrow> (Print ''[warmup] throwaway run, not recorded'' # ev, Inl e)
            | (ev, Inr b) \<Rightarrow> (Print ''[warmup] throwaway run, not recorded'' # ev @ [Remove_tree warm_dir], Inr b)) in
      case warmup of
        (ev, Inl e) \<Rightarrow> (Make_dirs (x_results_dir args) # ev, Inl e)
      | (ev, Inr _) \<Rightarrow>
          case run_selected (enumerate 0 (RUNS @ EXTRA_RUNS)) (only_names only_arg) with_extras args workload_dir base env of
            (ev2, Inl e) \<Rightarrow> (Make_dirs (x_results_dir args) # ev @ ev2, Inl e)
          | (ev2, Inr failures) \<Rightarrow>
              if failures \<noteq> [] then
                (Make_dirs (x_results_dir args) # ev @ ev2 @
                   [Complain (NL # nat_str (length failures) @ '' run(s) failed: '' @ py_join '', '' failures)],
                 Inl (SystemExit ''1''))
              else (Make_dirs (x_results_dir args) # ev @ ev2 @ [Print (NL # ''all runs completed'')], Inr ()))"

section \<open>Properties\<close>

lemma int_str_pos: "0 \<le> p \<Longrightarrow> int_str p = nat_str (nat p)"
  by (simp add: int_str_def)

text \<open>Every server command line the script builds is accepted by the server's parser and read back as meant.\<close>

lemma server_cmd_parsed:
  assumes "run \<in> set (WARMUP_RUN # RUNS @ EXTRA_RUNS)"
    and "is_dir (path_join results_dir (e_name run @ ''.data''))"
    and "\<forall>p. x_p args = Some p \<longrightarrow> 1 \<le> p \<and> p < 2147483648"
  shows "\<exists>a. parse_args is_dir (tl (server_cmd run args results_dir)) = Inr a \<and> a_sched a = e_sched run \<and>
    a_file_dir a = path_join results_dir (e_name run @ ''.data'') \<and>
    a_metrics_out a = path_join results_dir (e_name run @ ''.csv'') \<and>
    a_config_path a = path_join results_dir (e_name run @ ''.config.json'') \<and>
    (parse_policy (a_sched a) \<in> {RR, DRR} \<longrightarrow> a_quantum a = QUANTUM) \<and>
    a_p_lines a = (case x_p args of None \<Rightarrow> 1 | Some p \<Rightarrow> p)"
proof -
  have q: "parse_quantum (nat_str QUANTUM) = Some QUANTUM"
    by (rule parse_quantum_nat_str) (simp_all add: QUANTUM_def u64_max_def)
  have p: "parse_p (int_str p) = Some p" if "x_p args = Some p" for p
    using assms(3) that parse_p_nat_str [of "nat p"] by (auto simp: int_str_pos)
  have cases: "(e_sched run, e_quantum run) \<in> {(''fcfs'', None), (''sjf'', None), (''rr'', Some QUANTUM), (''drr'', Some QUANTUM)}"
    using assms(1) by (auto simp: WARMUP_RUN_def RUNS_def EXTRA_RUNS_def run_spec_of_def)
  show ?thesis
  proof (cases "x_p args")
    case None
    with cases assms(2) show ?thesis
      by (auto simp: server_cmd_def parse_args_def check_args_def default_args_def q parse_policy_def)
  next
    case (Some k)
    with cases assms(2) p [OF Some] show ?thesis
      by (auto simp: server_cmd_def parse_args_def check_args_def default_args_def q parse_policy_def)
  qed
qed

lemma made_config:
  assumes "make_config st port base = Inr cfg"
  obtains srv where "jat base ''server'' = Some srv" "is_object srv" "is_object cfg"
    "jat cfg ''server'' = Some (JObject (put_member ''port'' (JInt (int port))
       (put_member ''client_threads'' (JInt (int REFERENCE_CLIENT_THREADS))
         (put_member ''server_threads'' (JInt (int st)) (case srv of JObject ms \<Rightarrow> ms | _ \<Rightarrow> [])))))"
  using assms by (auto simp: make_config_def split: json.splits option.splits)

lemma made_config_server:
  assumes "make_config st port base = Inr cfg" and "jat base ''server'' = Some srv"
    and "jat srv ''ip'' = Some (JString ip)" and "1 \<le> port" "port \<le> 65535" "1 \<le> st" "st \<le> 10000"
  shows "is_object cfg \<and> load_server cfg = Inr \<lparr>sc_ip = ip, sc_port = port, sc_server_threads = int st, sc_client_threads = 8\<rparr>"
proof -
  from made_config [OF assms(1)] assms(2) obtain s where s: "is_object cfg" "jat cfg ''server'' = Some s" "is_object srv"
    "s = JObject (put_member ''port'' (JInt (int port)) (put_member ''client_threads'' (JInt (int REFERENCE_CLIENT_THREADS))
         (put_member ''server_threads'' (JInt (int st)) (case srv of JObject ms \<Rightarrow> ms | _ \<Rightarrow> []))))" by auto
  from s(3) assms(3) obtain ms where "srv = JObject ms" "map_of ms ''ip'' = Some (JString ip)" by (cases srv) auto
  with s assms(4-7) have "server_schema s \<lparr>sc_ip = ip, sc_port = port, sc_server_threads = int st, sc_client_threads = 8\<rparr>"
    by (simp add: server_schema_def int_member_def REFERENCE_CLIENT_THREADS_def)
  with s show ?thesis by (auto simp: load_server_Inr)
qed

lemma run_threads: "run \<in> set (WARMUP_RUN # RUNS @ EXTRA_RUNS) \<Longrightarrow> e_server_threads run \<in> {1, 4}"
  by (auto simp: WARMUP_RUN_def RUNS_def EXTRA_RUNS_def run_spec_of_def REFERENCE_SERVER_THREADS_def SINGLE_SERVER_THREADS_def)

text \<open>
  C35. Every server that the script starts comes up as the table of runs says. If the base configuration
  names an address the machine has, the C++ parser reads back what Python's \<open>json\<close> wrote, and the
  directory, the metrics file and the port can be had, then the command line is accepted, the policy
  is that of the run, the quantum of \<open>common.py\<close> is set exactly under rr and drr, and the server
  listens on port \<open>9100 + index\<close> with the run's number of workers.
\<close>

theorem server_cmd_accepted:
  assumes "run \<in> set (WARMUP_RUN # RUNS @ EXTRA_RUNS)" and "index \<le> 30"
    and "make_config (e_server_threads run) (9100 + index) base = Inr cfg"
    and "jat base ''server'' = Some srv" and "jat srv ''ip'' = Some (JString ip)"
    and "be_read v (path_join results_dir (e_name run @ ''.config.json'')) = Some body" and "be_parse v body = Inr cfg"
    and "be_is_dir v (path_join results_dir (e_name run @ ''.data''))"
    and "be_writable v (path_join results_dir (e_name run @ ''.csv''))"
    and "make_listening_socket v ip (9100 + index) = Inr ()"
    and "\<forall>p. x_p args = Some p \<longrightarrow> 1 \<le> p \<and> p < 2147483648"
  shows "\<exists>a s st. server_boot v fs (tl (server_cmd run args results_dir)) = Inr (a, s, st) \<and>
    a_sched a = e_sched run \<and> a_file_dir a = path_join results_dir (e_name run @ ''.data'') \<and>
    (parse_policy (a_sched a) \<in> {RR, DRR} \<longrightarrow> a_quantum a = QUANTUM) \<and>
    a_p_lines a = (case x_p args of None \<Rightarrow> 1 | Some p \<Rightarrow> p) \<and>
    sc_port s = 9100 + index \<and> sv_workers st = replicate (e_server_threads run) Idle"
proof -
  let ?s = "\<lparr>sc_ip = ip, sc_port = 9100 + index, sc_server_threads = int (e_server_threads run), sc_client_threads = 8\<rparr>"
  from server_cmd_parsed [where is_dir = "be_is_dir v", OF assms(1,8,11)] obtain a where a: "parse_args (be_is_dir v) (tl (server_cmd run args results_dir)) = Inr a"
    "a_sched a = e_sched run" "a_file_dir a = path_join results_dir (e_name run @ ''.data'')"
    "a_metrics_out a = path_join results_dir (e_name run @ ''.csv'')"
    "a_config_path a = path_join results_dir (e_name run @ ''.config.json'')"
    "parse_policy (a_sched a) \<in> {RR, DRR} \<longrightarrow> a_quantum a = QUANTUM" "a_p_lines a = (case x_p args of None \<Rightarrow> 1 | Some p \<Rightarrow> p)"
    by blast
  have "is_object cfg \<and> load_server cfg = Inr ?s"
    using made_config_server [OF assms(3,4,5)] run_threads [OF assms(1)] assms(2) by auto
  then have "load_config (be_read v) (be_parse v) (a_config_path a) False =
      Inr \<lparr>cf_server = ?s, cf_load_balancer = empty_load_balancer, cf_has_load_balancer = False\<rparr>"
    using assms(6,7) a(5) by (simp add: load_config_def)
  then have "server_boot v fs (tl (server_cmd run args results_dir)) =
      Inr (a, ?s, (server_init fs (e_server_threads run))\<lparr>sv_log := start_message a ?s\<rparr>)"
    using assms(9,10) a(1,4) by (simp add: server_boot_def Let_def)
  with a show ?thesis by (intro exI) (auto simp: server_init_def)
qed

theorem server_cmd_accepted_witness:
  "\<exists>cfg. make_config 4 9130 (JObject [(''server'', JObject [(''ip'', JString ''127.0.0.1'')])]) = Inr cfg \<and>
     (\<exists>a s st. server_boot \<lparr>be_is_dir = \<lambda>_. True, be_read = \<lambda>_. Some [], be_parse = \<lambda>_. Inr cfg, be_writable = \<lambda>_. True,
          be_socket = None, be_ip_valid = \<lambda>_. True, be_bind = \<lambda>_ _. None, be_listen = None\<rparr> empty_fs
        (tl (server_cmd WARMUP_RUN \<lparr>x_server_bin = ''server'', x_client_bin = ''client'', x_results_dir = ''r'',
          x_requests = 300, x_p = Some 10\<rparr> ''r'')) = Inr (a, s, st) \<and> a_p_lines a = 10 \<and> sc_port s = 9130)"
proof -
  let ?base = "JObject [(''server'', JObject [(''ip'', JString ''127.0.0.1'')])]"
  obtain cfg where cfg: "make_config (e_server_threads WARMUP_RUN) (9100 + 30) ?base = Inr cfg"
    by (simp add: make_config_def)
  have st: "e_server_threads WARMUP_RUN = 4"
    by (simp add: WARMUP_RUN_def run_spec_of_def REFERENCE_SERVER_THREADS_def)
  have "WARMUP_RUN \<in> set (WARMUP_RUN # RUNS @ EXTRA_RUNS)" by simp
  from server_cmd_accepted [OF this _ cfg, of "JObject [(''ip'', JString ''127.0.0.1'')]" "''127.0.0.1''"
      "\<lparr>be_is_dir = \<lambda>_. True, be_read = \<lambda>_. Some [], be_parse = \<lambda>_. Inr cfg, be_writable = \<lambda>_. True,
          be_socket = None, be_ip_valid = \<lambda>_. True, be_bind = \<lambda>_ _. None, be_listen = None\<rparr>" "''r''" "[]"
      "\<lparr>x_server_bin = ''server'', x_client_bin = ''client'', x_results_dir = ''r'', x_requests = 300, x_p = Some 10\<rparr>" empty_fs]
    cfg st
  show ?thesis by (auto simp: make_listening_socket_def)
qed

text \<open>
  C34. The load that every run starts is accepted by the client and means what the table of runs says.
  If the base configuration names an address and the C++ parser reads back what Python's \<open>json\<close>
  wrote, then the server finds the run's number of worker threads and its own port \<open>9100 + index\<close> in
  the file that \<open>make_config\<close> builds, and the client reads the same file, connects to that port and
  issues the requested number of requests from the 8 reference threads.
\<close>

theorem client_cmd_accepted:
  assumes "run \<in> set (WARMUP_RUN # RUNS @ EXTRA_RUNS)" and "index \<le> 30"
    and "make_config (e_server_threads run) (9100 + index) base = Inr cfg"
    and "jat base ''server'' = Some srv" and "jat srv ''ip'' = Some (JString ip)"
    and "read (path_join results_dir (e_name run @ ''.config.json'')) = Some body" and "parse body = Inr cfg"
    and "0 \<le> x_requests args" and "x_requests args \<le> int u64_max"
  shows "client_plan (\<lambda>p. load_config read parse p False) (tl (client_cmd run args workload_dir results_dir)) =
      Inr (Do_load ip (9100 + index) workload_dir (nat (x_requests args)) 8) \<and>
    (\<exists>c. load_config read parse (path_join results_dir (e_name run @ ''.config.json'')) False = Inr c \<and>
       sc_server_threads (cf_server c) = int (e_server_threads run) \<and> sc_port (cf_server c) = 9100 + index)"
proof -
  let ?c = "\<lparr>cf_server = \<lparr>sc_ip = ip, sc_port = 9100 + index, sc_server_threads = int (e_server_threads run),
      sc_client_threads = 8\<rparr>, cf_load_balancer = empty_load_balancer, cf_has_load_balancer = False\<rparr>"
  have "is_object cfg \<and> load_server cfg = Inr (cf_server ?c)"
    using made_config_server [OF assms(3,4,5)] run_threads [OF assms(1)] assms(2) by auto
  then have l: "load_config read parse (path_join results_dir (e_name run @ ''.config.json'')) False = Inr ?c"
    using assms(6,7) by (simp add: load_config_def)
  have "parse_requests (int_str (x_requests args)) = Some (nat (x_requests args))"
    using parse_requests_nat_str [of "nat (x_requests args)"] assms(8,9) by (simp add: int_str_pos nat_le_iff)
  with l show ?thesis by (simp add: client_cmd_def client_plan_def)
qed

theorem client_cmd_accepted_witness:
  "\<exists>cfg. make_config 4 9130 (JObject [(''server'', JObject [(''ip'', JString ''127.0.0.1'')])]) = Inr cfg \<and>
     client_plan (\<lambda>p. load_config (\<lambda>_. Some []) (\<lambda>_. Inr cfg) p False)
       (tl (client_cmd WARMUP_RUN \<lparr>x_server_bin = ''server'', x_client_bin = ''client'', x_results_dir = ''r'',
          x_requests = 300, x_p = None\<rparr> ''w'' ''r'')) = Inr (Do_load ''127.0.0.1'' 9130 ''w'' 300 8)"
proof -
  let ?base = "JObject [(''server'', JObject [(''ip'', JString ''127.0.0.1'')])]"
  obtain cfg where cfg: "make_config (e_server_threads WARMUP_RUN) (9100 + 30) ?base = Inr cfg"
    by (simp add: make_config_def)
  have st: "e_server_threads WARMUP_RUN = 4"
    by (simp add: WARMUP_RUN_def run_spec_of_def REFERENCE_SERVER_THREADS_def)
  have "WARMUP_RUN \<in> set (WARMUP_RUN # RUNS @ EXTRA_RUNS)" by simp
  from client_cmd_accepted [OF this _ cfg, of "JObject [(''ip'', JString ''127.0.0.1'')]" "''127.0.0.1''" "\<lambda>_. Some []" "''r''"
      "[]" "\<lambda>_. Inr cfg" "\<lparr>x_server_bin = ''server'', x_client_bin = ''client'', x_results_dir = ''r'',
          x_requests = 300, x_p = None\<rparr>" "''w''"] cfg st
  show ?thesis by (simp add: u64_max_def)
qed

text \<open>
  Without \<open>--only\<close> and \<open>--with-extras\<close> the script runs exactly the six cells that \<open>metrics.py\<close>
  collects, in its order; every run has its own port, and the warm-up has one of its own.
\<close>

lemma runs_are_cells:
  "map e_name (filter (selected None False) (RUNS @ EXTRA_RUNS)) = CELLS \<and>
   filter (selected None True) (RUNS @ EXTRA_RUNS) = RUNS @ EXTRA_RUNS \<and>
   distinct (map e_name (RUNS @ EXTRA_RUNS)) \<and> length (RUNS @ EXTRA_RUNS) < 30"
  by (simp add: RUNS_def EXTRA_RUNS_def CELLS_def selected_def run_spec_of_def REFERENCE_SERVER_THREADS_def
      SINGLE_SERVER_THREADS_def QUANTUM_def)

end
