(* ===== verification/Py_Package.thy ===== *)
theory Py_Package
  imports Py_Metrics "HOL-Library.List_Lexorder" "HOL-Library.Char_ord"
begin

text \<open>
  \<open>scripts/package.py\<close>: which files go into the submission archive. The tree it walks is an argument:
  whether a path exists, the figure names the glob finds, and for each directory what \<open>os.walk\<close>
  yields, as paths relative to the repository root. The result is the list of archive members.
\<close>

definition TOP_FILES :: "string list" where
  "TOP_FILES = [''Makefile'', ''config.json'', ''README.md'', ''report_A.pdf'']"

definition DIRS :: "string list" where
  "DIRS = [''src'', ''scripts'', ''workload'', ''results'']"

definition REQUIRED_CSVS :: "string list" where
  "REQUIRED_CSVS = map (\<lambda>cell. ''results/'' @ cell @ ''.csv'') CELLS"

definition skip :: "string \<Rightarrow> bool" where
  "skip rel =
     (let parts = py_split SLASH rel; name = last parts in
      if ''__pycache__'' \<in> set parts \<or> ends_with ''.pyc'' name then True
      else if list_ex (\<lambda>p. ends_with ''.data'' p \<or> p = ''_warmup'') parts then True
      else if starts_with ''results/'' rel then rel \<notin> set REQUIRED_CSVS
      else False)"

fun top_files :: "(string \<Rightarrow> bool) \<Rightarrow> string list \<Rightarrow> string list py" where
  "top_files ex [] = Inr []"
| "top_files ex (f # fs) =
     (if \<not> ex f then Inl (SystemExit (''missing required file: '' @ f))
      else py_bind (top_files ex fs) (\<lambda>r. Inr (f # r)))"

text \<open>What the walk of one directory adds: the names of each visited directory, sorted.\<close>

definition walk_files :: "(string \<times> string list) list \<Rightarrow> string list" where
  "walk_files tree =
     filter (\<lambda>rel. \<not> skip rel) (concat (map (\<lambda>(base, names). map (\<lambda>n. base @ ''/'' @ n) (sort names)) tree))"

definition repr_list :: "string list \<Rightarrow> string" where
  "repr_list xs = ''['' @ py_join '', '' (map (\<lambda>x. [CHR 0x27] @ x @ [CHR 0x27]) xs) @ '']''"

definition package_main ::
  "string list \<Rightarrow> (string \<Rightarrow> bool) \<Rightarrow> string list \<Rightarrow> (string \<Rightarrow> (string \<times> string list) list) \<Rightarrow>
     (string \<times> string list) py" where
  "package_main argv ex figs walk =
     (if length argv \<noteq> 3 then Inl (SystemExit ''usage: package.py <entry1> <entry2>'')
      else
        let out = argv ! 1 @ ''_'' @ argv ! 2 @ ''_A.zip'' in
        py_bind (top_files ex TOP_FILES) (\<lambda>tops.
        let files = tops @ sort figs @ concat (map (\<lambda>d. walk_files (walk d)) DIRS);
            missing = filter (\<lambda>r. r \<notin> set files) REQUIRED_CSVS in
        if missing \<noteq> [] then
          Inl (SystemExit (''missing required result CSVs: '' @ repr_list (sort missing) @
                 '' - run scripts/run_all.sh first''))
        else Inr (out, files)))"

section \<open>Properties\<close>

lemma top_files_Inr: "top_files ex fs = Inr r \<Longrightarrow> r = fs"
  by (induction fs arbitrary: r) (auto simp: py_bind_Inr split: if_splits)

lemma walk_files_keep: "f \<in> set (walk_files tree) \<Longrightarrow> \<not> skip f"
  by (simp add: walk_files_def)


text \<open>A tree with all six metrics files and a server log, for the witness.\<close>

definition sample_walk :: "string \<Rightarrow> (string \<times> string list) list" where
  "sample_walk d = (if d = ''results'' then [(''results'', ''rr_ref.server.log'' # map (\<lambda>c. c @ ''.csv'') CELLS)] else [])"

lemma sample_keep: "f \<in> set REQUIRED_CSVS \<Longrightarrow> \<not> skip f"
proof -
  have parts: "py_split SLASH (''results/'' @ cell @ ''.csv'') = [''results'', cell @ ''.csv'']"
    if "cell \<in> set CELLS" for cell
    using that by (auto simp: CELLS_def)
  show "f \<in> set REQUIRED_CSVS \<Longrightarrow> \<not> skip f"
    unfolding REQUIRED_CSVS_def CELLS_def
    by (auto simp: skip_def Let_def parts ends_with_def CELLS_def REQUIRED_CSVS_def)
qed

lemma sample_walk_complete: "set REQUIRED_CSVS \<subseteq> set (walk_files (sample_walk ''results''))"
proof
  fix f assume f: "f \<in> set REQUIRED_CSVS"
  then obtain c where "c \<in> set CELLS" "f = ''results'' @ ''/'' @ c @ ''.csv''"
    by (auto simp: REQUIRED_CSVS_def)
  with sample_keep [OF f] show "f \<in> set (walk_files (sample_walk ''results''))"
    by (auto simp: walk_files_def sample_walk_def set_insort_key)
qed


end
