(* ===== verification/Py_Report.thy ===== *)
theory Py_Report
  imports Py_Analysis
begin

text \<open>
  \<open>scripts/summarize.py\<close>: the tables it prints from the collected results.
\<close>

section \<open>summarize.py\<close>

text \<open>\<open>us (ns)\<close> of an int; \<open>None / 1000.0\<close> is a type error. Floats divide without overflow.\<close>

definition us_int :: "int option \<Rightarrow> rat py" where
  "us_int ns =
     (case ns of None \<Rightarrow> Inl TypeError | Some i \<Rightarrow> py_bind (float_of_int i) (\<lambda>x. Inr (float_quot x 1000)))"

definition us :: "rat \<Rightarrow> rat" where
  "us ns = float_quot ns 1000"

text \<open>The part of a line that one run contributes: waiting, response, throughput.\<close>

definition times_text :: "metrics \<Rightarrow> string py" where
  "times_text m =
     py_bind (us_int (m_wait_p50_ns m)) (\<lambda>w50.
     py_bind (us_int (m_wait_p99_ns m)) (\<lambda>w99.
     py_bind (us_int (m_resp_p50_ns m)) (\<lambda>r50.
     py_bind (us_int (m_resp_p99_ns m)) (\<lambda>r99.
     Inr (''wait p50 '' @ pad_left 8 (fmt_fixed 0 w50) @ '' p99 '' @ pad_left 9 (fmt_fixed 0 w99) @ '' | '' @
          ''resp p50 '' @ pad_left 8 (fmt_fixed 0 r50) @ '' p99 '' @ pad_left 9 (fmt_fixed 0 r99) @ '' | thr '' @
          pad_left 8 (fmt_float 1 (m_throughput m)))))))"

definition summary_cell :: "collected \<Rightarrow> string \<Rightarrow> unit run" where
  "summary_cell d cell =
     (case map_of (d_cells d) cell of
        None \<Rightarrow> lift_py (Inr ())
      | Some m \<Rightarrow>
          run_bind (lift_py (times_text m)) (\<lambda>t.
          run_bind (say (pad_right 9 cell @ '' '' @ t)) (\<lambda>_.
          case map_of (d_rerun d) cell of
            None \<Rightarrow> lift_py (Inr ())
          | Some r \<Rightarrow> run_bind (lift_py (times_text r)) (\<lambda>t. say (''  rerun   '' @ t)))))"

text \<open>\<open>"  ".join (f"{c}: ..." for c in CLASSES)\<close>; every run has an entry for every class.\<close>

definition class_parts :: "(class_metrics \<Rightarrow> string py) \<Rightarrow> metrics \<Rightarrow> string py" where
  "class_parts f m =
     py_bind (py_map (\<lambda>c. case map_of (m_by_class m) c of
         None \<Rightarrow> Inl KeyError
       | Some cm \<Rightarrow> py_bind (f cm) (\<lambda>t. Inr (size_str c @ '': '' @ t))) CLASSES)
       (\<lambda>ts. Inr (py_join ''  '' ts))"

definition slow_text :: "class_metrics \<Rightarrow> string py" where
  "slow_text cm =
     py_bind (fmt_option 1 (c_slow_med cm)) (\<lambda>a.
     py_bind (fmt_option 1 (c_slow_p99 cm)) (\<lambda>b. Inr (''med='' @ a @ '' p99='' @ b)))"

definition wait_text :: "class_metrics \<Rightarrow> string py" where
  "wait_text cm = Inr (pad_left 7 (fmt_fixed 0 (us (c_wait_avg_ns cm))))"

definition forfeit_text :: "class_metrics \<Rightarrow> string py" where
  "forfeit_text cm =
     py_bind (float_of_int (c_forfeited cm)) (\<lambda>f.
     Inr (''forf='' @ pad_left 9 (fmt_fixed 0 f) @ '' rounds/GET='' @ fmt_fixed 1 (c_rounds_mean_get cm)))"

definition summary_line :: "collected \<Rightarrow> (class_metrics \<Rightarrow> string py) \<Rightarrow> (string \<Rightarrow> string) \<Rightarrow> string \<Rightarrow> unit run" where
  "summary_line d f label cell =
     (case map_of (d_cells d) cell of
        None \<Rightarrow> lift_py (Inr ())
      | Some m \<Rightarrow> run_bind (lift_py (class_parts f m)) (\<lambda>parts. say (label cell @ parts)))"

definition a14_label :: "collected \<Rightarrow> string \<Rightarrow> string" where
  "a14_label d cell =
     pad_right 8 cell @ '' A14='' @
     fmt_count (case map_of (d_a14 d) cell of None \<Rightarrow> None | Some n \<Rightarrow> n) @ ''  ''"

definition summarize_main :: "files \<Rightarrow> string \<Rightarrow> unit run" where
  "summarize_main fs results =
     run_bind (lift_py (load_all fs results 3)) (\<lambda>d.
     run_bind (say ''== waiting / response p50, p99 (us) and throughput (req/s) =='') (\<lambda>_.
     run_bind (run_each (summary_cell d) CELLS) (\<lambda>_.
     run_bind (say (NL # ''== normalised slowdown (ns/byte) by size class, reference config only (A21) =='')) (\<lambda>_.
     run_bind (run_each (summary_line d slow_text (\<lambda>c. pad_right 9 c @ '' '')) REFERENCE) (\<lambda>_.
     run_bind (say (NL # ''== waiting by size class (avg us) - who each policy penalises =='')) (\<lambda>_.
     run_bind (run_each (summary_line d wait_text (\<lambda>c. pad_right 9 c @ '' '')) CELLS) (\<lambda>_.
     run_bind (say (NL # ''== rr vs drr (A29): forfeited_bytes by class, rounds/GET, A14 fires =='')) (\<lambda>_.
     run_each (summary_line d forfeit_text (a14_label d)) [''rr_ref'', ''drr_ref'']))))))))"

section \<open>Properties\<close>

lemma class_parts_entry:
  assumes "map fst (m_by_class m) = CLASSES"
  obtains c1 c2 c3 where "m_by_class m = [(Small, c1), (Medium, c2), (Large, c3)]"
proof -
  from assms have len: "length (m_by_class m) = 3" by (metis CLASSES_def length_map list.size(3,4) numeral_3_eq_3 One_nat_def add_Suc_right add_0_right)
  then obtain p q r where "m_by_class m = [p, q, r]"
    by (auto simp: numeral_3_eq_3 length_Suc_conv)
  with assms that show thesis by (cases p; cases q; cases r) (auto simp: CLASSES_def)
qed

lemma nearest_rank_None: "nearest_rank_percentile xs p = None \<longleftrightarrow> xs = []"
  by (simp add: nearest_rank_percentile_def Let_def)

lemma slowdowns_empty:
  assumes "slowdowns rows = Inr xs"
  shows "xs = [] \<longleftrightarrow> (\<forall>r \<in> set rows. r_bytes r \<le> 0)"
proof -
  from assms obtain ys where ys: "py_map (\<lambda>r. true_div (response_of r) (r_bytes r)) (filter (\<lambda>r. r_bytes r > 0) rows) = Inr ys"
    "xs = sort ys" by (auto simp: slowdowns_def py_bind_Inr)
  from ys(1) have "length ys = length (filter (\<lambda>r. r_bytes r > 0) rows)"
    by (simp add: py_map_Inr list_all2_lengthD)
  then have "xs = [] \<longleftrightarrow> filter (\<lambda>r. r_bytes r > 0) rows = []"
    using ys(2) by (metis length_0_conv length_sort)
  then show ?thesis by (auto simp: filter_empty_conv not_less)
qed

lemma class_slow_None:
  assumes "class_metrics_of rows cls = Inr cm"
  shows "c_slow_med cm = None \<longleftrightarrow> (\<forall>r \<in> set rows. row_class r = Inr cls \<longrightarrow> r_bytes r \<le> 0)"
    and "c_slow_p99 cm = None \<longleftrightarrow> c_slow_med cm = None"
proof -
  from assms obtain crows xs where crows: "class_rows rows cls = Inr crows" and xs: "slowdowns crows = Inr xs"
    and cm: "c_slow_med cm = nearest_rank_percentile xs 50" "c_slow_p99 cm = nearest_rank_percentile xs 99"
    by (auto simp: class_metrics_of_def py_bind_Inr Let_def)
  have "r \<in> set crows \<longleftrightarrow> r \<in> set rows \<and> row_class r = Inr cls" for r
    using class_rows_Inr [OF crows] by (auto simp: projr_def split: sum.splits)
  with slowdowns_empty [OF xs] cm
  show "c_slow_med cm = None \<longleftrightarrow> (\<forall>r \<in> set rows. row_class r = Inr cls \<longrightarrow> r_bytes r \<le> 0)"
    "c_slow_p99 cm = None \<longleftrightarrow> c_slow_med cm = None"
    by (auto simp: nearest_rank_None)
qed

lemma slow_text_None:
  assumes "c_slow_p99 cm = None \<longleftrightarrow> c_slow_med cm = None"
  shows "slow_text cm = Inl TypeError \<longleftrightarrow> c_slow_med cm = None"
    and "c_slow_med cm \<noteq> None \<Longrightarrow> \<exists>t. slow_text cm = Inr t"
  using assms by (auto simp: slow_text_def)



end
