(* ===== verification/Make_Report.thy ===== *)
theory Make_Report
  imports Py_Report
begin

text \<open>
  \<open>scripts/make_report.py\<close>: what it looks up in the collected results, the four figures and the building
  blocks of the PDF. A figure is the list of calls made on its axes with their arguments; drawing
  them is the plotting library's business. Lengths in the PDF are in inches.
\<close>

section \<open>Lookups\<close>

definition POLICY_COLOR :: "(string \<times> string) list" where
  "POLICY_COLOR = [(''fcfs'', ''#4c72b0''), (''sjf'', ''#dd8452''), (''rr'', ''#55a868''), (''drr'', ''#8172b3'')]"

definition LABEL :: "(string \<times> string) list" where
  "LABEL = [(''fcfs_ref'', ''fcfs''), (''sjf_ref'', ''sjf''), (''rr_ref'', ''rr''), (''drr_ref'', ''drr''),
     (''fcfs_st1'', ''fcfs''), (''rr_st1'', ''rr'')]"

definition THR :: "(string \<times> nat) list" where
  "THR = [(''fcfs_ref'', 4), (''sjf_ref'', 4), (''rr_ref'', 4), (''drr_ref'', 4), (''fcfs_st1'', 1), (''rr_st1'', 1)]"

definition dict_get :: "('k \<times> 'v) list \<Rightarrow> 'k \<Rightarrow> 'v py" where
  "dict_get d k = (case map_of d k of None \<Rightarrow> Inl KeyError | Some v \<Rightarrow> Inr v)"

definition pol :: "string \<Rightarrow> string" where
  "pol cell = hd (py_split (CHR ''_'') cell)"

definition cell_metrics :: "collected \<Rightarrow> string \<Rightarrow> metrics py" where
  "cell_metrics d cell = dict_get (d_cells d) cell"

definition cell_class :: "collected \<Rightarrow> string \<Rightarrow> size \<Rightarrow> class_metrics py" where
  "cell_class d cell cls = py_bind (cell_metrics d cell) (\<lambda>m. dict_get (m_by_class m) cls)"

definition slow :: "collected \<Rightarrow> string \<Rightarrow> size \<Rightarrow> (class_metrics \<Rightarrow> rat option) \<Rightarrow> rat option py" where
  "slow d cell cls key = py_bind (cell_class d cell cls) (\<lambda>cm. Inr (key cm))"

definition wait_avg :: "collected \<Rightarrow> string \<Rightarrow> size \<Rightarrow> rat py" where
  "wait_avg d cell cls = py_bind (cell_class d cell cls) (\<lambda>cm. Inr (float_quot (c_wait_avg_ns cm) 1000))"

section \<open>Arithmetic\<close>

text \<open>\<open>x / 1000\<close> of an int that may be \<open>None\<close>, and \<open>x / max (1, n)\<close> of two ints.\<close>

definition thousandth :: "int option \<Rightarrow> rat py" where
  "thousandth x = (case x of None \<Rightarrow> Inl TypeError | Some i \<Rightarrow> true_div i 1000)"

definition cell_us :: "collected \<Rightarrow> (metrics \<Rightarrow> int option) \<Rightarrow> string \<Rightarrow> rat py" where
  "cell_us d key c = py_bind (cell_metrics d c) (\<lambda>m. thousandth (key m))"

definition per_get :: "class_metrics \<Rightarrow> rat py" where
  "per_get cm = true_div (c_forfeited cm) (max 1 (int (c_n_get cm)))"

text \<open>
  \<open>close (a, b)\<close>: within 15 percent of the larger one; a larger one of zero divides by zero. With an
  infinite argument the quotient is infinite or not a number, which is not below the tolerance.
\<close>

definition close :: "rat \<Rightarrow> rat \<Rightarrow> bool py" where
  "close a b =
     (if max a b = 0 then Inl ZeroDivisionError
      else Inr (fl (\<bar>fl (a - b)\<bar> / max a b) \<le> fl (15 / 100)))"

definition close_float :: "pyfloat \<Rightarrow> pyfloat \<Rightarrow> bool py" where
  "close_float x y =
     (case (x, y) of
        (Fin a, Fin b) \<Rightarrow> close a b
      | (Fin a, Infinite neg) \<Rightarrow> if neg \<and> a = 0 then Inl ZeroDivisionError else Inr False
      | (Infinite neg, Fin b) \<Rightarrow> if neg \<and> b = 0 then Inl ZeroDivisionError else Inr False
      | _ \<Rightarrow> Inr False)"

definition close_option :: "rat option \<Rightarrow> rat option \<Rightarrow> bool py" where
  "close_option x y = (case (x, y) of (Some a, Some b) \<Rightarrow> close a b | _ \<Rightarrow> Inl TypeError)"

text \<open>\<open>f"{x:,.0f}"\<close> of a float and \<open>f"{n:,}"\<close> of an int: a comma before every third digit from the right.\<close>

fun group3 :: "string \<Rightarrow> string" where
  "group3 (a # b # c # d # ds) = a # b # c # CHR '','' # group3 (d # ds)"
| "group3 ds = ds"

definition grouped :: "string \<Rightarrow> string" where
  "grouped ds = rev (group3 (rev ds))"

definition fmt_thousands :: "rat \<Rightarrow> string" where
  "fmt_thousands x = (if x < 0 then ''-'' else []) @ grouped (fmt_fixed 0 \<bar>x\<bar>)"

definition int_thousands :: "int \<Rightarrow> string" where
  "int_thousands n = (if n < 0 then ''-'' else []) @ grouped (nat_str (nat \<bar>n\<bar>))"

section \<open>Figures\<close>

datatype height = Known pyfloat | Missing

datatype axis_call =
    Bar "rat list" "height list" rat "(string \<times> string) list"
  | Set_yscale string "nat option"
  | Set_xticks "nat list"
  | Set_xticklabels "string list"
  | Set_ylabel string
  | Set_title string
  | Legend "nat option" "string option"

text \<open>The size of the grid of axes, the size in inches, whether the vertical axis is shared, the calls, the file.\<close>

record figure =
  fg_columns :: nat
  fg_size :: "rat \<times> rat"
  fg_sharey :: bool
  fg_calls :: "(nat \<times> axis_call) list"
  fg_file :: string

definition color_of :: "string \<Rightarrow> string py" where
  "color_of cell = dict_get POLICY_COLOR (pol cell)"

definition hatched :: "(string \<times> string) list" where
  "hatched = [(''hatch'', ''///''), (''edgecolor'', ''white''), (''linewidth'', ''0.5'')]"

definition floats :: "rat list \<Rightarrow> height list" where
  "floats xs = map (\<lambda>x. Known (Fin x)) xs"

text \<open>\<open>f"{LABEL[c]}\n{THR[c]} thr"\<close>\<close>

definition cell_label :: "string \<Rightarrow> string \<Rightarrow> string py" where
  "cell_label sep c =
     py_bind (dict_get LABEL c) (\<lambda>l. py_bind (dict_get THR c) (\<lambda>t. Inr (l @ sep @ nat_str t @ '' thr'')))"

definition fig1_waiting :: "collected \<Rightarrow> nat \<times> string \<Rightarrow> (nat \<times> axis_call) list py" where
  "fig1_waiting d = (\<lambda>(i, c).
     let w = fl (38 / 100); half = fl (w / 2) in
     py_bind (cell_us d m_wait_p50_ns c) (\<lambda>p50. py_bind (color_of c) (\<lambda>col.
     py_bind (cell_us d m_wait_p99_ns c) (\<lambda>p99.
     Inr [(0, Bar [fl (of_nat i - half)] (floats [p50]) w [(''color'', col)]),
          (0, Bar [fl (of_nat i + half)] (floats [p99]) w ((''color'', col) # hatched))]))))"

definition fig1_throughput :: "collected \<Rightarrow> nat \<times> string \<Rightarrow> (nat \<times> axis_call) py" where
  "fig1_throughput d = (\<lambda>(i, c).
     py_bind (cell_metrics d c) (\<lambda>m. py_bind (color_of c) (\<lambda>col.
     Inr (1, Bar [of_nat i] [Known (m_throughput m)] (fl (7 / 10)) [(''color'', col)]))))"

definition fig1 :: "collected \<Rightarrow> figure py" where
  "fig1 d =
     py_bind (py_map (fig1_waiting d) (enumerate 0 CELLS)) (\<lambda>wait.
     py_bind (py_map (cell_label [NL]) CELLS) (\<lambda>labels.
     py_bind (py_map (fig1_throughput d) (enumerate 0 CELLS)) (\<lambda>thr.
     Inr \<lparr>fg_columns = 2, fg_size = (fl (74 / 10), fl (27 / 10)), fg_sharey = False,
          fg_calls = concat wait @
            [(0, Set_yscale ''log'' None), (0, Set_xticks [0..<length CELLS]), (0, Set_xticklabels labels),
             (0, Set_ylabel ''waiting time (us, log)''), (0, Set_title ''(a) waiting: solid = p50, hatched = p99'')] @
            thr @
            [(1, Set_xticks [0..<length CELLS]), (1, Set_xticklabels labels), (1, Set_ylabel ''throughput (req/s)''),
             (1, Set_title ''(b) throughput'')],
          fg_file = ''fig1_waiting_throughput.png''\<rparr>)))"

text \<open>
  Figures 2 and 4: one group of bars per size class and one bar per cell in it, over the reference
  cells and over the cells with one server thread.
\<close>

definition group_x :: "nat \<Rightarrow> nat \<Rightarrow> nat \<Rightarrow> rat" where
  "group_x n j i =
     (let w = fl (fl (8 / 10) / of_nat n) in
      fl (of_nat i + fl (fl (of_nat j - fl ((of_nat n - 1) / 2)) * w)))"

definition group_bars :: "(string \<Rightarrow> size \<Rightarrow> height py) \<Rightarrow> nat \<Rightarrow> string list \<Rightarrow> (nat \<times> axis_call) list py" where
  "group_bars value ax cells =
     py_map (\<lambda>(j, cell).
       py_bind (py_map (value cell) CLASSES) (\<lambda>vals.
       py_bind (color_of cell) (\<lambda>col.
       py_bind (dict_get LABEL cell) (\<lambda>l.
       Inr (ax, Bar (map (group_x (length cells) j) [0..<3]) vals (fl (fl (8 / 10) / of_nat (length cells)))
              [(''color'', col), (''label'', l)]))))) (enumerate 0 cells)"

definition grouped_figure ::
  "(string \<Rightarrow> size \<Rightarrow> height py) \<Rightarrow> string list \<Rightarrow> string \<Rightarrow> string \<Rightarrow> string \<Rightarrow> string \<Rightarrow> rat \<times> rat \<Rightarrow> string \<Rightarrow> figure py" where
  "grouped_figure value ticks title0 title1 ylabel loc size_in file =
     (let tail = (\<lambda>ax title. [(ax, Set_yscale ''log'' None), (ax, Set_xticks [0..<3]), (ax, Set_xticklabels ticks),
            (ax, Set_title title)]) in
      py_bind (group_bars value 0 REFERENCE) (\<lambda>ref.
      py_bind (group_bars value 1 [''fcfs_st1'', ''rr_st1'']) (\<lambda>st1.
      Inr \<lparr>fg_columns = 2, fg_size = size_in, fg_sharey = True,
           fg_calls = ref @ tail 0 title0 @ st1 @ tail 1 title1 @
             [(0, Set_ylabel ylabel), (0, Legend (Some 4) (Some loc))],
           fg_file = file\<rparr>)))"

definition slow_height :: "collected \<Rightarrow> string \<Rightarrow> size \<Rightarrow> height py" where
  "slow_height d cell cls =
     py_bind (slow d cell cls c_slow_med) (\<lambda>s. Inr (case s of None \<Rightarrow> Missing | Some x \<Rightarrow> Known (Fin x)))"

definition fig2 :: "collected \<Rightarrow> figure py" where
  "fig2 d =
     grouped_figure (slow_height d)
       (map (\<lambda>(c, s). size_str c @ [NL] @ ''('' @ s @ '')'') (zip CLASSES [''~1 KB'', ''~30 KB'', ''~150 KB'']))
       ''(a) 4 server threads (reference)'' ''(b) 1 server thread'' ''normalised slowdown (ns/byte, log)'' ''upper right''
       (fl (74 / 10), fl (26 / 10)) ''fig2_slowdown.png''"

definition fig4 :: "collected \<Rightarrow> figure py" where
  "fig4 d =
     grouped_figure (\<lambda>cell cls. py_bind (wait_avg d cell cls) (\<lambda>x. Inr (Known (Fin x))))
       (map size_str CLASSES)
       ''(a) 4 server threads'' ''(b) 1 server thread'' ''average waiting time (us, log)'' ''upper left''
       (fl (74 / 10), fl (25 / 10)) ''fig4_sjf_starvation.png''"

text \<open>Figure 3: forfeited bytes and rounds per GET, and the slowdown of the large file, under rr and drr.\<close>

definition pair_x :: "nat \<Rightarrow> nat \<Rightarrow> rat" where
  "pair_x j i = fl (of_nat i + fl (fl (of_nat j - 1 / 2) * fl (35 / 100)))"

definition fig3_bars :: "collected \<Rightarrow> nat \<times> string \<Rightarrow> (nat \<times> axis_call) list py" where
  "fig3_bars d = (\<lambda>(j, cell).
     py_bind (py_map (\<lambda>cls. py_bind (cell_class d cell cls) per_get) CLASSES) (\<lambda>forf.
     py_bind (color_of cell) (\<lambda>col. py_bind (dict_get LABEL cell) (\<lambda>l.
     py_bind (py_map (\<lambda>cls. py_bind (cell_class d cell cls) (\<lambda>cm. Inr (c_rounds_mean_get cm))) CLASSES) (\<lambda>rounds.
     Inr [(0, Bar (map (pair_x j) [0..<3]) (floats forf) (fl (35 / 100)) [(''color'', col), (''label'', l)]),
          (1, Bar (map (pair_x j) [0..<3]) (floats rounds) (fl (35 / 100)) [(''color'', col), (''label'', l)])])))))"

definition fig3_slow_x :: "nat \<Rightarrow> nat \<Rightarrow> rat" where
  "fig3_slow_x j k = fl (fl (fl (of_nat j - 1 / 2) * fl (36 / 100)) + fl (fl (of_nat k - 1 / 2) * fl (17 / 100)))"

definition fig3_slow :: "collected \<Rightarrow> nat \<times> string \<Rightarrow> (nat \<times> axis_call) list py" where
  "fig3_slow d = (\<lambda>(j, cell).
     py_map (\<lambda>(k, key, hatch).
       py_bind (slow d cell Large key) (\<lambda>s. py_bind (color_of cell) (\<lambda>col.
       Inr (2, Bar [fig3_slow_x j k] [case s of None \<Rightarrow> Missing | Some x \<Rightarrow> Known (Fin x)] (fl (17 / 100))
          ((''color'', col) # hatch @ tl hatched))))
     ) [(0, c_slow_med, []), (1, c_slow_p99, [hd hatched])])"

definition fig3 :: "collected \<Rightarrow> figure py" where
  "fig3 d =
     py_bind (py_map (fig3_bars d) (enumerate 0 [''rr_ref'', ''drr_ref''])) (\<lambda>ab.
     py_bind (py_map (fig3_slow d) (enumerate 0 [''rr_ref'', ''drr_ref''])) (\<lambda>c.
     Inr \<lparr>fg_columns = 3, fg_size = (fl (74 / 10), fl (25 / 10)), fg_sharey = False,
          fg_calls = concat ab @
            [(0, Set_yscale ''symlog'' (Some 10)), (0, Set_title ''(a) forfeited bytes per GET''),
             (1, Set_title ''(b) rounds per GET''),
             (0, Set_xticks [0..<3]), (0, Set_xticklabels (map size_str CLASSES)),
             (1, Set_xticks [0..<3]), (1, Set_xticklabels (map size_str CLASSES)), (0, Legend None None)] @
            concat c @
            [(2, Set_xticks [0]), (2, Set_xticklabels [''4 thr'']), (2, Set_yscale ''log'' None),
             (2, Set_title (''(c) large.txt slowdown (ns/byte)'' @ [NL] @ ''solid = median, hatched = p99''))],
          fg_file = ''fig3_rr_vs_drr.png''\<rparr>))"

end
