(* ===== verification/Report_Text.thy ===== *)
theory Report_Text
  imports Make_Report
begin

text \<open>
  The running text of \<open>scripts/make_report.py\<close>: what \<open>build_pdf\<close> computes before it writes, and every
  paragraph as the pieces of its f-strings, in the order they are evaluated.
\<close>

section \<open>The numbers of build_pdf\<close>

record numbers =
  n_w50 :: "(string \<times> rat) list"
  n_w99 :: "(string \<times> rat) list"
  n_r50 :: "(string \<times> rat) list"
  n_r99 :: "(string \<times> rat) list"
  n_thr :: "(string \<times> pyfloat) list"
  n_a14_rr :: "nat option"
  n_forf_med_get :: rat
  n_forf_large_get :: rat
  n_rounds_rr :: rat
  n_rounds_drr :: rat
  n_get_large :: nat
  n_large_close :: bool
  n_thr_close :: bool

definition cell_times :: "collected \<Rightarrow> (metrics \<Rightarrow> int option) \<Rightarrow> (string \<times> rat) list py" where
  "cell_times d key = py_map (\<lambda>c. py_bind (cell_us d key c) (\<lambda>x. Inr (c, x))) CELLS"

definition throughputs :: "collected \<Rightarrow> (string \<times> pyfloat) list py" where
  "throughputs d = py_map (\<lambda>c. py_bind (cell_metrics d c) (\<lambda>m. Inr (c, m_throughput m))) CELLS"

definition a14_of :: "collected \<Rightarrow> string \<Rightarrow> nat option" where
  "a14_of d c = (case map_of (d_a14 d) c of None \<Rightarrow> None | Some n \<Rightarrow> n)"

definition report_numbers :: "collected \<Rightarrow> numbers py" where
  "report_numbers d =
     py_bind (cell_times d m_wait_p50_ns) (\<lambda>w50. py_bind (cell_times d m_wait_p99_ns) (\<lambda>w99.
     py_bind (cell_times d m_resp_p50_ns) (\<lambda>r50. py_bind (cell_times d m_resp_p99_ns) (\<lambda>r99.
     py_bind (throughputs d) (\<lambda>thr.
     py_bind (py_bind (cell_class d ''rr_ref'' Medium) per_get) (\<lambda>forf_med.
     py_bind (py_bind (cell_class d ''rr_ref'' Large) per_get) (\<lambda>forf_large.
     py_bind (cell_class d ''rr_ref'' Large) (\<lambda>rr. py_bind (cell_class d ''drr_ref'' Large) (\<lambda>drr.
     py_bind (py_bind (slow d ''rr_ref'' Large c_slow_med) (\<lambda>a.
         py_bind (slow d ''drr_ref'' Large c_slow_med) (close_option a))) (\<lambda>large_close.
     py_bind (py_bind (dict_get thr ''fcfs_st1'') (\<lambda>a. py_bind (dict_get thr ''rr_st1'') (close_float a))) (\<lambda>thr_close.
     Inr \<lparr>n_w50 = w50, n_w99 = w99, n_r50 = r50, n_r99 = r99, n_thr = thr, n_a14_rr = a14_of d ''rr_ref'',
          n_forf_med_get = forf_med, n_forf_large_get = forf_large,
          n_rounds_rr = c_rounds_mean_get rr, n_rounds_drr = c_rounds_mean_get drr, n_get_large = c_n_get rr,
          n_large_close = large_close, n_thr_close = thr_close\<rparr>)))))))))))"

section \<open>Holes\<close>

text \<open>An f-string: its pieces are evaluated from left to right, and the first exception wins.\<close>

definition fstring :: "string py list \<Rightarrow> string py" where
  "fstring ps = py_bind (py_map (\<lambda>p. p) ps) (\<lambda>ts. Inr (concat ts))"

definition lit :: "string \<Rightarrow> string py" where "lit s = Inr s"

definition fix_hole :: "nat \<Rightarrow> rat py \<Rightarrow> string py" where
  "fix_hole k x = py_bind x (\<lambda>v. Inr (fmt_fixed k v))"

definition opt_hole :: "nat \<Rightarrow> rat option py \<Rightarrow> string py" where
  "opt_hole k x = py_bind x (fmt_option k)"

definition flt_hole :: "nat \<Rightarrow> pyfloat py \<Rightarrow> string py" where
  "flt_hole k x = py_bind x (\<lambda>v. Inr (fmt_float k v))"

definition int_hole :: "int py \<Rightarrow> string py" where
  "int_hole x = py_bind x (\<lambda>n. py_bind (float_of_int n) (\<lambda>v. Inr (fmt_thousands v)))"

text \<open>\<open>x / k\<close> for a small constant, and the quotient of two floats or of two values that may be \<open>None\<close>.\<close>

definition over :: "rat py \<Rightarrow> nat \<Rightarrow> rat py" where
  "over x k = py_bind x (\<lambda>v. Inr (float_quot v (of_nat k)))"

definition ratio :: "rat py \<Rightarrow> rat py \<Rightarrow> pyfloat py" where
  "ratio x y = py_bind x (\<lambda>a. py_bind y (float_div a))"

definition opt_ratio :: "rat option py \<Rightarrow> rat option py \<Rightarrow> pyfloat py" where
  "opt_ratio x y =
     py_bind x (\<lambda>a. py_bind y (\<lambda>b. case (a, b) of (Some u, Some v) \<Rightarrow> float_div u v | _ \<Rightarrow> Inl TypeError))"

definition higher_text :: "numbers \<Rightarrow> string py" where
  "higher_text n =
     py_bind (dict_get (n_r50 n) ''rr_ref'') (\<lambda>rr. py_bind (dict_get (n_r50 n) ''drr_ref'') (\<lambda>drr.
     py_bind (dict_get (n_r50 n) ''fcfs_ref'') (\<lambda>fcfs.
     Inr (if min rr drr > fcfs then ''higher'' else ''not lower''))))"

text \<open>\<open>f"{100 * x / 6 / QUANTUM:.0f}"\<close>; only the product can overflow.\<close>

definition percent_text :: "rat \<Rightarrow> string" where
  "percent_text x =
     (let v = fl (100 * x) in
      if fl_overflow v then (if v < 0 then ''-inf'' else ''inf'')
      else fmt_fixed 0 (float_quot (float_quot v 6) (of_nat QUANTUM)))"

abbreviation APOS :: string where "APOS \<equiv> [CHR 0x27]"

section \<open>Paragraphs\<close>

definition text_queue :: "string py" where
  "text_queue = fstring [
    lit (''<b>Queue and threads (A5).</b> An acceptor thread only calls accept(). Each connection goes '' @
      ''to a short-lived admission thread that reads the header line under a 5 s total deadline, '' @
      ''answers HEALTH immediately with the current queue depth, validates the file name (A25), and '' @
      ''enqueues the request. For a GET it opens the file and takes the size from fstat, so the '' @
      ''size is known, and fixed to one version of the file, when the request enters the queue. '' @
      ''<i>server_threads</i> workers only loop on <i>next()</i>, then serve_slice() for one round, '' @
      ''then either requeue the request (PREEMPTED) or finish it. Because admission never waits for '' @
      ''a worker, requests really do pile up in the scheduler queue: a test that pins the only '' @
      ''worker on a stalled PUT sees HEALTH report a depth of 6, and HEALTH still answers in about '' @
      ''1 ms while a silent client is connected. Clients that trickle bytes are cut off by total '' @
      ''deadlines (5 s for the header, 10 s per 64 KB of a PUT body), not by a per-recv() timeout, '' @
      ''so they cannot pin an admission thread or a worker either.'')]"

definition text_policies :: "string py" where
  "text_policies = fstring [
    lit (''<b>Policies.</b> <b>fcfs</b> serves in arrival order. <b>sjf</b> serves the queued request '' @
      ''with the smallest declared byte count (file size for GET, the count in the request line for '' @
      ''PUT: one key for both verbs), earliest arrival first on ties, with no aging. fcfs and sjf '' @
      ''never preempt, so every request takes one round (<i>rounds</i> = 1). <b>rr</b> gives each '' @
      ''scheduled request an allowance of Q = ''),
    Inr (nat_str QUANTUM),
    lit ('' bytes per round and requeues it at the tail. <b>drr</b> uses the same queue but each '' @
      ''request carries a deficit counter (initially 0): a round'' @ APOS @
      ''s allowance is deficit + Q, and whatever part of it goes unused is kept in the deficit '' @
      ''instead of being forfeited; the deficit is discarded when the request finishes.'')]"

definition text_round :: "string py" where
  "text_round = fstring [
    lit (''<b>One round (serve_slice).</b> A GET is sent in whole lines (A6): the line length is found '' @
      ''by scanning to the next '' @ APOS @ [CHR 0x5C] @ ''n'' @ APOS @
      '' (a last line without one still counts), and lines are grouped --p per write() (A8) without '' @
      ''changing which bytes go out or how the allowance is charged. A round ends as soon as the '' @
      ''next line would exceed the remaining allowance (A13); under rr the unused remainder is '' @
      ''added to <i>forfeited_bytes</i>, under drr it becomes the deficit. <b>A14</b> (rr only): if '' @
      ''a line longer than Q starts a round, i.e. the round has transferred nothing yet, it is sent '' @
      ''in full and the round ends, overrunning the allowance and logging one line. I read A14 this '' @
      ''way because its stated purpose is to stop a request being requeued having transferred '' @
      ''nothing, forever; a long line reached <i>mid-round</i> is handled by A13 instead (round '' @
      ''ends, remainder forfeited) and goes out first in the next round. drr has no escape: the '' @
      ''deficit grows by Q per round until it covers the line (A16), so a 20,000-byte line costs up '' @
      ''to 3 rounds. A PUT round reads exactly min(allowance, remaining) bytes (A9, A13) into a '' @
      ''temporary file that is renamed onto the destination when the last byte arrives, so a '' @
      ''concurrent GET never sees a half-written file. The '' @ APOS @ ''OK n'' @ APOS @
      '' response line is protocol overhead and is not charged to the allowance; the terminating '' @
      APOS @ [CHR 0x5C] @ ''n'' @ APOS @ '' of every line is (A7).'')]"

definition text_preemption :: "string py" where
  "text_preemption = fstring [
    lit (''<b>Preemption state (A17).</b> Everything a later round needs lives in the Request: the '' @
      ''byte offset; the file descriptor opened at admission (so every round reads the version that '' @
      ''was sized); the bytes already read from the socket but not yet consumed (for a PUT, the '' @
      ''body bytes that arrived with the header); the deficit; <i>rounds</i> and '' @
      ''<i>forfeited_bytes</i>; and the temporary-file path. Correctness is checked by 72 unit '' @
      ''assertions that drive serve_slice over a message-preserving socketpair against rounds, '' @
      ''forfeiture and A14 counts worked out by hand (e.g. ten 10-byte lines with Q = 35: rr takes '' @
      ''4 rounds and forfeits 15 bytes, drr takes 3 and forfeits 0), including a GET that keeps '' @
      ''serving the old file after a PUT has replaced it, and by an integration suite that runs all '' @
      ''four policies end to end.'')]"

definition text_setup :: "string py" where
  "text_setup = fstring [
    lit (''<b>Machine and configuration.</b> Server and client run on one laptop under WSL2 (Ubuntu '' @
      ''24.04, 8 logical CPUs) over loopback TCP, so absolute times are not network-representative; '' @
      ''only comparisons between policies are meaningful. The reference configuration is 4 server '' @
      ''threads and 8 client threads; the second is 1 server thread. Q = ''),
    Inr (nat_str QUANTUM),
    lit '' bytes. Each run makes '',
    Inr (nat_str N_REQUESTS),
    lit ('' counted requests from a closed loop of 8 client threads, after 3 uncounted seeding PUTs '' @
      ''(dropped by sorting the CSV by arrival and removing the first 3 rows). Each request picks '' @
      ''one of the workload files uniformly and does a GET or a PUT with probability 1/2. '' @
      ''Percentiles are nearest-rank. TCP_NODELAY is set so every write() is a separate segment.'')]"

definition text_workload :: "string py" where
  "text_workload = fstring [
    lit (''<b>Workload (A27), both axes in one directory.</b> <i>Size:</i> small.txt 1,044 B, '' @
      ''medium.txt 30,774 B, large.txt 153,613 B. <i>Line length:</i> small and medium contain only '' @
      ''ordinary 60-79 byte lines; large.txt has the same ordinary lines plus 6 lines of 20,000 '' @
      ''bytes (2.4 x Q) spread evenly through it, so it is both the large file and the long-line '' @
      ''file. With Q = ''),
    Inr (nat_str QUANTUM),
    lit '' the large file needs 19 rounds under a byte-exact accounting.'']"

definition text_repetition :: "string py" where
  "text_repetition = fstring [
    lit (''<b>Repetition (A28).</b> One run per cell, as the spec'' @ APOS @ ''s default ('' @ APOS @
      ''No repetition is required'' @ APOS @
      ''). Two pairs of numbers below are close enough that a single run cannot support a claim of '' @
      ''direction (the rr/drr slowdown of the long-line file, and the fcfs/rr throughput with one '' @
      ''server thread); per A28'' @ APOS @
      ''s rule I state them as not separable rather than rerun for a direction I do not need. Raw '' @
      ''per-request CSVs of all six runs are in results/.'')]"

definition text_reading :: "collected \<Rightarrow> numbers \<Rightarrow> string py" where
  "text_reading d n = fstring [
    lit (''<b>Reading the numbers.</b> Waiting falls sharply under the preemptive policies: median '' @
      ''waiting is ''),
    fix_hole 0 (dict_get (n_w50 n) ''fcfs_ref''),
    lit '' us under fcfs, '',
    fix_hole 0 (dict_get (n_w50 n) ''sjf_ref''),
    lit '' us under sjf, and '',
    fix_hole 0 (dict_get (n_w50 n) ''rr_ref''),
    lit '' / '',
    fix_hole 0 (dict_get (n_w50 n) ''drr_ref''),
    lit '' us under rr / drr (about '',
    flt_hole 1 (ratio (dict_get (n_w50 n) ''fcfs_ref'') (dict_get (n_w50 n) ''rr_ref'')),
    lit ''x lower than fcfs), and with one server thread from '',
    fix_hole 1 (over (dict_get (n_w50 n) ''fcfs_st1'') 1000),
    lit '' ms to '',
    fix_hole 1 (over (dict_get (n_w50 n) ''rr_st1'') 1000),
    lit ('' ms under rr - no request holds a worker for its whole transfer. The slowdown table (A21) '' @
      ''shows who pays for the shorter queue: the small class gains most, from ''),
    opt_hole 0 (slow d ''fcfs_ref'' Small c_slow_med),
    lit '' (fcfs) to '',
    opt_hole 0 (slow d ''sjf_ref'' Small c_slow_med),
    lit '' (sjf) to '',
    opt_hole 0 (slow d ''rr_ref'' Small c_slow_med),
    lit '' / '',
    opt_hole 0 (slow d ''drr_ref'' Small c_slow_med),
    lit '' ns/byte (rr / drr); the large class pays, from '',
    opt_hole 0 (slow d ''fcfs_ref'' Large c_slow_med),
    lit '' (fcfs) up to '',
    opt_hole 0 (slow d ''rr_ref'' Large c_slow_med),
    lit '' / '',
    opt_hole 0 (slow d ''drr_ref'' Large c_slow_med),
    lit ('' (rr / drr). Medium files move the least at the reference configuration. Throughput is '' @
      ''lower under rr/drr (''),
    flt_hole 0 (dict_get (n_thr n) ''rr_ref''),
    lit '' / '',
    flt_hole 0 (dict_get (n_thr n) ''drr_ref''),
    lit '' req/s vs '',
    flt_hole 0 (dict_get (n_thr n) ''fcfs_ref''),
    lit '' for fcfs): every extra round costs a queue trip and extra system calls. '',
    (if n_thr_close n then fstring [
    lit ''With one server thread the throughputs ('',
    flt_hole 0 (dict_get (n_thr n) ''fcfs_st1''),
    lit '' fcfs vs '',
    flt_hole 0 (dict_get (n_thr n) ''rr_st1''),
    lit ('' rr) are close enough that a single run cannot separate them: the one worker is the '' @
      ''bottleneck either way.'')] else fstring [
    lit ''With one server thread the throughputs differ ('',
    flt_hole 0 (dict_get (n_thr n) ''fcfs_st1''),
    lit '' fcfs vs '',
    flt_hole 0 (dict_get (n_thr n) ''rr_st1''),
    lit '' rr).''])]"

definition text_versus :: "numbers \<Rightarrow> string py" where
  "text_versus n = fstring [
    lit (''<b>Waiting versus response (A19).</b> The two tell different stories. At the reference '' @
      ''configuration rr / drr cut median waiting ''),
    flt_hole 1 (ratio (dict_get (n_w50 n) ''fcfs_ref'') (dict_get (n_w50 n) ''rr_ref'')),
    lit ''x, yet median response is '',
    higher_text n,
    lit '': '',
    fix_hole 0 (dict_get (n_r50 n) ''rr_ref''),
    lit '' / '',
    fix_hole 0 (dict_get (n_r50 n) ''drr_ref''),
    lit '' us against '',
    fix_hole 0 (dict_get (n_r50 n) ''fcfs_ref''),
    lit ('' us for fcfs. Response also contains the request'' @ APOS @
      ''s own service time, and a preempted request'' @ APOS @
      ''s service is spread over several rounds interleaved with other requests, so the earlier '' @
      ''start is spent on the way to the finish rather than shortening it. With one server thread '' @
      ''the queue is long enough for the gain to survive: median response falls from ''),
    fix_hole 1 (over (dict_get (n_r50 n) ''fcfs_st1'') 1000),
    lit '' ms (fcfs) to '',
    fix_hole 1 (over (dict_get (n_r50 n) ''rr_st1'') 1000),
    lit '' ms (rr), but the tail moves the other way: p99 response '',
    fix_hole 0 (over (dict_get (n_r99 n) ''fcfs_st1'') 1000),
    lit '' ms (fcfs) vs '',
    fix_hole 0 (over (dict_get (n_r99 n) ''rr_st1'') 1000),
    lit ('' ms (rr), because the large requests now wait through many rounds. Response time alone '' @
      ''would have hidden the waiting-time gain.'')]"

definition text_long_lines :: "collected \<Rightarrow> numbers \<Rightarrow> string py" where
  "text_long_lines d n = fstring [
    lit (''<b>Why long lines get less than their full allowance under rr.</b> A round can only end on '' @
      ''a line boundary. With ordinary 60-79 byte lines the leftover is tiny: a medium GET forfeits '' @
      ''about ''),
    fix_hole 0 (Inr (n_forf_med_get n)),
    lit ('' bytes in total over its 3 preempted rounds (well under 1% of Q per round). A 20,000-byte '' @
      ''line changes that: about 4.8 KB of ordinary lines separate the long lines, so when the next '' @
      ''long line is reached mid-round it cannot fit in what is left, the round ends early and the '' @
      ''remainder is forfeited - the round transfers only part of its Q. That happens once per long '' @
      ''line: the large file forfeits ''),
    Inr (fmt_thousands (n_forf_large_get n)),
    lit '' bytes per GET ('',
    int_hole (py_bind (cell_class d ''rr_ref'' Large) (\<lambda>cm. Inr (c_forfeited cm))),
    lit '' this run), about '',
    fix_hole 1 (over (over (Inr (n_forf_large_get n)) 6) 1000),
    lit '' KB, or '',
    Inr (percent_text (n_forf_large_get n)),
    lit (''% of a quantum, at each of its six long lines. The next round then starts with the long '' @
      ''line and A14 sends it whole, overrunning Q. rr'' @ APOS @
      ''s accounting is therefore uneven: it under-serves the long-line file before each long line '' @
      ''and over-serves it on the A14 round, finishing the file in ''),
    fix_hole 0 (Inr (n_rounds_rr n)),
    lit ('' rounds. <b>drr recovers exactly what rr forfeits</b>: the unused part of each allowance '' @
      ''becomes deficit, so every round'' @ APOS @
      ''s allowance is Q plus what was left over and the file'' @ APOS @
      ''s cumulative service tracks Q per round. It never forfeits, never fires A14, and needs ''),
    fix_hole 0 (Inr (n_rounds_drr n)),
    lit '' rounds (= ceil(153,613 / '',
    Inr (nat_str QUANTUM),
    lit ('')), of which the deficit-building rounds ahead of each long line transfer nothing. What drr '' @
      ''buys is exact, predictable accounting; what it costs is more rounds (and queue trips) for '' @
      ''the long-line file.'')]"

definition text_response :: "collected \<Rightarrow> numbers \<Rightarrow> string py" where
  "text_response d n = fstring [
    lit (''<b>Effect on response time.</b> The mechanism differences above are large and '' @
      ''deterministic; their effect on the large file'' @ APOS @
      ''s response time is small at this load: its slowdown is ''),
    opt_hole 1 (slow d ''rr_ref'' Large c_slow_med),
    lit '' (rr) and '',
    opt_hole 1 (slow d ''drr_ref'' Large c_slow_med),
    lit '' (drr) ns/byte, '',
    (if n_large_close n then fstring [
    lit ''close enough that one run cannot separate them (fig. 3c).''] else fstring [
    lit ''with rr and drr clearly separated in this run (fig. 3c).'']),
    lit ('' The reason is load: with 8 closed-loop clients there are never more than 4 requests '' @
      ''waiting at the reference configuration, so an extra round, or a zero-progress deficit '' @
      ''round, is soon followed by another turn.'')]"

definition text_penalises :: "collected \<Rightarrow> string py" where
  "text_penalises d = fstring [
    lit (''<b>Who each policy penalises.</b> Ranking the four policies'' @ APOS @
      '' slowdown within each size class (best to worst) gives a different order every time: small '' @
      ''is rr (''),
    opt_hole 0 (slow d ''rr_ref'' Small c_slow_med),
    lit ''), drr ('',
    opt_hole 0 (slow d ''drr_ref'' Small c_slow_med),
    lit ''), sjf ('',
    opt_hole 0 (slow d ''sjf_ref'' Small c_slow_med),
    lit ''), fcfs ('',
    opt_hole 0 (slow d ''fcfs_ref'' Small c_slow_med),
    lit '' ns/byte); medium is sjf ('',
    opt_hole 0 (slow d ''sjf_ref'' Medium c_slow_med),
    lit ''), fcfs ('',
    opt_hole 0 (slow d ''fcfs_ref'' Medium c_slow_med),
    lit ''), drr ('',
    opt_hole 0 (slow d ''drr_ref'' Medium c_slow_med),
    lit ''), rr ('',
    opt_hole 0 (slow d ''rr_ref'' Medium c_slow_med),
    lit ''); large is fcfs ('',
    opt_hole 0 (slow d ''fcfs_ref'' Large c_slow_med),
    lit ''), sjf ('',
    opt_hole 0 (slow d ''sjf_ref'' Large c_slow_med),
    lit ''), drr ('',
    opt_hole 0 (slow d ''drr_ref'' Large c_slow_med),
    lit ''), rr ('',
    opt_hole 0 (slow d ''rr_ref'' Large c_slow_med),
    lit '' ns/byte). <b>fcfs</b> is fair in waiting (all classes wait about the same: '',
    fix_hole 0 (wait_avg d ''fcfs_ref'' Small),
    lit '' / '',
    fix_hole 0 (wait_avg d ''fcfs_ref'' Medium),
    lit '' / '',
    fix_hole 0 (wait_avg d ''fcfs_ref'' Large),
    lit ('' us) but is worst for small files, which queue behind long transfers, and best for large '' @
      ''ones, which run to completion with no interruption overhead once picked. <b>rr and drr</b> '' @
      ''are the opposite: best for small (frequent turns) and worst for large, because a large '' @
      ''request is now interleaved with everyone else instead of running to completion - ''),
    flt_hole 1 (opt_ratio (slow d ''fcfs_ref'' Small c_slow_med) (slow d ''rr_ref'' Small c_slow_med)),
    lit ''x better than fcfs for small, '',
    flt_hole 1 (opt_ratio (slow d ''rr_ref'' Large c_slow_med) (slow d ''fcfs_ref'' Large c_slow_med)),
    lit (''x worse for large. <b>sjf</b> does not simply reverse fcfs: it is best for medium and, '' @
      ''because it never preempts, second-best for large (''),
    opt_hole 0 (slow d ''sjf_ref'' Large c_slow_med),
    lit ('' ns/byte, beaten only by fcfs'' @ APOS @ ''s ''),
    opt_hole 0 (slow d ''fcfs_ref'' Large c_slow_med),
    lit ('') despite making large requests wait the longest of any policy (next section) - once '' @
      ''picked, a large request runs to completion just as under fcfs, so a long wait does not '' @
      ''translate into a long slowdown the way it does under fcfs. Its cost falls on small files '' @
      ''instead (''),
    opt_hole 0 (slow d ''sjf_ref'' Small c_slow_med),
    lit '' ns/byte: much better than fcfs, but worse than rr/drr, which never rank by size at all).'']"

definition text_starvation :: "collected \<Rightarrow> string py" where
  "text_starvation d = fstring [
    lit ''<b>The SJF starvation (A11).</b> Under sjf the wait depends on size: the average wait is '',
    fix_hole 0 (wait_avg d ''sjf_ref'' Small),
    lit '' us for small, '',
    fix_hole 0 (wait_avg d ''sjf_ref'' Medium),
    lit '' for medium and '',
    fix_hole 0 (wait_avg d ''sjf_ref'' Large),
    lit '' us for large requests - large waits '',
    flt_hole 1 (ratio (wait_avg d ''sjf_ref'' Large) (wait_avg d ''sjf_ref'' Small)),
    lit (''x longer than small, while under fcfs, rr and drr the three classes wait about the same. '' @
      ''Starvation here is bounded, because each of the 8 clients has at most one request '' @
      ''outstanding, so a large request is overtaken only by requests issued while it waits; with '' @
      ''an open arrival stream of small requests it would be unbounded, which is why real systems '' @
      ''add aging.'')]"

definition p_text_counts :: "int \<Rightarrow> int \<Rightarrow> string py" where
  "p_text_counts a b = fstring [
    lit (''--p 10 vs --p 1 on the fcfs reference cell (one run each) cut the number of send() calls '' @
      ''from ''),
    Inr (int_thousands a),
    lit '' to '',
    Inr (int_thousands b),
    lit '' ('',
    fix_hole 1 (true_div a b),
    lit (''x fewer) without changing the scheduling columns (rounds = 1, forfeited_bytes = 0 in both) '' @
      ''- it changes system-call count, not scheduling, as the spec says.'')]"

definition p_text_absent :: "string py" where
  "p_text_absent = fstring [
    lit (''its send()-count effect is described in README.md (the submission zip does not ship server '' @
      ''logs, which the send() count comes from).'')]"

text \<open>\<open>p1["send_calls"] is not None\<close>: the log of the run was there and had a count.\<close>

definition p_text :: "collected \<Rightarrow> string py" where
  "p_text d =
     (case (map_of (d_aside d) ''aside_p1'', map_of (d_aside d) ''aside_p10'') of
        (Some (_, Some a), Some (_, Some b)) \<Rightarrow> p_text_counts a b
      | _ \<Rightarrow> p_text_absent)"

definition text_caveats :: "collected \<Rightarrow> string py" where
  "text_caveats d = fstring [
    lit (''One machine, loopback, three workload files and a closed loop of 8 clients: the queue is '' @
      ''short, which limits how far the policies can separate, and a single run per cell (A28'' @
      APOS @
      ''s default) means the two close pairs above are reported as not separable rather than as a '' @
      ''claimed direction. The A14 reading in section 1 is my interpretation of the spec; the '' @
      ''alternative (apply it to a long line reached anywhere in a round, not just at the start) '' @
      ''would leave rr with almost no forfeiture on this workload and remove the effect described '' @
      ''in section 4. <i>--p</i> (A30) is not part of any required experiment; briefly, ''),
    p_text d]"

end
