(* ===== verification/Report_Pdf.thy ===== *)
theory Report_Pdf
  imports Report_Text
begin

text \<open>
  The PDF of \<open>scripts/make_report.py\<close>: styles, tables, the story that \<open>build_pdf\<close> hands to the layout
  library, and the order in which the script writes its files. The layout itself, the sizes of the
  image files and the number of pages are parameters.
\<close>

section \<open>Styles and flowables\<close>

record paragraph_style =
  ps_name :: string
  ps_parent :: string
  ps_font :: "string option"
  ps_size :: rat
  ps_leading :: rat
  ps_before :: "rat option"
  ps_after :: "rat option"
  ps_keep_with_next :: bool
  ps_color :: "string option"

definition BODY :: paragraph_style where
  "BODY = \<lparr>ps_name = ''body'', ps_parent = ''BodyText'', ps_font = Some ''Helvetica'', ps_size = fl (86 / 10),
     ps_leading = fl (106 / 10), ps_before = None, ps_after = Some (fl (35 / 10)), ps_keep_with_next = False,
     ps_color = None\<rparr>"

definition H1 :: paragraph_style where
  "H1 = \<lparr>ps_name = ''h1'', ps_parent = ''Heading2'', ps_font = Some ''Helvetica-Bold'', ps_size = fl (105 / 10),
     ps_leading = fl (125 / 10), ps_before = Some 6, ps_after = Some 3, ps_keep_with_next = True, ps_color = None\<rparr>"

definition TITLE :: paragraph_style where
  "TITLE = \<lparr>ps_name = ''title'', ps_parent = ''Title'', ps_font = Some ''Helvetica-Bold'', ps_size = fl (135 / 10),
     ps_leading = 16, ps_before = None, ps_after = Some 2, ps_keep_with_next = False, ps_color = None\<rparr>"

definition SMALL :: paragraph_style where
  "SMALL = \<lparr>ps_name = ''small'', ps_parent = ''body'', ps_font = None, ps_size = fl (74 / 10),
     ps_leading = 9, ps_before = None, ps_after = None, ps_keep_with_next = False, ps_color = Some ''#333333''\<rparr>"

text \<open>A style command covers the cells from one corner to another; \<open>-1\<close> is the last column or row.\<close>

datatype style_arg = SText string | SNum rat

type_synonym style_cmd = "string \<times> (int \<times> int) \<times> (int \<times> int) \<times> style_arg list"

datatype flowable =
    Paragraph string paragraph_style
  | Spacer nat nat
  | Table "string list list" "rat list" nat "style_cmd list"
  | Image string rat "nat \<times> nat"
  | KeepTogether "flowable list"

definition para :: "string \<Rightarrow> paragraph_style \<Rightarrow> flowable" where
  "para body style = Paragraph body style"

definition table_style :: "nat \<Rightarrow> rat \<Rightarrow> style_cmd list" where
  "table_style header_rows font =
     [(''FONT'', (0, 0), (-1, -1), [SText ''Helvetica'', SNum font]),
      (''FONT'', (0, 0), (-1, int header_rows - 1), [SText ''Helvetica-Bold'', SNum font]),
      (''BACKGROUND'', (0, 0), (-1, int header_rows - 1), [SText ''#e8e8ee'']),
      (''GRID'', (0, 0), (-1, -1), [SNum (fl (3 / 10)), SText ''#999999'']),
      (''VALIGN'', (0, 0), (-1, -1), [SText ''MIDDLE'']),
      (''TOPPADDING'', (0, 0), (-1, -1), [SNum (fl (18 / 10))]),
      (''BOTTOMPADDING'', (0, 0), (-1, -1), [SNum (fl (18 / 10))]),
      (''LEFTPADDING'', (0, 0), (-1, -1), [SNum 3]), (''RIGHTPADDING'', (0, 0), (-1, -1), [SNum 3])]"

text \<open>\<open>setStyle\<close> once more adds the commands \<open>extra\<close> after those of \<open>table\<close>; widths in hundredths of an inch.\<close>

definition table :: "string list list \<Rightarrow> nat list \<Rightarrow> nat \<Rightarrow> style_cmd list \<Rightarrow> flowable" where
  "table rows col_widths header_rows extra =
     Table rows (map (\<lambda>w. fl (of_nat w / 100)) col_widths) header_rows (table_style header_rows (fl (74 / 10)) @ extra)"

text \<open>An image is as wide as given and as high as its own proportions make it.\<close>

definition fig_img :: "(string \<Rightarrow> nat \<times> nat) \<Rightarrow> string \<Rightarrow> string \<Rightarrow> flowable" where
  "fig_img img_size base name = Image (path_join base name) (fl (72 / 10)) (img_size (path_join base name))"

section \<open>Tables\<close>

definition fmt_list :: "string py list \<Rightarrow> string list py" where
  "fmt_list ps = py_map (\<lambda>p. p) ps"

definition table1_row :: "numbers \<Rightarrow> string \<Rightarrow> string list py" where
  "table1_row n c =
     fmt_list [cell_label '', '' c, fix_hole 0 (dict_get (n_w50 n) c), fix_hole 0 (dict_get (n_w99 n) c),
       fix_hole 0 (dict_get (n_r50 n) c), fix_hole 0 (dict_get (n_r99 n) c), flt_hole 1 (dict_get (n_thr n) c)]"

definition four_threads :: "string \<Rightarrow> string py" where
  "four_threads c = py_bind (dict_get LABEL c) (\<lambda>l. Inr (l @ '', 4 thr''))"

definition table2_row :: "collected \<Rightarrow> string \<Rightarrow> string list py" where
  "table2_row d c =
     fmt_list (four_threads c #
       concat (map (\<lambda>cls. [opt_hole 1 (slow d c cls c_slow_med), opt_hole 1 (slow d c cls c_slow_p99)]) CLASSES))"

definition table3_row :: "collected \<Rightarrow> string \<Rightarrow> string list py" where
  "table3_row d c =
     fmt_list ([four_threads c] @
       map (\<lambda>cls. int_hole (py_bind (cell_class d c cls) (\<lambda>cm. Inr (c_forfeited cm)))) CLASSES @
       [fix_hole 1 (py_bind (cell_class d c Medium) (\<lambda>cm. Inr (c_rounds_mean_get cm))),
        fix_hole 1 (py_bind (cell_class d c Large) (\<lambda>cm. Inr (c_rounds_mean_get cm))),
        Inr (fmt_count (a14_of d c)),
        fstring [opt_hole 1 (slow d c Large c_slow_med), lit '' / '', opt_hole 1 (slow d c Large c_slow_p99)]])"

definition table1_flow :: "numbers \<Rightarrow> flowable py" where
  "table1_flow n =
     py_bind (py_map (table1_row n) CELLS) (\<lambda>rows.
     Inr (KeepTogether
       [para (''<b>Table 1.</b> Waiting time (start - arrival), response time (finish - arrival) and '' @
          ''throughput, one run per cell (A19, A20).'') SMALL,
        table ([''cell'', ''waiting p50 (us)'', ''waiting p99 (us)'', ''response p50 (us)'', ''response p99 (us)'',
          ''throughput (req/s)''] # rows) [115, 127, 130, 127, 130, 105] 1 []]))"

definition table2_flow :: "collected \<Rightarrow> flowable py" where
  "table2_flow d =
     py_bind (py_map (table2_row d) REFERENCE) (\<lambda>rows.
     Inr (KeepTogether
       [para (''<b>Table 2.</b> Normalised slowdown (response / bytes, ns per byte) by size class, '' @
          ''reference config only (A21).'') SMALL,
        table ([''cell'', ''small med'', ''small p99'', ''medium med'', ''medium p99'', ''large med'', ''large p99''] # rows)
          [140, 95, 95, 100, 100, 95, 95] 1 []]))"

definition table3_flow :: "collected \<Rightarrow> numbers \<Rightarrow> flowable py" where
  "table3_flow d n =
     py_bind (py_map (table3_row d) [''rr_ref'', ''drr_ref'']) (\<lambda>rows.
     py_bind (fstring [lit ''<b>Table 3.</b> Long-line comparison, one run each. A14 fired '', Inr (fmt_count (n_a14_rr n)),
         lit '' times under rr, exactly the 6 long lines of every large-file GET ('', Inr (nat_str (n_get_large n)),
         lit '' GETs this run), and never under drr.'']) (\<lambda>caption.
     Inr (KeepTogether
       [para caption SMALL,
        table ([[], ''forfeited bytes'', [], [], ''rounds / GET'', [], ''A14 fires'', ''large.txt slowdown''] #
          [''cell'', ''small'', ''medium'', ''large'', ''medium'', ''large'', ''per run'', ''median / p99''] # rows)
          [130, 70, 85, 95, 75, 60, 75, 140] 2
          [(''SPAN'', (1, 0), (3, 0), []), (''SPAN'', (4, 0), (5, 0), [])]])))"

section \<open>build_pdf\<close>

definition body_text :: "string py \<Rightarrow> flowable py" where
  "body_text t = py_bind t (\<lambda>s. Inr (para s BODY))"

definition heading :: "string \<Rightarrow> flowable py" where
  "heading s = Inr (para s H1)"

definition story_runs ::
  "collected \<Rightarrow> numbers \<Rightarrow> string \<Rightarrow> (string \<Rightarrow> flowable) \<Rightarrow> flowable py list" where
  "story_runs d n authors img =
     [Inr (para ''COL724/7524 Assignment 2, Part A: Link Scheduling'' TITLE), Inr (para authors SMALL), Inr (Spacer 1 3),
      heading ''1. The four policies as implemented'',
      body_text text_queue, body_text text_policies, body_text text_round, body_text text_preemption,
      heading ''2. Experimental setup'',
      body_text text_setup, body_text text_workload, body_text text_repetition,
      heading ''3. Per-run results'',
      table1_flow n, Inr (Spacer 1 3), Inr (img ''fig1_waiting_throughput.png''),
      table2_flow d, Inr (Spacer 1 3), Inr (img ''fig2_slowdown.png''),
      body_text (text_reading d n), body_text (text_versus n)]"

definition story_discussion :: "collected \<Rightarrow> numbers \<Rightarrow> (string \<Rightarrow> flowable) \<Rightarrow> flowable py list" where
  "story_discussion d n img =
     [heading ''4. rr versus drr (A29)'',
      table3_flow d n, Inr (Spacer 1 3), Inr (img ''fig3_rr_vs_drr.png''),
      body_text (text_long_lines d n), body_text (text_response d n),
      heading ''5. Trade-offs and the SJF starvation'',
      Inr (img ''fig4_sjf_starvation.png''),
      body_text (text_penalises d), body_text (text_starvation d),
      heading ''6. Caveats'',
      body_text (text_caveats d)]"

definition story :: "collected \<Rightarrow> numbers \<Rightarrow> string \<Rightarrow> (string \<Rightarrow> flowable) \<Rightarrow> flowable py list" where
  "story d n authors img = story_runs d n authors img @ story_discussion d n img"

definition build_story :: "collected \<Rightarrow> string \<Rightarrow> (string \<Rightarrow> flowable) \<Rightarrow> flowable list py" where
  "build_story d authors img =
     py_bind (report_numbers d) (\<lambda>n. py_map (\<lambda>f. f) (story d n authors img))"

section \<open>The script\<close>

text \<open>
  What the script writes, in order: the figures, the PDF, and a line on standard output. \<open>margins\<close> are
  in inches.
\<close>

datatype report_event =
    Save_figure string figure
  | Build_doc string "rat list" string string "flowable list"
  | Report_line string

fun save_figures :: "string \<Rightarrow> figure py list \<Rightarrow> report_event list \<times> unit py" where
  "save_figures base [] = ([], Inr ())"
| "save_figures base (Inl e # fs) = ([], Inl e)"
| "save_figures base (Inr f # fs) =
     (case save_figures base fs of (ev, r) \<Rightarrow> (Save_figure (path_join base (fg_file f)) f # ev, r))"

definition build_pdf ::
  "collected \<Rightarrow> string \<Rightarrow> string \<Rightarrow> (string \<Rightarrow> nat \<times> nat) \<Rightarrow> report_event list py" where
  "build_pdf d base authors img_size =
     py_bind (build_story d authors (fig_img img_size base)) (\<lambda>flow.
     Inr [Build_doc (path_join base ''report_A.pdf'') [fl (55 / 100), fl (55 / 100), 1 / 2, 1 / 2]
            ''COL724/7524 Assignment 2 - Part A report'' ''Mohit'' flow])"

definition report_run ::
  "collected \<Rightarrow> string \<Rightarrow> string \<Rightarrow> (string \<Rightarrow> nat \<times> nat) \<Rightarrow> nat \<Rightarrow> report_event list \<times> unit py" where
  "report_run d base authors img_size pages =
     (case save_figures base [fig1 d, fig2 d, fig3 d, fig4 d] of
        (ev, Inl e) \<Rightarrow> (ev, Inl e)
      | (ev, Inr _) \<Rightarrow>
          (case build_pdf d base authors img_size of
             Inl e \<Rightarrow> (ev, Inl e)
           | Inr ev2 \<Rightarrow>
               (ev @ ev2 @ [Report_line (''figures written to '' @ base @ ''; report_A.pdf has '' @ nat_str pages @
                  '' page(s) (limit 6)'')], Inr ())))"

text \<open>The results are collected when the script is loaded, before any of its functions is called.\<close>

definition report_main ::
  "files \<Rightarrow> string \<Rightarrow> string \<Rightarrow> string \<Rightarrow> (string \<Rightarrow> nat \<times> nat) \<Rightarrow> nat \<Rightarrow> report_event list \<times> unit py" where
  "report_main fs results base authors img_size pages =
     (case load_all fs results 3 of
        Inl e \<Rightarrow> ([], Inl e)
      | Inr d \<Rightarrow> report_run d base authors img_size pages)"

end
