(* ===== verification/Float_Bounds.thy ===== *)
theory Float_Bounds
  imports Py_Base
begin

text \<open>
  Bounds for the floats of \<open>Py_Base\<close>: rounding moves a value by at most half a unit in the last place,
  so a value of moderate size neither overflows nor vanishes.
\<close>

section \<open>Powers of two\<close>

lemma pow2_pos [simp]: "0 < pow2 e"
  by (simp add: pow2_def)

lemma pow2_Suc: "pow2 (e + 1) = 2 * pow2 e"
proof (cases "0 \<le> e")
  case True
  then have "nat (e + 1) = Suc (nat e)" by simp
  with True show ?thesis by (simp add: pow2_def)
next
  case False
  then have n: "nat (- e) = Suc (nat (- (e + 1)))" by simp
  show ?thesis
  proof (cases "e = -1")
    case False
    with \<open>\<not> 0 \<le> e\<close> n show ?thesis by (simp add: pow2_def)
  qed (simp add: pow2_def)
qed

lemma pow2_add: "pow2 (a + b) = pow2 a * pow2 b"
proof -
  have up: "pow2 (a + int k) = pow2 a * pow2 (int k)" for a k
  proof (induction k)
    case (Suc k)
    have "pow2 (a + int (Suc k)) = pow2 ((a + int k) + 1)" "pow2 (int (Suc k)) = pow2 (int k + 1)"
      by (simp_all add: ac_simps)
    with Suc show ?case by (simp only: pow2_Suc)
  qed (simp add: pow2_def)
  show ?thesis
  proof (cases "0 \<le> b")
    case True
    with up [of a "nat b"] show ?thesis by simp
  next
    case False
    define k where "k = nat (- b)"
    from False have b: "b = - int k" by (simp add: k_def)
    have "pow2 a = pow2 (a + b) * pow2 (int k)" using up [of "a + b" k] b by simp
    moreover have "pow2 b * pow2 (int k) = 1" using up [of b k] b by (simp add: pow2_def)
    ultimately show ?thesis by (metis mult.assoc mult.commute mult_1)
  qed
qed

lemma pow2_mono: "a \<le> b \<Longrightarrow> pow2 a \<le> pow2 b"
proof -
  assume "a \<le> b"
  then have "1 \<le> pow2 (b - a)" by (simp add: pow2_def)
  then have "pow2 a * 1 \<le> pow2 a * pow2 (b - a)" by (intro mult_left_mono) (simp_all add: less_imp_le)
  then show "pow2 a \<le> pow2 b" by (simp flip: pow2_add)
qed

lemma pow2_nat: "pow2 (int k) = 2 ^ k"
  by (simp add: pow2_def)

section \<open>The exponent\<close>

lemma bit_length_bounds: "0 < n \<Longrightarrow> n < 2 ^ bit_length n \<and> 2 ^ bit_length n \<le> 2 * n"
proof (induction n rule: bit_length.induct)
  case (1 n)
  show ?case
  proof (cases "n div 2 = 0")
    case True
    with "1.prems" have "n = 1" by simp
    then show ?thesis by (simp add: bit_length.simps)
  next
    case False
    with "1.IH" "1.prems" have ih: "n div 2 < 2 ^ bit_length (n div 2)" "2 ^ bit_length (n div 2) \<le> 2 * (n div 2)" by auto
    have b: "bit_length n = Suc (bit_length (n div 2))" using "1.prems" by (subst bit_length.simps) simp
    have "n < 2 * (n div 2) + 2" "2 * (n div 2) \<le> n" by simp_all
    with ih show ?thesis unfolding b by simp
  qed
qed

lemma exponent_of_bounds:
  assumes "0 < x"
  shows "pow2 (exponent_of x) \<le> x" and "x < pow2 (exponent_of x + 1)"
proof -
  obtain n d where q: "quotient_of x = (n, d)" by (cases "quotient_of x")
  have d: "0 < d" using q by (rule quotient_of_denom_pos)
  have x: "x = of_int n / of_int d" using q by (rule quotient_of_div)
  with assms d have n: "0 < n" by (simp add: zero_less_divide_iff)
  let ?a = "bit_length (nat n)" and ?b = "bit_length (nat d)"
  define e where "e = int ?a - int ?b"
  have "rat_of_nat (nat n) < rat_of_nat (2 ^ ?a)" "rat_of_nat (2 ^ ?a) \<le> rat_of_nat (2 * nat n)"
    "rat_of_nat (nat d) < rat_of_nat (2 ^ ?b)" "rat_of_nat (2 ^ ?b) \<le> rat_of_nat (2 * nat d)"
    using bit_length_bounds [of "nat n"] bit_length_bounds [of "nat d"] n d by (simp_all only: of_nat_less_iff of_nat_le_iff zero_less_nat_eq)
  then have bn: "of_int n < pow2 (int ?a)" "pow2 (int ?a) \<le> 2 * of_int n"
    and bd: "of_int d < pow2 (int ?b)" "pow2 (int ?b) \<le> 2 * of_int d"
    using n d by (simp_all add: pow2_nat)
  have dx: "of_int n = x * of_int d" using x d by simp
  have "pow2 (int ?a) = pow2 e * pow2 (int ?b)" by (simp add: e_def flip: pow2_add)
  moreover have "pow2 e * pow2 (int ?b) \<le> pow2 e * (2 * of_int d)" using bd(2) by (intro mult_left_mono) (simp_all add: less_imp_le)
  ultimately have "x * of_int d < pow2 e * (2 * of_int d)" using bn(1) dx by linarith
  then have up: "x < pow2 (e + 1)" using d by (simp add: pow2_Suc)
  have "pow2 e * of_int d < pow2 e * pow2 (int ?b)" using bd(1) by (intro mult_strict_left_mono) simp_all
  with bn(2) dx \<open>pow2 (int ?a) = pow2 e * pow2 (int ?b)\<close> have "pow2 e * of_int d < (2 * x) * of_int d" by linarith
  then have lo: "pow2 (e - 1) < x" using d pow2_Suc [of "e - 1"] by simp
  have ex: "exponent_of x = (if pow2 e \<le> x then e else e - 1)" by (simp add: exponent_of_def q e_def Let_def)
  show "pow2 (exponent_of x) \<le> x" "x < pow2 (exponent_of x + 1)" using ex up lo by auto
qed

section \<open>Rounding\<close>

lemma round_half_even_error: "\<bar>of_int (round_half_even x) - x\<bar> \<le> 1 / 2"
proof -
  define f where "f = \<lfloor>x\<rfloor>"
  have "of_int f \<le> x" "x < of_int f + 1" unfolding f_def by linarith+
  then show ?thesis by (auto simp: round_half_even_def Let_def abs_if simp flip: f_def)
qed

definition ulp :: "rat \<Rightarrow> rat" where
  "ulp x = pow2 (max (exponent_of \<bar>x\<bar> - 52) (-1074))"

lemma fl_error: "x \<noteq> 0 \<Longrightarrow> \<bar>fl x - x\<bar> \<le> ulp x / 2"
proof -
  assume "x \<noteq> 0"
  then have f: "fl x = of_int (round_half_even (x / ulp x)) * ulp x" by (simp add: fl_def ulp_def Let_def)
  have u: "0 < ulp x" by (simp add: ulp_def)
  have "fl x - x = (of_int (round_half_even (x / ulp x)) - x / ulp x) * ulp x"
    using u f by (simp add: left_diff_distrib)
  then have "\<bar>fl x - x\<bar> = \<bar>of_int (round_half_even (x / ulp x)) - x / ulp x\<bar> * ulp x" using u by (simp add: abs_mult)
  also have "\<dots> \<le> 1 / 2 * ulp x" using round_half_even_error u by (intro mult_right_mono) simp_all
  finally show "\<bar>fl x - x\<bar> \<le> ulp x / 2" by simp
qed

lemma ulp_le: "x \<noteq> 0 \<Longrightarrow> ulp x \<le> max \<bar>x\<bar> (pow2 (-1074))"
proof -
  assume "x \<noteq> 0"
  then have "pow2 (exponent_of \<bar>x\<bar>) \<le> \<bar>x\<bar>" by (intro exponent_of_bounds) simp
  moreover have "pow2 (exponent_of \<bar>x\<bar> - 52) \<le> pow2 (exponent_of \<bar>x\<bar>)" by (rule pow2_mono) simp
  ultimately show "ulp x \<le> max \<bar>x\<bar> (pow2 (-1074))" by (auto simp: ulp_def max_def)
qed

lemma fl_abs_le: "\<bar>fl x\<bar> \<le> 2 * \<bar>x\<bar> + 1"
proof (cases "x = 0")
  case False
  have "pow2 (-1074) \<le> pow2 0" by (rule pow2_mono) simp
  then have "pow2 (-1074) \<le> 1" by (simp add: pow2_def)
  with fl_error [OF False] ulp_le [OF False] show ?thesis by linarith
qed (simp add: fl_def)

lemma fl_moderate: "\<bar>x\<bar> \<le> 2 ^ 200 \<Longrightarrow> \<not> fl_overflow (fl x)"
proof -
  assume x: "\<bar>x\<bar> \<le> 2 ^ 200"
  have "2 * (2 ^ 200) + 1 < pow2 202" by (simp add: pow2_def)
  also have "\<dots> \<le> pow2 1024" by (rule pow2_mono) simp
  finally show "\<not> fl_overflow (fl x)" using fl_abs_le [of x] x unfolding fl_overflow_def by linarith
qed

lemma fl_pos: "pow2 (-1074) \<le> x \<Longrightarrow> 0 < fl x"
proof -
  assume x: "pow2 (-1074) \<le> x"
  moreover have "0 < pow2 (-1074)" by simp
  ultimately have "0 < x" by linarith
  with x have "\<bar>fl x - x\<bar> \<le> x / 2" using fl_error [of x] ulp_le [of x] by (simp add: max_def)
  with \<open>0 < x\<close> show "0 < fl x" by linarith
qed

section \<open>Operations that succeed\<close>

lemma of_int_bound: "\<bar>a\<bar> \<le> 2 ^ k \<Longrightarrow> \<bar>rat_of_int a\<bar> \<le> 2 ^ k"
proof -
  assume "\<bar>a\<bar> \<le> 2 ^ k"
  then have "rat_of_int \<bar>a\<bar> \<le> rat_of_int (2 ^ k)" by (simp only: of_int_le_iff)
  then show ?thesis by simp
qed

lemma true_div_ok: "b \<noteq> 0 \<Longrightarrow> \<bar>a\<bar> \<le> 2 ^ 200 \<Longrightarrow> true_div a b = Inr (fl (of_int a / of_int b))"
proof -
  assume b: "b \<noteq> 0" and a: "\<bar>a\<bar> \<le> 2 ^ 200"
  have "1 \<le> \<bar>b\<bar>" using b by linarith
  then have "1 \<le> \<bar>rat_of_int b\<bar>" by (metis of_int_1_le_iff of_int_abs)
  then have "\<bar>rat_of_int a\<bar> / \<bar>of_int b\<bar> \<le> \<bar>rat_of_int a\<bar> / 1" by (intro divide_left_mono) auto
  moreover have "\<bar>rat_of_int a\<bar> \<le> 2 ^ 200" using a by (rule of_int_bound)
  ultimately have "\<bar>rat_of_int a / of_int b\<bar> \<le> 2 ^ 200" unfolding abs_divide by linarith
  with b show ?thesis by (simp add: true_div_def fl_moderate)
qed

lemma float_of_int_ok: "\<bar>a\<bar> \<le> 2 ^ 200 \<Longrightarrow> float_of_int a = Inr (fl (of_int a))"
proof -
  assume "\<bar>a\<bar> \<le> 2 ^ 200"
  then have "\<bar>rat_of_int a\<bar> \<le> 2 ^ 200" by (rule of_int_bound)
  then show ?thesis by (simp add: float_of_int_def fl_moderate)
qed

end
