(* ===== verification/Report_Complete.thy ===== *)
theory Report_Complete
  imports Report_Pdf Float_Bounds
begin

text \<open>
  When the report script succeeds, and how its charts and its tables are related.
\<close>

section \<open>Successful evaluation\<close>

definition py_ok :: "'a py \<Rightarrow> bool" where
  "py_ok x \<longleftrightarrow> (\<exists>y. x = Inr y)"

lemma py_ok_Inr [simp]: "py_ok (Inr y)"
  by (simp add: py_ok_def)

lemma py_ok_Inl [simp]: "\<not> py_ok (Inl e)"
  by (simp add: py_ok_def)

lemma py_ok_bind: "py_ok (py_bind m f) \<longleftrightarrow> (case m of Inl e \<Rightarrow> False | Inr x \<Rightarrow> py_ok (f x))"
  by (cases m) auto

lemma py_ok_map: "py_ok (py_map f xs) \<longleftrightarrow> (\<forall>x \<in> set xs. py_ok (f x))"
  by (induction xs) (auto simp: py_ok_bind split: sum.splits)

lemma py_ok_fstring: "py_ok (fstring ps) \<longleftrightarrow> list_all py_ok ps"
  using py_ok_map [of "\<lambda>p. p" ps] by (cases "py_map (\<lambda>p. p) ps") (auto simp: fstring_def list_all_iff)

lemma py_ok_fmt_list: "py_ok (fmt_list ps) \<longleftrightarrow> list_all py_ok ps"
  by (simp add: fmt_list_def py_ok_map list_all_iff)

lemma py_ok_lit: "py_ok (lit s)"
  by (simp add: lit_def)

text \<open>The literal pieces are left alone by the simplifier.\<close>

lemma lit_cong: "lit s = lit s"
  by (rule refl)

lemma py_ok_holes:
  "py_ok (fix_hole k (Inr x))" "py_ok (flt_hole k (Inr y))" "py_ok (opt_hole k (Inr (Some x)))"
  by (simp_all add: fix_hole_def flt_hole_def opt_hole_def)

lemma over_Inr: "over (Inr x) k = Inr (float_quot x (of_nat k))"
  by (simp add: over_def)

lemma py_ok_ratio: "b \<noteq> 0 \<Longrightarrow> py_ok (flt_hole k (ratio (Inr a) (Inr b)))"
  by (simp add: ratio_def float_div_def flt_hole_def Let_def)

lemma py_ok_opt_ratio: "b \<noteq> 0 \<Longrightarrow> py_ok (flt_hole k (opt_ratio (Inr (Some a)) (Inr (Some b))))"
  by (simp add: opt_ratio_def float_div_def flt_hole_def Let_def)

lemma py_ok_int_hole: "\<bar>n\<bar> \<le> 2 ^ 200 \<Longrightarrow> py_ok (int_hole (Inr n))"
  by (simp add: int_hole_def float_of_int_ok)

lemmas piece_oks = py_ok_fstring py_ok_lit py_ok_holes over_Inr py_ok_ratio py_ok_opt_ratio py_ok_int_hole

section \<open>Results a report can be made of\<close>

text \<open>
  Every cell was run, every size class has percentiles and a slowdown above zero, waiting times and
  throughputs are above zero, and the counts are no larger than \<open>2 ^ 200\<close>.
\<close>

definition class_ready :: "class_metrics \<Rightarrow> bool" where
  "class_ready cm \<longleftrightarrow> (\<exists>a b. c_slow_med cm = Some a \<and> c_slow_p99 cm = Some b \<and> 0 < a) \<and>
     1 \<le> c_wait_avg_ns cm \<and> \<bar>c_forfeited cm\<bar> \<le> 2 ^ 200"

definition time_ready :: "int option \<Rightarrow> bool" where
  "time_ready t \<longleftrightarrow> (\<exists>a. t = Some a \<and> 1 \<le> a \<and> a \<le> 2 ^ 200)"

definition metrics_ready :: "metrics \<Rightarrow> bool" where
  "metrics_ready m \<longleftrightarrow> time_ready (m_wait_p50_ns m) \<and> time_ready (m_wait_p99_ns m) \<and> time_ready (m_resp_p50_ns m) \<and>
     time_ready (m_resp_p99_ns m) \<and> (\<exists>t. m_throughput m = Fin t \<and> 0 < t) \<and>
     (\<forall>cls. \<exists>cm. map_of (m_by_class m) cls = Some cm \<and> class_ready cm)"

definition sends_ready :: "collected \<Rightarrow> bool" where
  "sends_ready d \<longleftrightarrow> (\<forall>m a. map_of (d_aside d) ''aside_p1'' = Some (m, Some a) \<longrightarrow> \<bar>a\<bar> \<le> 2 ^ 200) \<and>
     (\<forall>m a. map_of (d_aside d) ''aside_p10'' = Some (m, Some a) \<longrightarrow> a \<noteq> 0)"

definition report_ready :: "collected \<Rightarrow> bool" where
  "report_ready d \<longleftrightarrow> (\<forall>c \<in> set CELLS. \<exists>m. map_of (d_cells d) c = Some m \<and> metrics_ready m) \<and> sends_ready d"

definition the_cell :: "collected \<Rightarrow> string \<Rightarrow> metrics" where
  "the_cell d c = the (map_of (d_cells d) c)"

definition the_class :: "collected \<Rightarrow> string \<Rightarrow> size \<Rightarrow> class_metrics" where
  "the_class d c cls = the (map_of (m_by_class (the_cell d c)) cls)"

definition us_value :: "collected \<Rightarrow> (metrics \<Rightarrow> int option) \<Rightarrow> string \<Rightarrow> rat" where
  "us_value d key c = fl (of_int (the (key (the_cell d c))) / of_int 1000)"

lemma cells_mem [simp]:
  "''fcfs_ref'' \<in> set CELLS" "''sjf_ref'' \<in> set CELLS" "''rr_ref'' \<in> set CELLS" "''drr_ref'' \<in> set CELLS"
  "''fcfs_st1'' \<in> set CELLS" "''rr_st1'' \<in> set CELLS"
  by (simp_all add: CELLS_def)

lemma ref_cells: "set REFERENCE \<subseteq> set CELLS"
  by (auto simp: REFERENCE_def CELLS_def)

lemma small_enough: "pow2 (-1074) \<le> 1 / 1000"
proof -
  have "pow2 (-1074) \<le> pow2 (-10)" by (rule pow2_mono) simp
  also have "\<dots> \<le> 1 / 1000" by (simp add: pow2_def)
  finally show ?thesis .
qed

lemma ready_cell:
  assumes "report_ready d" and "c \<in> set CELLS"
  shows "cell_metrics d c = Inr (the_cell d c)" and "metrics_ready (the_cell d c)"
  using assms by (auto simp: report_ready_def cell_metrics_def dict_get_def the_cell_def)

lemma ready_class:
  assumes "report_ready d" and "c \<in> set CELLS"
  shows "cell_class d c cls = Inr (the_class d c cls)" and "class_ready (the_class d c cls)"
proof -
  from ready_cell(2) [OF assms] obtain cm where "map_of (m_by_class (the_cell d c)) cls = Some cm" "class_ready cm"
    by (auto simp: metrics_ready_def)
  with ready_cell(1) [OF assms] show "cell_class d c cls = Inr (the_class d c cls)" "class_ready (the_class d c cls)"
    by (simp_all add: cell_class_def dict_get_def the_class_def)
qed

lemma ready_slow:
  assumes "report_ready d" and "c \<in> set CELLS"
  obtains a b where "slow d c cls c_slow_med = Inr (Some a)" "slow d c cls c_slow_p99 = Inr (Some b)" "0 < a"
  using ready_class [OF assms, of cls] by (auto simp: slow_def class_ready_def)

text \<open>The facts that evaluate the holes, in the form the simplifier uses.\<close>

definition med :: "collected \<Rightarrow> string \<Rightarrow> size \<Rightarrow> rat" where
  "med d c cls = the (c_slow_med (the_class d c cls))"

definition p99 :: "collected \<Rightarrow> string \<Rightarrow> size \<Rightarrow> rat" where
  "p99 d c cls = the (c_slow_p99 (the_class d c cls))"

definition avg :: "collected \<Rightarrow> string \<Rightarrow> size \<Rightarrow> rat" where
  "avg d c cls = float_quot (c_wait_avg_ns (the_class d c cls)) 1000"

lemma ready_holes:
  assumes "report_ready d" and "c \<in> set CELLS"
  shows "slow d c cls c_slow_med = Inr (Some (med d c cls))" and "slow d c cls c_slow_p99 = Inr (Some (p99 d c cls))"
    and "wait_avg d c cls = Inr (avg d c cls)" and "med d c cls > 0" and "avg d c cls > 0"
    and "per_get (the_class d c cls) = Inr (fl (of_int (c_forfeited (the_class d c cls)) /
      of_int (max 1 (int (c_n_get (the_class d c cls))))))"
    and "py_ok (int_hole (Inr (c_forfeited (the_class d c cls))))"
proof -
  note r = ready_class [OF assms, of cls]
  have "1 / 1000 \<le> c_wait_avg_ns (the_class d c cls) / 1000" using r(2) by (simp add: class_ready_def)
  with small_enough have "pow2 (-1074) \<le> c_wait_avg_ns (the_class d c cls) / 1000" by linarith
  then show "avg d c cls > 0" by (simp add: avg_def float_quot_def fl_pos)
  show "per_get (the_class d c cls) = Inr (fl (of_int (c_forfeited (the_class d c cls)) /
      of_int (max 1 (int (c_n_get (the_class d c cls))))))"
    unfolding per_get_def by (rule true_div_ok) (use r(2) in \<open>auto simp: class_ready_def\<close>)
  show "py_ok (int_hole (Inr (c_forfeited (the_class d c cls))))"
    by (rule py_ok_int_hole) (use r(2) in \<open>simp add: class_ready_def\<close>)
qed (use ready_class [OF assms, of cls] in \<open>auto simp: slow_def wait_avg_def class_ready_def med_def p99_def avg_def\<close>)

lemma ready_us:
  assumes "report_ready d" and "c \<in> set CELLS" and "key \<in> {m_wait_p50_ns, m_wait_p99_ns, m_resp_p50_ns, m_resp_p99_ns}"
  shows "cell_us d key c = Inr (us_value d key c)" and "us_value d key c > 0"
proof -
  have "time_ready (key (the_cell d c))" using ready_cell(2) [OF assms(1,2)] assms(3) by (auto simp: metrics_ready_def)
  then obtain a where a: "key (the_cell d c) = Some a" "1 \<le> a" "a \<le> 2 ^ 200" by (auto simp: time_ready_def)
  have "true_div a 1000 = Inr (fl (of_int a / of_int 1000))" by (rule true_div_ok) (use a in auto)
  with a(1) ready_cell(1) [OF assms(1,2)] show "cell_us d key c = Inr (us_value d key c)"
    by (simp add: cell_us_def thousandth_def us_value_def)
  have "1 \<le> rat_of_int a" using a(2) by simp
  then have "1 / 1000 \<le> rat_of_int a / 1000" by (intro divide_right_mono) simp_all
  with small_enough have "pow2 (-1074) \<le> rat_of_int a / 1000" by linarith
  then show "us_value d key c > 0" using a(1) by (simp add: us_value_def fl_pos)
qed

section \<open>The numbers\<close>

lemma dict_get_table: "c \<in> set xs \<Longrightarrow> dict_get (map (\<lambda>c. (c, g c)) xs) c = Inr (g c)"
  by (simp add: dict_get_def map_of_map_restrict)

lemma cell_times_ready:
  assumes "report_ready d" and "key \<in> {m_wait_p50_ns, m_wait_p99_ns, m_resp_p50_ns, m_resp_p99_ns}"
  shows "cell_times d key = Inr (map (\<lambda>c. (c, us_value d key c)) CELLS)"
  unfolding cell_times_def by (rule py_map_ok) (simp add: ready_us [OF assms(1) _ assms(2)])

lemma throughputs_ready:
  assumes "report_ready d"
  shows "throughputs d = Inr (map (\<lambda>c. (c, m_throughput (the_cell d c))) CELLS)"
  unfolding throughputs_def by (rule py_map_ok) (simp add: ready_cell [OF assms])

definition numbers_of :: "collected \<Rightarrow> numbers \<Rightarrow> bool" where
  "numbers_of d n \<longleftrightarrow> n_w50 n = map (\<lambda>c. (c, us_value d m_wait_p50_ns c)) CELLS \<and>
     n_w99 n = map (\<lambda>c. (c, us_value d m_wait_p99_ns c)) CELLS \<and> n_r50 n = map (\<lambda>c. (c, us_value d m_resp_p50_ns c)) CELLS \<and>
     n_r99 n = map (\<lambda>c. (c, us_value d m_resp_p99_ns c)) CELLS \<and> n_thr n = map (\<lambda>c. (c, m_throughput (the_cell d c))) CELLS"

lemma report_numbers_ready:
  assumes "report_ready d"
  obtains n where "report_numbers d = Inr n" "numbers_of d n"
proof -
  note h = ready_holes [OF assms] ready_class(1) [OF assms]
  obtain t1 where t1: "m_throughput (the_cell d ''fcfs_st1'') = Fin t1" "0 < t1"
    using ready_cell(2) [OF assms, of "''fcfs_st1''"] by (auto simp: metrics_ready_def)
  obtain t2 where t2: "m_throughput (the_cell d ''rr_st1'') = Fin t2" "0 < t2"
    using ready_cell(2) [OF assms, of "''rr_st1''"] by (auto simp: metrics_ready_def)
  have close: "\<exists>b. close x y = Inr b" if "0 < x" for x y :: rat using that by (auto simp: close_def max_def)
  obtain b1 where b1: "close (med d ''rr_ref'' Large) (med d ''drr_ref'' Large) = Inr b1"
    using close [OF h(4) [of "''rr_ref''" Large]] by auto
  obtain b2 where b2: "close t1 t2 = Inr b2" using close t1(2) by blast
  have "\<exists>n. report_numbers d = Inr n \<and> numbers_of d n"
    by (simp add: numbers_of_def report_numbers_def cell_times_ready [OF assms] throughputs_ready [OF assms] h dict_get_table t1 t2
        close_option_def close_float_def b1 b2)
  with that show thesis by blast
qed

lemma numbers_holes:
  assumes "report_ready d" and "numbers_of d n" and "c \<in> set CELLS"
  shows "dict_get (n_w50 n) c = Inr (us_value d m_wait_p50_ns c)" and "dict_get (n_w99 n) c = Inr (us_value d m_wait_p99_ns c)"
    and "dict_get (n_r50 n) c = Inr (us_value d m_resp_p50_ns c)" and "dict_get (n_r99 n) c = Inr (us_value d m_resp_p99_ns c)"
    and "dict_get (n_thr n) c = Inr (m_throughput (the_cell d c))" and "us_value d m_wait_p50_ns c > 0"
  using assms ready_us(2) [OF assms(1,3)] by (simp_all add: numbers_of_def dict_get_table)

section \<open>Every paragraph and table\<close>

lemma texts_ok:
  assumes "report_ready d" and "numbers_of d n"
  shows "py_ok text_queue" and "py_ok text_policies" and "py_ok text_round" and "py_ok text_preemption" and "py_ok text_setup"
    and "py_ok text_workload" and "py_ok text_repetition" and "py_ok (text_reading d n)" and "py_ok (text_versus n)"
    and "py_ok (text_long_lines d n)" and "py_ok (text_response d n)" and "py_ok (text_penalises d)" and "py_ok (text_starvation d)"
  unfolding text_queue_def text_policies_def text_round_def text_preemption_def text_setup_def text_workload_def
    text_repetition_def text_reading_def text_versus_def text_long_lines_def text_response_def text_penalises_def
    text_starvation_def higher_text_def
  using ready_holes(4,5) [OF assms(1)] numbers_holes(6) [OF assms]
  by (simp_all add: piece_oks ready_holes(1-3,7) [OF assms(1)] ready_class(1) [OF assms(1)] numbers_holes(1-5) [OF assms]
      less_imp_neq [symmetric] cong: lit_cong)

lemma text_caveats_ok:
  assumes "report_ready d"
  shows "py_ok (text_caveats d)"
proof -
  have "py_ok (p_text_counts a b)" if "b \<noteq> 0" "\<bar>a\<bar> \<le> 2 ^ 200" for a b
    using that by (simp add: p_text_counts_def piece_oks true_div_ok cong: lit_cong)
  moreover have "py_ok p_text_absent" by (simp add: p_text_absent_def piece_oks cong: lit_cong)
  ultimately have "py_ok (p_text d)"
    using assms by (auto simp: p_text_def report_ready_def sends_ready_def split: option.splits)
  then show ?thesis by (simp add: text_caveats_def piece_oks cong: lit_cong)
qed

section \<open>Tables and figures\<close>

lemma py_ok_bindI: "py_ok m \<Longrightarrow> (\<And>x. m = Inr x \<Longrightarrow> py_ok (f x)) \<Longrightarrow> py_ok (py_bind m f)"
  by (cases m) auto

lemma labels_ok:
  assumes "c \<in> set CELLS"
  shows "py_ok (dict_get LABEL c)" and "py_ok (dict_get THR c)" and "py_ok (color_of c)" and "py_ok (cell_label sep c)"
    and "py_ok (four_threads c)"
proof -
  have l: "py_ok (dict_get LABEL c)" "py_ok (dict_get THR c)" "pol c \<in> {''fcfs'', ''sjf'', ''rr'', ''drr''}"
    using assms by (auto simp: CELLS_def LABEL_def THR_def dict_get_def pol_def)
  from l(3) have "py_ok (color_of c)" by (auto simp: color_of_def dict_get_def POLICY_COLOR_def)
  moreover from l(1,2) have "py_ok (cell_label sep c)" "py_ok (four_threads c)"
    by (auto simp: cell_label_def four_threads_def intro!: py_ok_bindI)
  ultimately show "py_ok (dict_get LABEL c)" "py_ok (dict_get THR c)" "py_ok (color_of c)" "py_ok (cell_label sep c)"
    "py_ok (four_threads c)" using l by auto
qed

lemma tables_ok:
  assumes "report_ready d" and "numbers_of d n"
  shows "py_ok (table1_flow n)" and "py_ok (table2_flow d)" and "py_ok (table3_flow d n)"
proof -
  have "py_ok (table1_row n c)" if "c \<in> set CELLS" for c
    using that by (simp add: table1_row_def py_ok_fmt_list labels_ok numbers_holes [OF assms that] piece_oks)
  then show "py_ok (table1_flow n)" by (auto simp: table1_flow_def py_ok_map intro!: py_ok_bindI)
  have "py_ok (table2_row d c)" if "c \<in> set CELLS" for c
    using that by (simp add: table2_row_def py_ok_fmt_list labels_ok ready_holes [OF assms(1) that] piece_oks CLASSES_def)
  then have "py_ok (table2_row d c)" if "c \<in> set REFERENCE" for c using that ref_cells by blast
  then show "py_ok (table2_flow d)" by (auto simp: table2_flow_def py_ok_map intro!: py_ok_bindI)
  have "py_ok (table3_row d c)" if "c \<in> set CELLS" for c
    using that
    by (simp add: table3_row_def py_ok_fmt_list labels_ok ready_holes [OF assms(1) that] ready_class [OF assms(1) that]
        piece_oks CLASSES_def)
  then show "py_ok (table3_flow d n)"
    by (auto simp: table3_flow_def py_ok_map piece_oks intro!: py_ok_bindI)
qed

lemma group_bars_ok:
  assumes "\<And>c cls. c \<in> set cells \<Longrightarrow> py_ok (value c cls)" and "set cells \<subseteq> set CELLS"
  shows "py_ok (group_bars value ax cells)"
proof -
  have c: "c \<in> set cells" if "(j, c) \<in> set (enumerate 0 cells)" for j c
    using that by (auto simp: in_set_enumerate_eq)
  then have "c \<in> set CELLS" if "(j, c) \<in> set (enumerate 0 cells)" for j c
    using that assms(2) by blast
  with c show ?thesis
    by (auto simp: group_bars_def py_ok_map labels_ok assms(1) intro!: py_ok_bindI)
qed

lemma figures_ok:
  assumes "report_ready d"
  shows "py_ok (fig1 d)" and "py_ok (fig2 d)" and "py_ok (fig3 d)" and "py_ok (fig4 d)"
proof -
  note h = ready_holes [OF assms] ready_class(1) [OF assms] ready_us(1) [OF assms] ready_cell(1) [OF assms]
  have enum: "c \<in> set CELLS" if "(j, c) \<in> set (enumerate 0 cs)" "set cs \<subseteq> set CELLS" for j c cs
    using that by (auto simp: in_set_enumerate_eq)
  show "py_ok (fig1 d)"
    by (auto simp: fig1_def py_ok_map fig1_waiting_def fig1_throughput_def Let_def h labels_ok dest!: enum
        intro!: py_ok_bindI)
  have "py_ok (slow_height d c cls)" "py_ok (py_bind (wait_avg d c cls) (\<lambda>x. Inr (Known (Fin x))))" if "c \<in> set CELLS" for c cls
    using that by (simp_all add: slow_height_def h)
  then have "py_ok (group_bars (slow_height d) ax cells)"
    "py_ok (group_bars (\<lambda>c cls. py_bind (wait_avg d c cls) (\<lambda>x. Inr (Known (Fin x)))) ax cells)"
    if "set cells \<subseteq> set CELLS" for ax cells
    using that by (auto intro!: group_bars_ok)
  then show "py_ok (fig2 d)" "py_ok (fig4 d)"
    using ref_cells by (auto simp: fig2_def fig4_def grouped_figure_def Let_def intro!: py_ok_bindI)
  show "py_ok (fig3 d)"
    by (auto simp: fig3_def py_ok_map fig3_bars_def fig3_slow_def h labels_ok dest!: enum intro!: py_ok_bindI)
qed

section \<open>Properties\<close>

lemma story_ok:
  assumes "report_ready d"
  shows "py_ok (build_story d authors img)"
proof -
  from report_numbers_ready [OF assms] obtain n where n: "report_numbers d = Inr n" "numbers_of d n" .
  have body: "py_ok (body_text t)" if "py_ok t" for t using that by (auto simp: body_text_def intro!: py_ok_bindI)
  have "\<forall>f \<in> set (story d n authors img). py_ok f"
    by (simp add: story_def story_runs_def story_discussion_def heading_def body texts_ok [OF assms n(2)] text_caveats_ok [OF assms] tables_ok [OF assms n(2)])
  then have "py_ok (py_map (\<lambda>f. f) (story d n authors img))" by (simp add: py_ok_map)
  then show ?thesis by (simp add: build_story_def n(1))
qed

text \<open>A report of a run that happened: one that is missing stops the script at once.\<close>

lemma fig1_missing:
  assumes "c \<in> set CELLS" and "map_of (d_cells d) c = None"
  shows "\<not> py_ok (fig1 d)"
proof
  assume "py_ok (fig1 d)"
  then obtain bars where "py_map (fig1_waiting d) (enumerate 0 CELLS) = Inr bars" by (auto simp: fig1_def py_ok_def py_bind_Inr)
  then have "\<forall>x \<in> set (enumerate 0 CELLS). py_ok (fig1_waiting d x)" by (metis py_ok_map py_ok_Inr)
  moreover from assms(1) obtain i where "i < length CELLS" "CELLS ! i = c" by (auto simp: in_set_conv_nth)
  then have "(i, c) \<in> set (enumerate 0 CELLS)" by (simp add: in_set_enumerate_eq)
  ultimately have "py_ok (fig1_waiting d (i, c))" by blast
  with assms(2) show False
    by (simp add: fig1_waiting_def cell_us_def cell_metrics_def dict_get_def Let_def)
qed

text \<open>
  C39. When the report can be made. If every cell of the experiment was run and has usable results, the
  script draws its four figures, writes the PDF and prints its last line, and nothing raises; if a
  cell is missing, it stops with an exception before it writes anything.
\<close>

theorem report_written:
  "(report_ready d \<longrightarrow> (\<exists>f1 f2 f3 f4 flow. report_run d base authors img_size pages =
      ([Save_figure (path_join base ''fig1_waiting_throughput.png'') f1, Save_figure (path_join base ''fig2_slowdown.png'') f2,
        Save_figure (path_join base ''fig3_rr_vs_drr.png'') f3, Save_figure (path_join base ''fig4_sjf_starvation.png'') f4,
        Build_doc (path_join base ''report_A.pdf'') [fl (55 / 100), fl (55 / 100), 1 / 2, 1 / 2]
          ''COL724/7524 Assignment 2 - Part A report'' ''Mohit'' flow,
        Report_line (''figures written to '' @ base @ ''; report_A.pdf has '' @ nat_str pages @ '' page(s) (limit 6)'')],
       Inr ()))) \<and>
   ((\<exists>c \<in> set CELLS. map_of (d_cells d) c = None) \<longrightarrow>
      (\<exists>e. report_run d base authors img_size pages = ([], Inl e)))"
proof (intro conjI impI)
  assume r: "report_ready d"
  from figures_ok [OF r] obtain f1 f2 f3 f4 where f: "fig1 d = Inr f1" "fig2 d = Inr f2" "fig3 d = Inr f3" "fig4 d = Inr f4"
    by (auto simp: py_ok_def)
  from story_ok [OF r] obtain flow where "build_story d authors (fig_img img_size base) = Inr flow" by (auto simp: py_ok_def)
  moreover have "fg_file f1 = ''fig1_waiting_throughput.png''" using f(1) by (auto simp: fig1_def py_bind_Inr)
  moreover have "fg_file f2 = ''fig2_slowdown.png''" "fg_file f4 = ''fig4_sjf_starvation.png''"
    using f(2,4) by (auto simp: fig2_def fig4_def grouped_figure_def py_bind_Inr Let_def)
  moreover have "fg_file f3 = ''fig3_rr_vs_drr.png''" using f(3) by (auto simp: fig3_def py_bind_Inr)
  ultimately show "\<exists>f1 f2 f3 f4 flow. report_run d base authors img_size pages =
      ([Save_figure (path_join base ''fig1_waiting_throughput.png'') f1, Save_figure (path_join base ''fig2_slowdown.png'') f2,
        Save_figure (path_join base ''fig3_rr_vs_drr.png'') f3, Save_figure (path_join base ''fig4_sjf_starvation.png'') f4,
        Build_doc (path_join base ''report_A.pdf'') [fl (55 / 100), fl (55 / 100), 1 / 2, 1 / 2]
          ''COL724/7524 Assignment 2 - Part A report'' ''Mohit'' flow,
        Report_line (''figures written to '' @ base @ ''; report_A.pdf has '' @ nat_str pages @ '' page(s) (limit 6)'')],
       Inr ())"
    using f by (intro exI) (simp add: report_run_def build_pdf_def)
next
  assume "\<exists>c \<in> set CELLS. map_of (d_cells d) c = None"
  then have "\<not> py_ok (fig1 d)" using fig1_missing by blast
  then obtain e where "fig1 d = Inl e" by (cases "fig1 d") auto
  then show "\<exists>e. report_run d base authors img_size pages = ([], Inl e)" by (simp add: report_run_def)
qed

text \<open>Usable results, and the report they give.\<close>

definition sample_class :: class_metrics where
  "sample_class = \<lparr>c_n = 2, c_n_get = 1, c_slow_med = Some 10, c_slow_p99 = Some 20, c_wait_avg_ns = 5000, c_wait_p50_ns = Some 4000,
     c_wait_p99_ns = Some 6000, c_forfeited = 17, c_rounds_mean_get = 3, c_rounds_max_get = 3\<rparr>"

definition sample_cell :: metrics where
  "sample_cell = \<lparr>m_n = 6, m_wait_p50_ns = Some 4000, m_wait_p99_ns = Some 6000, m_resp_p50_ns = Some 8000, m_resp_p99_ns = Some 9000,
     m_throughput = Fin 100, m_by_class = map (\<lambda>cls. (cls, sample_class)) CLASSES\<rparr>"

definition sample_results :: collected where
  "sample_results = \<lparr>d_cells = map (\<lambda>c. (c, sample_cell)) CELLS, d_a14 = [], d_rerun = [], d_aside = []\<rparr>"

lemma sample_ready: "report_ready sample_results"
proof -
  have "map_of (m_by_class sample_cell) cls = Some sample_class" for cls
    by (cases cls) (simp_all add: sample_cell_def CLASSES_def)
  moreover have "class_ready sample_class" by (simp add: class_ready_def sample_class_def)
  ultimately have "metrics_ready sample_cell" by (simp add: metrics_ready_def time_ready_def) (simp add: sample_cell_def)
  then show ?thesis by (simp add: report_ready_def sample_results_def map_of_map_restrict sends_ready_def)
qed

theorem report_written_witness:
  "snd (report_run sample_results ''/r'' ''authors'' (\<lambda>name. (1440, 540)) 6) = Inr ()"
  using report_written [of sample_results "''/r''" "''authors''" "\<lambda>name. (1440, 540)" 6] sample_ready by auto

end
