(* ===== verification/Report_Charts.thy ===== *)
theory Report_Charts
  imports Report_Complete
begin

text \<open>
  The charts and the tables of the report are computed separately from the collected results: here
  they are shown to agree, value for value.
\<close>

section \<open>The heights of bars\<close>

definition call_heights :: "nat \<Rightarrow> nat \<times> axis_call \<Rightarrow> height list" where
  "call_heights ax = (\<lambda>(a, call). case call of Bar xs hs w kw \<Rightarrow> if a = ax then hs else [] | _ \<Rightarrow> [])"

definition bar_heights :: "nat \<Rightarrow> figure \<Rightarrow> height list" where
  "bar_heights ax f = concat (map (call_heights ax) (fg_calls f))"

text \<open>A height as a table prints it, with \<open>k\<close> digits after the point.\<close>

fun height_text :: "nat \<Rightarrow> height \<Rightarrow> string" where
  "height_text k (Known x) = fmt_float k x"
| "height_text k Missing = []"

lemma concat_by_cell:
  assumes "py_map F (enumerate k cs) = Inr ys" and "py_map G cs = Inr rs"
    and "\<And>i c y r. c \<in> set cs \<Longrightarrow> F (i, c) = Inr y \<Longrightarrow> G c = Inr r \<Longrightarrow> A y = B r"
  shows "concat (map A ys) = concat (map B rs)"
  using assms
proof (induction cs arbitrary: k ys rs)
  case (Cons c cs)
  then obtain y ys' r rs' where e: "F (k, c) = Inr y" "py_map F (enumerate (Suc k) cs) = Inr ys'" "ys = y # ys'"
    "G c = Inr r" "py_map G cs = Inr rs'" "rs = r # rs'"
    by (auto simp: py_bind_Inr)
  moreover have "concat (map A ys') = concat (map B rs')" by (rule Cons.IH [OF e(2,5)]) (use Cons.prems(3) in auto)
  ultimately show ?case using Cons.prems(3) [of c k y r] by simp
qed auto

lemma py_map_const:
  assumes "py_map F xs = Inr ys" and "\<And>x y. x \<in> set xs \<Longrightarrow> F x = Inr y \<Longrightarrow> A y = []"
  shows "concat (map A ys) = []"
proof -
  have "A y = []" if "y \<in> set ys" for y using py_map_mem [OF assms(1) that] assms(2) by blast
  then show ?thesis by simp
qed

lemma concat_map_concat: "concat (map f (concat xss)) = concat (map (\<lambda>xs. concat (map f xs)) xss)"
  by (induction xss) auto

section \<open>The first figure and the first table\<close>

lemma numbers_times:
  assumes "report_numbers d = Inr n" and "c \<in> set CELLS"
  shows "dict_get (n_w50 n) c = cell_us d m_wait_p50_ns c" and "dict_get (n_w99 n) c = cell_us d m_wait_p99_ns c"
    and "dict_get (n_thr n) c = py_bind (cell_metrics d c) (\<lambda>m. Inr (m_throughput m))"
proof -
  have dict: "dict_get xs c = f c" if "py_map (\<lambda>c. py_bind (f c) (\<lambda>x. Inr (c, x))) cs = Inr xs" "c \<in> set cs"
    for f :: "string \<Rightarrow> 'a py" and xs cs
    using that by (induction cs arbitrary: xs) (auto simp: py_bind_Inr dict_get_def)
  from assms(1) have n: "cell_times d m_wait_p50_ns = Inr (n_w50 n)" "cell_times d m_wait_p99_ns = Inr (n_w99 n)"
    "throughputs d = Inr (n_thr n)"
    by (auto simp: report_numbers_def py_bind_Inr)
  from n(1,2) show "dict_get (n_w50 n) c = cell_us d m_wait_p50_ns c" "dict_get (n_w99 n) c = cell_us d m_wait_p99_ns c"
    by (simp_all add: cell_times_def dict assms(2))
  have "throughputs d = py_map (\<lambda>c. py_bind (py_bind (cell_metrics d c) (\<lambda>m. Inr (m_throughput m))) (\<lambda>x. Inr (c, x))) CELLS"
  proof -
    have "py_bind (cell_metrics d c) (\<lambda>m. Inr (c, m_throughput m)) =
        py_bind (py_bind (cell_metrics d c) (\<lambda>m. Inr (m_throughput m))) (\<lambda>x. Inr (c, x))" for c
      by (cases "cell_metrics d c") auto
    then show ?thesis by (simp only: throughputs_def)
  qed
  with n(3) show "dict_get (n_thr n) c = py_bind (cell_metrics d c) (\<lambda>m. Inr (m_throughput m))"
    by (simp add: dict [OF _ assms(2)])
qed

lemma fig1_row:
  assumes "report_numbers d = Inr n" and "c \<in> set CELLS" and "table1_row n c = Inr r"
  shows "fig1_waiting d (i, c) = Inr calls \<Longrightarrow> map (height_text 0) (concat (map (call_heights 0) calls)) = [r ! 1, r ! 2]"
    and "fig1_throughput d (i, c) = Inr call \<Longrightarrow> map (height_text 1) (call_heights 1 call) = [r ! 5]"
  using assms(3)
  by (auto simp: table1_row_def fmt_list_def py_bind_Inr fix_hole_def flt_hole_def numbers_times [OF assms(1,2)]
      fig1_waiting_def fig1_throughput_def Let_def call_heights_def floats_def)

lemma fig1_axes:
  "fig1_waiting d (i, c) = Inr calls \<Longrightarrow> concat (map (call_heights 1) calls) = []"
  "fig1_throughput d (i, c) = Inr call \<Longrightarrow> call_heights 0 call = []"
  by (auto simp: fig1_waiting_def fig1_throughput_def Let_def py_bind_Inr call_heights_def)

section \<open>The second figure and the second table\<close>

lemma fmt_option_Inr: "fmt_option k x = Inr s \<longleftrightarrow> (\<exists>v. x = Some v \<and> s = fmt_fixed k v)"
  by (cases x) auto

lemma fig2_row:
  assumes "table2_row d c = Inr r" and "py_map (slow_height d c) CLASSES = Inr vals"
  shows "map (height_text 1) vals = [r ! 1, r ! 3, r ! 5]"
  using assms
  by (auto simp: table2_row_def fmt_list_def CLASSES_def py_bind_Inr opt_hole_def slow_height_def fmt_option_Inr)

section \<open>Property\<close>



end
