(* ===== verification/Spec2Isabelle.thy ===== *)
theory Spec2Isabelle
  imports Server_Runs End_To_End Load_Client Gen_Workload Log_Roundtrip Run_Experiments Py_Package Report_Charts
begin

text \<open>
  A file server with four scheduling policies, its client, and the scripts that run and evaluate the
  experiments: the model and what is proved of it.

  \<^bold>\<open>The program.\<close> The server (\<open>src/src/server\<close>) accepts connections; a short-lived admission thread reads
  the request line, answers \<open>HEALTH\<close> and errors, and puts a GET or PUT into the queue of the scheduler;
  worker threads take a request, serve one round of it, and requeue or finish it. At the end a CSV with
  one row per served request is written. The client (\<open>src/src/client\<close>) uploads, downloads, or generates
  load. Both share \<open>src/src/common\<close>. The scripts (\<open>src/scripts\<close>) generate the workload, run the
  experiments, compute metrics from the CSV files and the server logs, and write the report.

  \<^bold>\<open>The theories,\<close> with the files they model:
  \<^item> \<open>Prelude\<close>: unsigned 64-bit addition, characters, decimal numbers, splitting into lines.
  \<^item> \<open>Protocol\<close>, \<open>Byte_Sink\<close>, \<open>Channel\<close>: \<open>common/protocol.cpp\<close>. The request and response lines and their
    parsers; \<open>send_all\<close>, \<open>read_header_line\<close> and \<open>read_exact\<close> over a connection whose kernel and peer follow a
    script of events (short sends, interrupts, failures, data in any segmentation, missed deadlines).
    The locale \<open>byte_sink\<close> is the loop that \<open>send_all\<close> and \<open>write_all\<close> share.
  \<^item> \<open>Request\<close>, \<open>Scheduler\<close>: \<open>common/request.h\<close>, \<open>server/queue.h\<close>, \<open>server/scheduler*.cpp\<close>. One queue, four
    pickers; a locale states what every picker promises.
  \<^item> \<open>Filesystem\<close>: directory entries, inodes and descriptors, so that a rename or an unlink does not touch
    a file that is already open.
  \<^item> \<open>Slice\<close>, with the proofs in \<open>Slice_Get\<close>, \<open>Slice_Rounds\<close>, \<open>Slice_Put\<close> and \<open>Round_Progress\<close>:
    \<open>server/slice.cpp\<close>, one service round. \<open>run_rounds\<close> iterates it; its fuel is the number of rounds, and
    the theorems on \<open>run_rounds\<close> give the number that is enough.
  \<^item> \<open>Csv_Writer\<close>, \<open>C_Numbers\<close>, \<open>Server_Args\<close>, \<open>Json\<close>, \<open>Config\<close>, \<open>Server_Boot\<close>: \<open>common/csv_writer.cpp\<close>, the
    command line, \<open>common/config.cpp\<close>, and \<open>main\<close> up to the worker threads.
  \<^item> \<open>Server\<close>: \<open>server/main.cpp\<close> as a step relation \<open>server_step\<close>: any interleaving of accepting, admitting,
    enqueueing, taking and serving requests, and of the stages of the shutdown. A round is one step,
    since what it touches is its own connection, descriptor and temporary file, except for the
    rename. \<open>Transition\<close> has reachability and three locales: \<open>invariance\<close>, \<open>simulation\<close> and \<open>progress\<close>.
    \<open>Server_Book\<close> keeps the books (no request lost or duplicated, counters), \<open>Server_Drain\<close> the measure of
    the work left, \<open>Single_Run\<close> a sample run, \<open>Server_Runs\<close> the properties.
  \<^item> \<open>Put_Local\<close>, \<open>Request_State\<close>, \<open>Server_Store\<close>, \<open>Server_Admission\<close>, \<open>Server_Refine\<close>: the server refines
    an atomic store: the uploads that succeeded, one after the other, explain everything.
  \<^item> \<open>Client_Ops\<close>, \<open>Client_Main\<close>, \<open>Load_Client\<close>: \<open>common/client_ops.cpp\<close>, \<open>client/main.cpp\<close> and
    \<open>client/load.cpp\<close>, the load generator's threads as a step relation on its shared counters.
    \<open>End_To_End\<close> puts client and server together.
  \<^item> \<open>Py_Base\<close>, \<open>Py_Csv\<close>: what the scripts use of Python (exceptions as values, text, \<open>int\<close>, floats as
    correctly rounded rationals, the CSV reader); \<open>Float_Bounds\<close>: error bounds of the rounding.
    \<open>Py_Common\<close>, \<open>Py_Metrics\<close>, \<open>Py_Analysis\<close>, \<open>Py_Report\<close>, \<open>Gen_Workload\<close>, \<open>Run_Experiments\<close>, \<open>Py_Package\<close>: the
    scripts of the same names (\<open>analysis.py\<close> and \<open>compare_rr_drr.py\<close> in \<open>Py_Analysis\<close>, \<open>summarize.py\<close> in
    \<open>Py_Report\<close>). \<open>Make_Report\<close>, \<open>Report_Text\<close>, \<open>Report_Pdf\<close>: \<open>make_report.py\<close>, its figures as the calls made
    on their axes and its PDF as the list of paragraphs, tables and images; \<open>Report_Complete\<close> and
    \<open>Report_Charts\<close>: when it succeeds, and that charts and tables agree.
  \<^item> \<open>Csv_Roundtrip\<close>, \<open>Log_Roundtrip\<close>: what the server writes is what the scripts read.

  \<^bold>\<open>What is shown.\<close>
  \<^item> A round: whatever the kernel does, the client of a GET has a prefix of the right answer; on a
    connection without failures, exactly which lines a round sends, how the rest of the allowance is
    forfeited (rr) or kept (drr), how many rounds a file takes under every policy. A PUT is an atomic
    update of the files, on every path, and leaks neither a descriptor nor a temporary file.
  \<^item> The scheduler: nothing is lost or duplicated, the order of each policy, sjf as a stable sort and its
    starvation.
  \<^item> The server, under every interleaving: each admitted request is held or finished exactly once, the CSV
    and the totals describe what was served, every state can be drained with a bound on the steps; the
    refinement of the atomic store, and with the client: a download that succeeds is one complete
    version of the file, an upload that is reported done is in place.
  \<^item> The configuration is accepted exactly when it fits the schema; every process the experiments start
    comes up as the table of runs says; the load client issues each request once and ends.
  \<^item> The scripts: the CSV and the A14 log lines are read back as written, metrics partition the rows, two
    computations of the same numbers agree, percentiles are nearest-rank, the generated files have the
    shape the experiments rely on, and the errors of degenerate inputs.

  \<^bold>\<open>Bounds.\<close> \<open>uint64_t\<close> counters are naturals with \<open>u64_add\<close>, which wraps; where a theorem needs that nothing
  wraps (the load client, totals modulo \<open>2 ^ 64\<close>) it says so. Loops end by a measure: bytes left, script
  events left, lines left. No definition uses fuel except \<open>run_rounds\<close>, which counts rounds.

  \<^bold>\<open>Assumed of the environment.\<close> The refinement assumes that no client uses a name of the form
  \<open><name>.tmp.<id>\<close>, which the server uses for its own temporary files in the same directory, and that
  nobody else writes there. The JSON text format and the random draws are parameters, with the reader
  inverting the writer as the only law.

  \<^bold>\<open>Not modelled:\<close> the JSON library and the clock (time stamps are inputs of the steps); the drawing and
  layout libraries; \<open>argparse\<close> of the scripts; an allocation failure inside the server; the C++ memory
  model (a step of the server or of the load client is atomic); the build and shell scripts; the tests.
\<close>

section \<open>Properties that span components\<close>



text \<open>
  C24. The experiment's large file, whatever the random generator draws: downloaded under round robin
  with the scripts' quantum it fires A14 exactly six times, once for each long line, and under
  deficit round robin it takes exactly 19 rounds.
\<close>

theorem large_workload_rounds:
  assumes "admitted_get fs r (write_large_with_long_lines (150 * 1024) 6 20000 g)"
    and "wire c = []" and "round_ok c fs r" and "quantum sp = QUANTUM"
    and "run_rounds n r c fs sp = (res, r', c', fs', lines)"
  shows "(sp_policy sp = RR \<longrightarrow> length (split_lines (write_large_with_long_lines (150 * 1024) 6 20000 g)) \<le> n \<longrightarrow>
       res = DONE \<and> length lines = 6) \<and>
    (sp_policy sp = DRR \<longrightarrow> 19 \<le> n \<longrightarrow> res = DONE \<and> rounds r' = 19 \<and> lines = [])"
proof -
  let ?data = "write_large_with_long_lines (150 * 1024) 6 20000 g"
  have spec: "\<forall>l \<in> set (split_lines ?data). 60 \<le> length l \<and> length l \<le> 79 \<or> length l = 20000"
    "length (filter (\<lambda>l. length l = 20000) (split_lines ?data)) = 6" "153600 \<le> length ?data" "length ?data < 153679"
    using large_file_facts [of 6 20000 "150 * 1024" g] by simp_all
  have st: "get_state fs r c ?data" using assms(1,2) by (rule admitted_get_state)
  have fresh: "rounds r = 0" "byte_offset r = 0" "deficit r = 0" "bytes r = length ?data"
    using assms(1) file_view_length [of fs r ?data] by (simp_all add: admitted_get_def)
  have "res = DONE \<and> length lines = 6" if "sp_policy sp = RR" "length (split_lines ?data) \<le> n"
  proof -
    have "split_lines ?data \<noteq> []" using spec(3) by auto
    then have "0 < length (split_lines ?data)" by (rule length_greater_0_conv [THEN iffD2])
    with that(2) have n: "0 < n" by linarith
    from run_get_rr [OF st assms(3) that(1) _ n assms(5)] that(2) fresh(2)
    have "res = DONE \<and> length lines = length (filter (\<lambda>l. quantum sp < length l) (split_lines ?data))" by simp
    moreover have "filter (\<lambda>l. quantum sp < length l) (split_lines ?data) = filter (\<lambda>l. length l = 20000) (split_lines ?data)"
      using spec(1) assms(4) by (intro filter_cong) (auto simp: QUANTUM_def)
    ultimately show ?thesis using spec(2) by simp
  qed
  moreover have "res = DONE \<and> rounds r' = 19 \<and> lines = []" if "sp_policy sp = DRR" "19 \<le> n"
  proof -
    from that(2) obtain k where n: "n = Suc k" by (cases n) auto
    have acc: "drr_account (quantum sp) r" using fresh by (simp add: drr_account_def)
    have big: "bytes r + quantum sp \<le> u64_max" using fresh spec(4) assms(4) by (simp add: QUANTUM_def u64_max_def)
    note drr = run_get_drr [OF st assms(3) that(1) acc big assms(5) [unfolded n]]
    have "bytes r \<le> n * 8192" using fresh(4) spec(4) that(2) by linarith
    then have fin: "res = DONE" using drr n fresh(1) assms(4) by (simp add: QUANTUM_def)
    with drr fresh assms(4) have b: "length ?data \<le> rounds r' * 8192"
      "rounds r' = 1 \<or> (rounds r' - 1) * 8192 < length ?data" by (simp_all add: QUANTUM_def)
    from b spec(3,4) have "rounds r' = 19" by auto
    with fin drr show ?thesis by simp
  qed
  ultimately show ?thesis by blast
qed

text \<open>A download of the large file drawn by one generator, behind descriptor 3.\<close>

definition large_sample :: string where
  "large_sample = write_large_with_long_lines (150 * 1024) 6 20000 \<lparr>draws = (\<lambda>i. i * 7), drawn = 0\<rparr>"

definition large_fs :: fsys where
  "large_fs = empty_fs\<lparr>inode := (\<lambda>_. large_sample), fds := (\<lambda>_. None)(3 := Some 0), next_fd := 4\<rparr>"

definition large_get :: request where
  "large_get = new_request\<lparr>rid := 7, filename := ''f'', bytes := length large_sample, file_fd := 3\<rparr>"

lemma large_admitted: "admitted_get large_fs large_get large_sample"
  by (simp add: admitted_get_def large_get_def large_fs_def new_request_def file_view_def)

lemma large_ok: "round_ok sample_chan large_fs large_get"
  by (simp add: sample_chan_def round_ok_def sends_ok_def reads_ok_def large_fs_def empty_fs_def)

theorem large_workload_rounds_witness:
  "fst (run_rounds 20 large_get sample_chan large_fs \<lparr>sp_policy = DRR, quantum = QUANTUM, p_lines = 1\<rparr>) = DONE"
proof -
  let ?sp = "\<lparr>sp_policy = DRR, quantum = QUANTUM, p_lines = 1\<rparr>"
  obtain res r' c' fs' lines where run: "run_rounds 20 large_get sample_chan large_fs ?sp = (res, r', c', fs', lines)"
    by (rule prod_cases5)
  from large_workload_rounds [OF large_admitted [unfolded large_sample_def] sample_ok(1) large_ok _ run] show ?thesis
    by (simp add: run)
qed

end
